(* ===== verification/Stage_Prelude.thy ===== *)
theory Stage_Prelude
  imports Complex_Main
begin

text \<open>
  Shared vocabulary of the development: the proof collections, the type names of
  the objects the runtime passes around, reachability of step relations, and the
  contracts that more than one component keeps.

  Objects that the program compares by identity (event loops, tasks, futures,
  handles, callables) are natural-number references: equality of references is
  Python's \<open>is\<close>. Clock readings of \<open>time.monotonic()\<close> are reals.
\<close>

named_theorems tunnel_defs "definitions of the Tunnel operations"
named_theorems handle_defs "definitions of the StageHandle operations"
named_theorems carrier_defs "definitions of the carrier operations"
named_theorems scope_defs "definitions of the Stage scope operations"

type_synonym loop_ref = nat
type_synonym task_ref = nat
type_synonym future_ref = nat
type_synonym callable_ref = nat
type_synonym clock = real

section \<open>Reachable states and invariants\<close>

inductive reachable :: "('s \<Rightarrow> bool) \<Rightarrow> ('s \<Rightarrow> 's \<Rightarrow> bool) \<Rightarrow> 's \<Rightarrow> bool"
  for start :: "'s \<Rightarrow> bool" and step :: "'s \<Rightarrow> 's \<Rightarrow> bool" where
  reach_start: "start s \<Longrightarrow> reachable start step s"
| reach_step: "reachable start step s \<Longrightarrow> step s t \<Longrightarrow> reachable start step t"

text \<open>
  The contract of a component whose atomic actions interleave: an invariant that
  holds at the start and that every action keeps.
\<close>

locale inductive_invariant =
  fixes start :: "'s \<Rightarrow> bool"
    and step :: "'s \<Rightarrow> 's \<Rightarrow> bool"
    and inv :: "'s \<Rightarrow> bool"
  assumes start_inv: "start s \<Longrightarrow> inv s"
    and step_inv: "inv s \<Longrightarrow> step s t \<Longrightarrow> inv t"
begin

lemma reachable_inv: "reachable start step s \<Longrightarrow> inv s"
  by (induction rule: reachable.induct) (blast intro: start_inv step_inv)+

lemma steps_inv: "step\<^sup>*\<^sup>* s t \<Longrightarrow> inv s \<Longrightarrow> inv t"
  by (induction rule: rtranclp_induct) (blast intro: step_inv)+

end

text \<open>
  A component whose history only moves forward: every action from a state that keeps the
  invariant goes up in a preorder (latched outcomes, growing logs, one-way state machines).
\<close>

locale monotone_system = inductive_invariant start step inv
  for start :: "'s \<Rightarrow> bool" and step :: "'s \<Rightarrow> 's \<Rightarrow> bool" and inv :: "'s \<Rightarrow> bool" +
  fixes le :: "'s \<Rightarrow> 's \<Rightarrow> bool"
  assumes le_refl: "le s s"
    and le_trans: "le s t \<Longrightarrow> le t u \<Longrightarrow> le s u"
    and step_le: "inv s \<Longrightarrow> step s t \<Longrightarrow> le s t"
begin

lemma steps_le: "step\<^sup>*\<^sup>* s t \<Longrightarrow> inv s \<Longrightarrow> le s t"
  by (induction rule: rtranclp_induct) (blast intro: le_refl le_trans step_le steps_inv)+

lemma reachable_le: "reachable start step s \<Longrightarrow> step\<^sup>*\<^sup>* s t \<Longrightarrow> le s t"
  using steps_le reachable_inv by blast

lemma stable: "(\<And>s t. le s t \<Longrightarrow> p s \<Longrightarrow> p t) \<Longrightarrow> reachable start step s \<Longrightarrow> p s \<Longrightarrow> step\<^sup>*\<^sup>* s t \<Longrightarrow> p t"
  using reachable_le by blast

end

section \<open>Counted reservations\<close>

text \<open>
  \<open>StageHandle._retain_work\<close>/\<open>_release_work\<close> and the generation reservations of
  \<open>_CarrierSlot\<close> share one contract: a counter, an increment that always succeeds and
  a decrement that raises exactly at zero.
\<close>

datatype count_op = Retain | Release

fun count_delta :: "count_op list \<Rightarrow> int" where
  "count_delta [] = 0"
| "count_delta (Retain # ops) = 1 + count_delta ops"
| "count_delta (Release # ops) = count_delta ops - 1"

fun never_below :: "int \<Rightarrow> count_op list \<Rightarrow> bool" where
  "never_below n [] = True"
| "never_below n (Retain # ops) = never_below (n + 1) ops"
| "never_below n (Release # ops) = (0 < n \<and> never_below (n - 1) ops)"

fun count_run :: "('s \<Rightarrow> 's) \<Rightarrow> ('s \<Rightarrow> 'x + 's) \<Rightarrow> count_op list \<Rightarrow> 's \<Rightarrow> 'x + 's" where
  "count_run ret rel [] s = Inr s"
| "count_run ret rel (Retain # ops) s = count_run ret rel ops (ret s)"
| "count_run ret rel (Release # ops) s =
     (case rel s of Inl e \<Rightarrow> Inl e | Inr s' \<Rightarrow> count_run ret rel ops s')"

locale counted_reservation =
  fixes cnt :: "'s \<Rightarrow> int"
    and retain :: "'s \<Rightarrow> 's"
    and release :: "'s \<Rightarrow> 'x + 's"
    and ok :: "'s \<Rightarrow> bool"
  assumes retain_cnt: "ok s \<Longrightarrow> cnt (retain s) = cnt s + 1"
    and retain_ok: "ok s \<Longrightarrow> ok (retain s)"
    and release_pos: "ok s \<Longrightarrow> 0 < cnt s \<Longrightarrow> \<exists>s'. release s = Inr s' \<and> cnt s' = cnt s - 1 \<and> ok s'"
    and release_zero: "ok s \<Longrightarrow> cnt s \<le> 0 \<Longrightarrow> \<exists>e. release s = Inl e"
begin

lemma run_succeeds:
  "ok s \<Longrightarrow> never_below (cnt s) ops \<Longrightarrow>
   \<exists>s'. count_run retain release ops s = Inr s' \<and> cnt s' = cnt s + count_delta ops \<and> ok s'"
proof (induction ops arbitrary: s)
  case Nil
  then show ?case by simp
next
  case (Cons x ops)
  show ?case
  proof (cases x)
    case Retain
    with Cons.prems Cons.IH [of "retain s"] show ?thesis
      by (auto simp: retain_cnt retain_ok)
  next
    case Release
    with Cons.prems obtain s' where "release s = Inr s'" "cnt s' = cnt s - 1" "ok s'"
      using release_pos by auto
    with Release Cons.prems Cons.IH [of s'] show ?thesis by auto
  qed
qed

lemma run_raises:
  "ok s \<Longrightarrow> \<not> never_below (cnt s) ops \<Longrightarrow> \<exists>e. count_run retain release ops s = Inl e"
proof (induction ops arbitrary: s)
  case Nil
  then show ?case by simp
next
  case (Cons x ops)
  show ?case
  proof (cases x)
    case Retain
    with Cons.prems Cons.IH [of "retain s"] show ?thesis
      by (auto simp: retain_cnt retain_ok)
  next
    case Release
    show ?thesis
    proof (cases "0 < cnt s")
      case True
      with Release Cons.prems obtain s' where "release s = Inr s'" "cnt s' = cnt s - 1" "ok s'"
        using release_pos by auto
      with Release True Cons.prems Cons.IH [of s'] show ?thesis by auto
    next
      case False
      with Release Cons.prems obtain e where "release s = Inl e"
        using release_zero [of s] by auto
      with Release show ?thesis by auto
    qed
  qed
qed

end

section \<open>Lists\<close>

lemma Ex_Not [simp]: "Ex Not"
  by blast

lemma nth_append_left [simp]: "i < length xs \<Longrightarrow> (xs @ ys) ! i = xs ! i"
  by (simp add: nth_append)

lemma tl_drop_snoc:
  "n \<le> length xs \<Longrightarrow> tl (drop n xs @ [x]) = drop (Suc n) xs @ drop (Suc n - length xs) [x]"
  by (cases "n = length xs") (auto simp: tl_append2 drop_Suc tl_drop)

lemma filter_neq_id: "x \<notin> set xs \<Longrightarrow> filter (\<lambda>y. y \<noteq> x) xs = xs"
  by (induction xs) auto

lemma distinct_map_take:
  assumes "distinct (map f (xs @ ys))"
  shows "distinct (map f (take n xs @ ys))"
proof -
  have "distinct (map f ((take n xs @ drop n xs) @ ys))" using assms by simp
  then show ?thesis unfolding map_append distinct_append set_append by blast
qed

lemma enumerate_mem: "x \<in> set xs \<Longrightarrow> \<exists>k. (k, x) \<in> set (List.enumerate n xs)"
  by (induction xs arbitrary: n) auto

text \<open>The first element with the least key, as \<open>min(candidates, key=...)\<close> returns it.\<close>

fun first_min :: "('a \<Rightarrow> 'k::linorder) \<Rightarrow> 'a list \<Rightarrow> 'a option" where
  "first_min k [] = None"
| "first_min k (x # xs) =
     (case first_min k xs of None \<Rightarrow> Some x | Some y \<Rightarrow> (if k x \<le> k y then Some x else Some y))"

lemma first_min_None [simp]: "first_min k xs = None \<longleftrightarrow> xs = []"
  by (cases xs) (auto split: option.splits)

lemma first_min_Some:
  "first_min k xs = Some x \<Longrightarrow> x \<in> set xs \<and> (\<forall>y\<in>set xs. k x \<le> k y)"
  by (induction xs arbitrary: x) (auto split: option.splits if_splits)

end
