(* ===== verification/Stage_Errors.thy ===== *)
theory Stage_Errors
  imports Stage_Prelude
begin

text \<open>
  The exceptions of \<open>StageException.py\<close> and the built-in ones the runtime raises, as
  values. Exception objects that user code raises are references of type \<open>'e\<close>: the
  runtime only stores them, compares them with \<open>is\<close> and raises them again
  (\<open>Raised\<close>). Messages are kept only where code reads them; the report of the collector is text.
\<close>

datatype 'e exc =
    StageClosedError
  | StageLifecycleError
  | StageBackpressureError (bp_max_pending: int)
  | StageIdleTimeoutError (it_timeout: clock) (it_origins: "string list")
  | StageSettlementError (se_errors: "'e list")
  | TunnelClosedError
  | TunnelLagError (expected_sequence: int) (available_from: int) (missed_count: int)
  | TimeoutError (to_origins: "string list")
  | RuntimeError
  | ValueError
  | TypeError
  | KeyError
  | RecursionError
  | StopIteration
  | StopAsyncIteration
  | CancelledError
  | Raised 'e

text \<open>\<open>TunnelLagError.__init__\<close> derives the number of missed items.\<close>

definition tunnel_lag_error :: "int \<Rightarrow> int \<Rightarrow> 'e exc" where
  "tunnel_lag_error expected available = TunnelLagError expected available (available - expected)"

section \<open>The compatibility collector StageException\<close>

text \<open>The \<open>context\<close> of a record: a dictionary of diagnostics (keys and values as \<open>str\<close> gives them), a
  traceback (the lines \<open>traceback.format_exception\<close> gives), or any other object (its \<open>str\<close>).\<close>

datatype error_context = Ctx_dict "(string \<times> string) list" | Ctx_traceback "string list" | Ctx_other string

record 'e exception_record =
  er_message :: string
  er_exception :: 'e
  er_context :: error_context

record 'e stage_exception =
  se_raised :: bool
  se_exceptions :: "'e exception_record list"

definition stage_exception_init :: "'e stage_exception" where
  "stage_exception_init = \<lparr>se_raised = False, se_exceptions = []\<rparr>"

text \<open>\<open>str(exception)\<close> is user code: the parameter \<open>str_of\<close>.\<close>

definition add_exception ::
  "('e \<Rightarrow> string) \<Rightarrow> 'e \<Rightarrow> error_context \<Rightarrow> 'e stage_exception \<Rightarrow> 'e stage_exception" where
  "add_exception str_of e ctx c = c\<lparr>se_exceptions := se_exceptions c @
     [\<lparr>er_message = str_of e, er_exception = e, er_context = ctx\<rparr>]\<rparr>"

definition mark_raised :: "'e stage_exception \<Rightarrow> 'e stage_exception" where
  "mark_raised c = c\<lparr>se_raised := True\<rparr>"

definition has_exceptions :: "'e stage_exception \<Rightarrow> bool" where
  "has_exceptions c \<longleftrightarrow> se_exceptions c \<noteq> [] \<and> \<not> se_raised c"

definition get_exceptions :: "'e stage_exception \<Rightarrow> 'e exception_record list" where
  "get_exceptions c = se_exceptions c"

text \<open>\<open>__str__\<close>: decimal numbers, the section of one record, and the whole report.\<close>

fun decimal :: "nat \<Rightarrow> string" where
  "decimal n = (if n < 10 then [char_of (48 + n)] else decimal (n div 10) @ [char_of (48 + n mod 10)])"

declare decimal.simps [simp del]

definition newline :: string where
  "newline = [CHR 0x0A]"

fun join_lines :: "string \<Rightarrow> string list \<Rightarrow> string" where
  "join_lines sep [] = []"
| "join_lines sep [l] = l"
| "join_lines sep (l # ls) = l @ sep @ join_lines sep ls"

fun render_context :: "error_context \<Rightarrow> string" where
  "render_context (Ctx_dict kvs) = concat (map (\<lambda>(k, v). ''   - '' @ k @ '': '' @ v @ newline) kvs)"
| "render_context (Ctx_traceback ls) = join_lines (newline @ ''   '') ls"
| "render_context (Ctx_other t) = ''   '' @ t @ newline"

text \<open>The cross mark is kept as the three bytes of its UTF-8 encoding.\<close>

fun render_records :: "nat \<Rightarrow> 'e exception_record list \<Rightarrow> string" where
  "render_records index [] = []"
| "render_records index (r # rs) =
     [CHR 0xE2, CHR 0x9D, CHR 0x8C] @ '' [Exception '' @ decimal (index + 1) @ '']'' @ newline @ newline
     @ render_context (er_context r) @ newline @ render_records (Suc index) rs"

definition stage_exception_str :: "'e stage_exception \<Rightarrow> string" where
  "stage_exception_str c =
     (if se_exceptions c = [] then ''[Agently Stage] No exception captured.''
      else newline @ ''------------------'' @ newline @ ''[Agently Stage] Captured exceptions:'' @ newline @ newline
        @ ''Exception Count: '' @ decimal (length (se_exceptions c)) @ newline @ newline
        @ ''Exception List:'' @ newline @ newline
        @ render_records 0 (se_exceptions c)
        @ ''------------------'' @ newline @ ''Use <StageException>.get_exceptions() to get exception list.'')"

lemmas collector_defs = stage_exception_init_def add_exception_def mark_raised_def
  has_exceptions_def get_exceptions_def

lemma collector_keeps_order:
  "map er_exception (get_exceptions (fold (\<lambda>(e, ctx). add_exception str_of e ctx) es c)) =
   map er_exception (get_exceptions c) @ map fst es"
  by (induction es arbitrary: c) (auto simp: collector_defs)

text \<open>The numbers of the report read back as what they count.\<close>

definition decimal_value :: "string \<Rightarrow> nat" where
  "decimal_value = foldl (\<lambda>a c. 10 * a + (of_char c - 48)) 0"

lemma decimal_round_trip: "decimal_value (decimal n) = n"
proof (induction n rule: decimal.induct)
  case (1 n)
  have d: "of_char (char_of (48 + k) :: char) - 48 = k" if "k < 10" for k :: nat
    using that by (simp add: of_char_of)
  show ?case
  proof (cases "n < 10")
    case True
    then show ?thesis by (subst decimal.simps) (simp add: decimal_value_def d)
  next
    case False
    with 1 have "foldl (\<lambda>a c. 10 * a + (of_char c - 48)) 0 (decimal (n div 10)) = n div 10"
      by (simp add: decimal_value_def)
    with False show ?thesis by (subst decimal.simps) (simp add: decimal_value_def d)
  qed
qed

text \<open>Every collected exception has its own section, in the order of collection, under its number.\<close>

lemma render_records_sections:
  "k < length rs \<Longrightarrow> \<exists>us vs. render_records i rs = us @ '' [Exception '' @ decimal (i + k + 1) @ '']'' @ newline @ newline
     @ render_context (er_context (rs ! k)) @ newline @ vs"
proof (induction rs arbitrary: i k)
  case (Cons r rs)
  show ?case
  proof (cases k)
    case 0
    then show ?thesis by (intro exI [of _ "[CHR 0xE2, CHR 0x9D, CHR 0x8C]"] exI [of _ "render_records (Suc i) rs"]) simp
  next
    case (Suc j)
    with Cons.prems Cons.IH [of j "Suc i"] obtain us vs where
      r: "render_records (Suc i) rs = us @ '' [Exception '' @ decimal (i + k + 1) @ '']'' @ newline @ newline
        @ render_context (er_context ((r # rs) ! k)) @ newline @ vs" by auto
    have "render_records i (r # rs) = ([CHR 0xE2, CHR 0x9D, CHR 0x8C] @ '' [Exception '' @ decimal (i + 1) @ '']'' @ newline
        @ newline @ render_context (er_context r) @ newline @ us) @ '' [Exception '' @ decimal (i + k + 1) @ '']'' @ newline
        @ newline @ render_context (er_context ((r # rs) ! k)) @ newline @ vs"
      by (simp add: r)
    then show ?thesis by blast
  qed
qed simp

end
