(* ===== verification/Tunnel_Model.thy ===== *)
theory Tunnel_Model
  imports Stage_Errors
begin

text \<open>
  \<open>Tunnel.py\<close>: the replayable channel and its subscriptions. Every method body runs
  under \<open>self._condition\<close>, so each is one atomic function on the record below. The
  set \<open>_async_waiters\<close> is a list whose order stands for the set's iteration order.
  Whether an event loop is closed (\<open>call_soon_threadsafe\<close> then raises
  \<open>RuntimeError\<close>) is the parameter \<open>lc\<close>; the callbacks a wake-up schedules are
  returned in the order in which they are scheduled.
\<close>

section \<open>State\<close>

record async_waiter =
  w_loop :: loop_ref
  w_future :: future_ref

record ('a, 'e) tunnel =
  tun_items :: "'a list"
  tun_wake_mode :: string
  tun_base_sequence :: int
  tun_next_sequence :: int
  tun_closed :: bool
  tun_failure :: "'e option"
  tun_async_waiters :: "async_waiter list"
  tun_timeout :: "clock option"
  tun_max_history :: "int option"
  tun_wait_interval :: clock
  tun_timeout_after_start :: bool

record subscription =
  sub_timeout :: "clock option"
  sub_cursor :: int
  sub_terminated :: bool

definition tunnel_init ::
  "clock \<Rightarrow> clock option \<Rightarrow> bool \<Rightarrow> int option \<Rightarrow> string \<Rightarrow> 'e exc + ('a, 'e) tunnel" where
  "tunnel_init wait_interval timeout timeout_after_start max_history wake_mode =
     (if (case max_history of None \<Rightarrow> False | Some m \<Rightarrow> m \<le> 0) then Inl ValueError
      else if wake_mode \<noteq> ''individual'' \<and> wake_mode \<noteq> ''grouped'' then Inl ValueError
      else Inr \<lparr>tun_items = [], tun_wake_mode = wake_mode, tun_base_sequence = 0,
        tun_next_sequence = 0, tun_closed = False, tun_failure = None,
        tun_async_waiters = [], tun_timeout = timeout, tun_max_history = max_history,
        tun_wait_interval = wait_interval, tun_timeout_after_start = timeout_after_start\<rparr>)"

section \<open>Waking readers\<close>

datatype wake_callback =
    Resolve_Waiter loop_ref future_ref
  | Resolve_Group loop_ref "future_ref list"

text \<open>\<open>groups.setdefault(waiter.loop, []).append(waiter.future)\<close> on an ordered dict.\<close>

fun groups_add :: "(loop_ref \<times> future_ref list) list \<Rightarrow> async_waiter \<Rightarrow> (loop_ref \<times> future_ref list) list" where
  "groups_add [] w = [(w_loop w, [w_future w])]"
| "groups_add ((l, fs) # gs) w =
     (if l = w_loop w then (l, fs @ [w_future w]) # gs else (l, fs) # groups_add gs w)"

definition group_waiters :: "async_waiter list \<Rightarrow> (loop_ref \<times> future_ref list) list" where
  "group_waiters ws = foldl groups_add [] ws"

definition wake_waiters_locked ::
  "(loop_ref \<Rightarrow> bool) \<Rightarrow> ('a, 'e) tunnel \<Rightarrow> ('a, 'e) tunnel \<times> wake_callback list" where
  "wake_waiters_locked lc t =
     (if tun_async_waiters t = [] then (t, [])
      else let waiters = tun_async_waiters t; t' = t\<lparr>tun_async_waiters := []\<rparr> in
        if tun_wake_mode t = ''grouped''
        then (t', map (\<lambda>(l, fs). Resolve_Group l fs)
                (filter (\<lambda>(l, fs). \<not> lc l) (group_waiters waiters)))
        else (t', map (\<lambda>w. Resolve_Waiter (w_loop w) (w_future w))
                (filter (\<lambda>w. \<not> lc (w_loop w)) waiters)))"

text \<open>Futures as the set of those that are done, a predicate on references.\<close>

definition resolve_waiter :: "future_ref \<Rightarrow> (future_ref \<Rightarrow> bool) \<Rightarrow> (future_ref \<Rightarrow> bool)" where
  "resolve_waiter f done = (if \<not> done f then done(f := True) else done)"

definition resolve_group :: "future_ref list \<Rightarrow> (future_ref \<Rightarrow> bool) \<Rightarrow> (future_ref \<Rightarrow> bool)" where
  "resolve_group fs done = foldl (\<lambda>d f. if \<not> d f then d(f := True) else d) done fs"

fun run_wake_callback :: "wake_callback \<Rightarrow> (future_ref \<Rightarrow> bool) \<Rightarrow> (future_ref \<Rightarrow> bool)" where
  "run_wake_callback (Resolve_Waiter l f) done = resolve_waiter f done"
| "run_wake_callback (Resolve_Group l fs) done = resolve_group fs done"

section \<open>Producer operations\<close>

definition tun_terminal :: "('a, 'e) tunnel \<Rightarrow> bool" where
  "tun_terminal t \<longleftrightarrow> tun_closed t \<or> tun_failure t \<noteq> None"

definition append_item :: "'a \<Rightarrow> ('a, 'e) tunnel \<Rightarrow> ('a, 'e) tunnel" where
  "append_item data t =
     (let t1 = t\<lparr>tun_items := tun_items t @ [data], tun_next_sequence := tun_next_sequence t + 1\<rparr>
      in case tun_max_history t1 of
           None \<Rightarrow> t1
         | Some m \<Rightarrow>
             (if int (length (tun_items t1)) > m
              then t1\<lparr>tun_items := tl (tun_items t1), tun_base_sequence := tun_base_sequence t1 + 1\<rparr>
              else t1))"

definition put ::
  "(loop_ref \<Rightarrow> bool) \<Rightarrow> 'a \<Rightarrow> ('a, 'e) tunnel \<Rightarrow> 'e exc + (('a, 'e) tunnel \<times> wake_callback list)" where
  "put lc data t =
     (if tun_closed t \<or> tun_failure t \<noteq> None then Inl TunnelClosedError
      else Inr (wake_waiters_locked lc (append_item data t)))"

definition tunnel_close ::
  "(loop_ref \<Rightarrow> bool) \<Rightarrow> ('a, 'e) tunnel \<Rightarrow> ('a, 'e) tunnel \<times> wake_callback list" where
  "tunnel_close lc t =
     (if tun_closed t \<or> tun_failure t \<noteq> None then (t, [])
      else wake_waiters_locked lc (t\<lparr>tun_closed := True\<rparr>))"

definition tunnel_fail ::
  "(loop_ref \<Rightarrow> bool) \<Rightarrow> 'e \<Rightarrow> ('a, 'e) tunnel \<Rightarrow> ('a, 'e) tunnel \<times> wake_callback list" where
  "tunnel_fail lc e t =
     (if tun_closed t \<or> tun_failure t \<noteq> None then (t, [])
      else wake_waiters_locked lc (t\<lparr>tun_failure := Some e\<rparr>))"

definition put_stop ::
  "(loop_ref \<Rightarrow> bool) \<Rightarrow> ('a, 'e) tunnel \<Rightarrow> ('a, 'e) tunnel \<times> wake_callback list" where
  "put_stop lc t = tunnel_close lc t"

definition retained_range :: "('a, 'e) tunnel \<Rightarrow> int \<times> int" where
  "retained_range t = (tun_base_sequence t, tun_next_sequence t)"

definition retained_items_reference :: "('a, 'e) tunnel \<Rightarrow> 'e exc + 'a list" where
  "retained_items_reference t = (if \<not> tun_closed t then Inl RuntimeError else Inr (tun_items t))"

section \<open>Subscriptions\<close>

text \<open>The \<open>start\<close> argument: the two strings, an exact \<open>int\<close>, or anything else.\<close>

datatype tunnel_start = Earliest | Latest | At int | Other_start

datatype timeout_arg = Use_default_timeout | Timeout_arg "clock option"

definition effective_timeout :: "('a, 'e) tunnel \<Rightarrow> timeout_arg \<Rightarrow> clock option" where
  "effective_timeout t a =
     (case a of Use_default_timeout \<Rightarrow> tun_timeout t | Timeout_arg x \<Rightarrow> x)"

fun subscribe ::
  "tunnel_start \<Rightarrow> timeout_arg \<Rightarrow> ('a, 'e) tunnel \<Rightarrow> 'e exc + subscription" where
  "subscribe Earliest a t =
     Inr \<lparr>sub_timeout = effective_timeout t a, sub_cursor = tun_base_sequence t, sub_terminated = False\<rparr>"
| "subscribe Latest a t =
     Inr \<lparr>sub_timeout = effective_timeout t a, sub_cursor = tun_next_sequence t, sub_terminated = False\<rparr>"
| "subscribe (At start) a t =
     (if start < 0 then Inl ValueError
      else if start > tun_next_sequence t then Inl ValueError
      else Inr \<lparr>sub_timeout = effective_timeout t a, sub_cursor = start, sub_terminated = False\<rparr>)"
| "subscribe Other_start a t = Inl ValueError"

text \<open>
  One pass over the lock-held part that \<open>__next__\<close> and \<open>__anext__\<close> share; they differ in
  the exception that ends the iteration.
\<close>

datatype ('a, 'e) pass = Item 'a | Raises "'e exc" | Must_wait

definition read_pass ::
  "'e exc \<Rightarrow> ('a, 'e) tunnel \<Rightarrow> subscription \<Rightarrow> ('a, 'e) pass \<times> subscription" where
  "read_pass stop t s =
     (if sub_terminated s then (Raises stop, s)
      else if sub_cursor s < tun_base_sequence t
      then (Raises (tunnel_lag_error (sub_cursor s) (tun_base_sequence t)), s\<lparr>sub_terminated := True\<rparr>)
      else let item_offset = sub_cursor s - tun_base_sequence t in
        if item_offset < int (length (tun_items t))
        then (Item (tun_items t ! nat item_offset), s\<lparr>sub_cursor := sub_cursor s + 1\<rparr>)
        else case tun_failure t of
               Some e \<Rightarrow> (Raises (Raised e), s\<lparr>sub_terminated := True\<rparr>)
             | None \<Rightarrow>
                 (if tun_closed t then (Raises stop, s\<lparr>sub_terminated := True\<rparr>)
                  else (Must_wait, s)))"

text \<open>
  One iteration of the loop of \<open>__next__\<close> at clock reading \<open>now\<close>, and the loop over the
  states the reader observes each time it holds the condition (\<open>None\<close>: still waiting).
\<close>

definition next_iteration ::
  "clock option \<Rightarrow> clock \<Rightarrow> ('a, 'e) tunnel \<Rightarrow> subscription \<Rightarrow> ('a, 'e) pass \<times> subscription" where
  "next_iteration deadline now t s =
     (case read_pass StopIteration t s of
        (Must_wait, s') \<Rightarrow>
          (case deadline of
             None \<Rightarrow> (Must_wait, s')
           | Some d \<Rightarrow> (if d - now \<le> 0 then (Raises StopIteration, s'\<lparr>sub_terminated := True\<rparr>)
                        else (Must_wait, s')))
      | (r, s') \<Rightarrow> (r, s'))"

fun next_loop ::
  "clock option \<Rightarrow> (clock \<times> ('a, 'e) tunnel) list \<Rightarrow> subscription \<Rightarrow> ('a, 'e) pass option \<times> subscription" where
  "next_loop deadline [] s = (None, s)"
| "next_loop deadline ((now, t) # obs) s =
     (case next_iteration deadline now t s of
        (Must_wait, s') \<Rightarrow> next_loop deadline obs s'
      | (r, s') \<Rightarrow> (Some r, s'))"

definition sub_next ::
  "clock \<Rightarrow> (clock \<times> ('a, 'e) tunnel) list \<Rightarrow> subscription \<Rightarrow> ('a, 'e) pass option \<times> subscription" where
  "sub_next now obs s = next_loop (map_option (\<lambda>d. now + d) (sub_timeout s)) obs s"

definition sub_close ::
  "(loop_ref \<Rightarrow> bool) \<Rightarrow> ('a, 'e) tunnel \<Rightarrow> subscription \<Rightarrow> (('a, 'e) tunnel \<times> wake_callback list) \<times> subscription" where
  "sub_close lc t s =
     (if sub_terminated s then ((t, []), s)
      else (wake_waiters_locked lc t, s\<lparr>sub_terminated := True\<rparr>))"

text \<open>
  \<open>__anext__\<close>: the lock-held section registers a waiter for a fresh future where
  \<open>__next__\<close> waits; after the wake-up (or the timeout) the waiter is discarded.
\<close>

definition anext_enter ::
  "loop_ref \<Rightarrow> future_ref \<Rightarrow> ('a, 'e) tunnel \<Rightarrow> subscription \<Rightarrow> ('a, 'e) pass \<times> ('a, 'e) tunnel \<times> subscription" where
  "anext_enter l f t s =
     (case read_pass StopAsyncIteration t s of
        (Must_wait, s') \<Rightarrow>
          (Must_wait, t\<lparr>tun_async_waiters := List.insert \<lparr>w_loop = l, w_future = f\<rparr> (tun_async_waiters t)\<rparr>, s')
      | (r, s') \<Rightarrow> (r, t, s'))"

definition anext_discard :: "loop_ref \<Rightarrow> future_ref \<Rightarrow> ('a, 'e) tunnel \<Rightarrow> ('a, 'e) tunnel" where
  "anext_discard l f t =
     t\<lparr>tun_async_waiters := removeAll \<lparr>w_loop = l, w_future = f\<rparr> (tun_async_waiters t)\<rparr>"

definition anext_timeout ::
  "loop_ref \<Rightarrow> future_ref \<Rightarrow> ('a, 'e) tunnel \<Rightarrow> subscription \<Rightarrow> ('a, 'e) tunnel \<times> subscription" where
  "anext_timeout l f t s = (anext_discard l f t, s\<lparr>sub_terminated := True\<rparr>)"

text \<open>
  \<open>list(subscription)\<close> while no producer acts: an open tunnel makes the reader wait,
  which ends the iteration at its timeout and never ends without one (\<open>None\<close>).
\<close>

function read_all :: "('a, 'e) tunnel \<Rightarrow> subscription \<Rightarrow> ('e exc + 'a list) option" where
  "read_all t s =
     (case read_pass StopIteration t s of
        (Item x, s') \<Rightarrow> map_option (map_sum id ((#) x)) (read_all t s')
      | (Raises StopIteration, s') \<Rightarrow> Some (Inr [])
      | (Raises e, s') \<Rightarrow> Some (Inl e)
      | (Must_wait, s') \<Rightarrow> (if sub_timeout s' = None then None else Some (Inr [])))"
  by pat_completeness auto
termination
  by (relation "measure (\<lambda>(t, s). nat (int (length (tun_items t)) + tun_base_sequence t - sub_cursor s))")
     (auto simp: read_pass_def Let_def split: if_splits option.splits)

declare read_all.simps [simp del]

definition tunnel_get :: "timeout_arg \<Rightarrow> ('a, 'e) tunnel \<Rightarrow> ('e exc + 'a list) option" where
  "tunnel_get a t =
     (case subscribe Earliest (Timeout_arg (effective_timeout t a)) t of
        Inl e \<Rightarrow> Some (Inl e) | Inr s \<Rightarrow> read_all t s)"

definition tunnel_iter :: "('a, 'e) tunnel \<Rightarrow> 'e exc + subscription" where
  "tunnel_iter t = subscribe Earliest (Timeout_arg (tun_timeout t)) t"

lemmas [tunnel_defs] = tunnel_init_def wake_waiters_locked_def append_item_def put_def
  tunnel_close_def tunnel_fail_def put_stop_def sub_close_def anext_enter_def
  anext_discard_def anext_timeout_def

end
