(* ===== verification/Tunnel_Facts.thy ===== *)
theory Tunnel_Facts
  imports Tunnel_Model
begin

text \<open>
  Correctness of the channel: its well-formedness invariant, its refinement to an
  append-only log with a retention window, the view of one subscriber in an arbitrary
  interleaving, replay, and the equivalence of the two wake modes.
\<close>

section \<open>Well-formed tunnels\<close>

definition tunnel_ok :: "('a, 'e) tunnel \<Rightarrow> bool" where
  "tunnel_ok t \<longleftrightarrow> 0 \<le> tun_base_sequence t
     \<and> tun_next_sequence t = tun_base_sequence t + int (length (tun_items t))
     \<and> (case tun_max_history t of
          None \<Rightarrow> tun_base_sequence t = 0
        | Some m \<Rightarrow> 0 < m \<and> int (length (tun_items t)) \<le> m)"

lemma wake_waiters_frame [simp]:
  "tun_items (fst (wake_waiters_locked lc t)) = tun_items t"
  "tun_base_sequence (fst (wake_waiters_locked lc t)) = tun_base_sequence t"
  "tun_next_sequence (fst (wake_waiters_locked lc t)) = tun_next_sequence t"
  "tun_closed (fst (wake_waiters_locked lc t)) = tun_closed t"
  "tun_failure (fst (wake_waiters_locked lc t)) = tun_failure t"
  "tun_max_history (fst (wake_waiters_locked lc t)) = tun_max_history t"
  "tun_timeout (fst (wake_waiters_locked lc t)) = tun_timeout t"
  "tun_wake_mode (fst (wake_waiters_locked lc t)) = tun_wake_mode t"
  "tun_async_waiters (fst (wake_waiters_locked lc t)) = []"
  by (auto simp: wake_waiters_locked_def Let_def)

lemma append_item_frame [simp]:
  "tun_next_sequence (append_item x t) = tun_next_sequence t + 1"
  "tun_closed (append_item x t) = tun_closed t"
  "tun_failure (append_item x t) = tun_failure t"
  "tun_max_history (append_item x t) = tun_max_history t"
  "tun_async_waiters (append_item x t) = tun_async_waiters t"
  "tun_wake_mode (append_item x t) = tun_wake_mode t"
  by (auto simp: append_item_def Let_def split: option.splits)

lemma tunnel_ok_wake [simp]: "tunnel_ok (fst (wake_waiters_locked lc t)) = tunnel_ok t"
  by (simp add: tunnel_ok_def split: option.splits)

lemma tunnel_ok_append: "tunnel_ok t \<Longrightarrow> tunnel_ok (append_item x t)"
  by (auto simp: tunnel_ok_def append_item_def Let_def split: option.splits if_splits)

lemma tunnel_ok_update [simp]:
  "tunnel_ok (t\<lparr>tun_closed := b\<rparr>) = tunnel_ok t"
  "tunnel_ok (t\<lparr>tun_failure := f\<rparr>) = tunnel_ok t"
  "tunnel_ok (t\<lparr>tun_async_waiters := ws\<rparr>) = tunnel_ok t"
  by (simp_all add: tunnel_ok_def split: option.splits)

lemma tunnel_ok_init: "tunnel_init wi to tas mh wm = Inr t \<Longrightarrow> tunnel_ok t"
  by (auto simp: tunnel_init_def tunnel_ok_def split: if_splits option.splits)

lemma put_Inr_iff:
  "put lc x t = Inr r \<longleftrightarrow> \<not> tun_terminal t \<and> r = wake_waiters_locked lc (append_item x t)"
  by (auto simp: put_def tun_terminal_def)

lemma tunnel_ok_put: "tunnel_ok t \<Longrightarrow> put lc x t = Inr r \<Longrightarrow> tunnel_ok (fst r)"
  by (auto simp: put_Inr_iff tunnel_ok_append)

lemma tunnel_ok_close: "tunnel_ok t \<Longrightarrow> tunnel_ok (fst (tunnel_close lc t))"
  by (simp add: tunnel_close_def)

lemma tunnel_ok_fail: "tunnel_ok t \<Longrightarrow> tunnel_ok (fst (tunnel_fail lc e t))"
  by (simp add: tunnel_fail_def)

section \<open>The abstract log\<close>

text \<open>
  The specification of a tunnel: every item ever accepted, the first retained position and
  the way the log ended. A reader is a position in it.
\<close>

datatype 'e ending = Still_open | Eof | Broken 'e

record ('a, 'e) log =
  log_entries :: "'a list"
  log_from :: nat
  log_ending :: "'e ending"

definition ending_of :: "('a, 'e) tunnel \<Rightarrow> 'e ending" where
  "ending_of t = (case tun_failure t of
     Some e \<Rightarrow> Broken e | None \<Rightarrow> if tun_closed t then Eof else Still_open)"

definition represents :: "('a, 'e) log \<Rightarrow> ('a, 'e) tunnel \<Rightarrow> bool" where
  "represents L t \<longleftrightarrow> log_from L \<le> length (log_entries L)
     \<and> tun_base_sequence t = int (log_from L)
     \<and> tun_next_sequence t = int (length (log_entries L))
     \<and> tun_items t = drop (log_from L) (log_entries L)
     \<and> log_ending L = ending_of t"

definition log_put :: "int option \<Rightarrow> 'a \<Rightarrow> ('a, 'e) log \<Rightarrow> ('a, 'e) log" where
  "log_put mh x L = L\<lparr>log_entries := log_entries L @ [x],
     log_from := (case mh of None \<Rightarrow> log_from L
                  | Some m \<Rightarrow> if int (Suc (length (log_entries L)) - log_from L) > m
                              then Suc (log_from L) else log_from L)\<rparr>"

definition log_read :: "'e exc \<Rightarrow> ('a, 'e) log \<Rightarrow> nat \<Rightarrow> ('a, 'e) pass" where
  "log_read stop L c =
     (if c < log_from L then Raises (TunnelLagError (int c) (int (log_from L)) (int (log_from L) - int c))
      else if c < length (log_entries L) then Item (log_entries L ! c)
      else case log_ending L of Still_open \<Rightarrow> Must_wait | Eof \<Rightarrow> Raises stop | Broken e \<Rightarrow> Raises (Raised e))"

lemma represents_wake [simp]: "represents L (fst (wake_waiters_locked lc t)) = represents L t"
  by (simp add: represents_def ending_of_def)

lemma represents_append:
  assumes "represents L t"
  shows "represents (log_put (tun_max_history t) x L) (append_item x t)"
proof -
  have len: "length (tun_items t) = length (log_entries L) - log_from L"
    using assms by (simp add: represents_def)
  show ?thesis
    using assms len
    by (auto simp: represents_def append_item_def log_put_def ending_of_def Let_def tl_drop_snoc
             split: option.splits)
qed

lemma log_read_refines:
  assumes "represents L t" "sub_cursor s = int c" "\<not> sub_terminated s"
  shows "fst (read_pass stop t s) = log_read stop L c"
proof (cases "c < log_from L")
  case True
  with assms show ?thesis
    by (simp add: represents_def read_pass_def log_read_def tunnel_lag_error_def)
next
  case False
  then have idx: "log_from L + nat (int c - int (log_from L)) = c" by simp
  from False assms show ?thesis
    by (auto simp: idx represents_def read_pass_def log_read_def ending_of_def Let_def
             split: option.splits)
qed

lemma represents_put:
  "represents L t \<Longrightarrow> put lc x t = Inr r \<Longrightarrow> represents (log_put (tun_max_history t) x L) (fst r)"
  by (auto simp: put_Inr_iff represents_append)

lemma represents_close:
  "represents L t \<Longrightarrow> \<not> tun_terminal t \<Longrightarrow> represents (L\<lparr>log_ending := Eof\<rparr>) (fst (tunnel_close lc t))"
  by (auto simp: tunnel_close_def tun_terminal_def represents_def ending_of_def)

lemma represents_fail:
  "represents L t \<Longrightarrow> \<not> tun_terminal t \<Longrightarrow> represents (L\<lparr>log_ending := Broken e\<rparr>) (fst (tunnel_fail lc e t))"
  by (auto simp: tunnel_fail_def tun_terminal_def represents_def ending_of_def)

lemma represents_init:
  "tunnel_init wi to tas mh wm = Inr t \<Longrightarrow>
   represents \<lparr>log_entries = [], log_from = 0, log_ending = Still_open\<rparr> t"
  by (auto simp: tunnel_init_def represents_def ending_of_def split: if_splits option.splits)

section \<open>One subscriber in an interleaving of producers and reads\<close>

datatype ('a, 'e) tunnel_event = Ev_put 'a | Ev_close | Ev_fail 'e | Ev_read

text \<open>
  The run returns the final tunnel and subscription, the items the subscriber received
  and the items the tunnel accepted, each in order.
\<close>

fun tunnel_run ::
  "(loop_ref \<Rightarrow> bool) \<Rightarrow> ('a, 'e) tunnel_event list \<Rightarrow> ('a, 'e) tunnel \<Rightarrow> subscription
   \<Rightarrow> ('a, 'e) tunnel \<times> subscription \<times> 'a list \<times> 'a list" where
  "tunnel_run lc [] t s = (t, s, [], [])"
| "tunnel_run lc (Ev_put x # es) t s =
     (case put lc x t of
        Inl e \<Rightarrow> tunnel_run lc es t s
      | Inr r \<Rightarrow> (case tunnel_run lc es (fst r) s of (t', s', ys, acc) \<Rightarrow> (t', s', ys, x # acc)))"
| "tunnel_run lc (Ev_close # es) t s = tunnel_run lc es (fst (tunnel_close lc t)) s"
| "tunnel_run lc (Ev_fail e # es) t s = tunnel_run lc es (fst (tunnel_fail lc e t)) s"
| "tunnel_run lc (Ev_read # es) t s =
     (case read_pass StopIteration t s of
        (Item x, s') \<Rightarrow> (case tunnel_run lc es t s' of (t', s'', ys, acc) \<Rightarrow> (t', s'', x # ys, acc))
      | (r, s') \<Rightarrow> tunnel_run lc es t s')"

definition log_view :: "'a list \<Rightarrow> ('a, 'e) tunnel \<Rightarrow> bool" where
  "log_view h t \<longleftrightarrow> (\<exists>n \<le> length h. tun_base_sequence t = int n
     \<and> tun_next_sequence t = int (length h) \<and> tun_items t = drop n h)"

lemma represents_log_view: "represents L t \<Longrightarrow> log_view (log_entries L) t"
  by (auto simp: log_view_def represents_def)

lemma log_view_frame [simp]:
  "log_view h (fst (wake_waiters_locked lc t)) = log_view h t"
  "log_view h (t\<lparr>tun_closed := b\<rparr>) = log_view h t"
  "log_view h (t\<lparr>tun_failure := f\<rparr>) = log_view h t"
  by (simp_all add: log_view_def)

lemma log_view_close [simp]: "log_view h (fst (tunnel_close lc t)) = log_view h t"
  by (simp add: tunnel_close_def)

lemma log_view_fail [simp]: "log_view h (fst (tunnel_fail lc e t)) = log_view h t"
  by (simp add: tunnel_fail_def)

lemma log_view_append:
  assumes "log_view h t"
  shows "log_view (h @ [x]) (append_item x t)"
proof -
  from assms obtain n where n: "n \<le> length h" "tun_base_sequence t = int n"
    "tun_next_sequence t = int (length h)" "tun_items t = drop n h" by (auto simp: log_view_def)
  have "tun_items (append_item x t) = drop n (h @ [x]) \<and> tun_base_sequence (append_item x t) = int n
     \<or> tun_items (append_item x t) = drop (Suc n) (h @ [x]) \<and> tun_base_sequence (append_item x t) = int (Suc n)"
    using n by (auto simp: append_item_def Let_def tl_drop_snoc split: option.splits)
  then obtain k where "k \<le> length (h @ [x])" "tun_items (append_item x t) = drop k (h @ [x])"
    "tun_base_sequence (append_item x t) = int k"
    using n by (elim disjE conjE) force+
  then show ?thesis
    using n by (auto simp: log_view_def simp del: drop_append)
qed

lemma log_view_put: "log_view h t \<Longrightarrow> put lc x t = Inr r \<Longrightarrow> log_view (h @ [x]) (fst r)"
  by (auto simp: put_Inr_iff log_view_append)

text \<open>What one pass yields is the log entry at the cursor, and the cursor advances by one.\<close>

lemma read_pass_Item:
  assumes "log_view h t" "read_pass stop t s = (Item x, s')"
  shows "0 \<le> sub_cursor s" "nat (sub_cursor s) < length h" "x = h ! nat (sub_cursor s)"
    "sub_cursor s' = sub_cursor s + 1" "sub_terminated s' = sub_terminated s"
proof -
  from assms(1) obtain n where n: "n \<le> length h" "tun_base_sequence t = int n"
    "tun_items t = drop n h" by (auto simp: log_view_def)
  from assms(2) n have c: "int n \<le> sub_cursor s" "nat (sub_cursor s - int n) < length h - n"
    "x = drop n h ! nat (sub_cursor s - int n)" "s' = s\<lparr>sub_cursor := sub_cursor s + 1\<rparr>"
    by (auto simp: read_pass_def Let_def split: if_splits option.splits)
  have "n + nat (sub_cursor s - int n) = nat (sub_cursor s)" using c(1) by simp
  with c n show "0 \<le> sub_cursor s" "nat (sub_cursor s) < length h" "x = h ! nat (sub_cursor s)"
    "sub_cursor s' = sub_cursor s + 1" "sub_terminated s' = sub_terminated s"
    by auto
qed

lemma read_pass_other_cursor:
  "read_pass stop t s = (r, s') \<Longrightarrow> (\<And>x. r \<noteq> Item x) \<Longrightarrow> sub_cursor s' = sub_cursor s"
  by (auto simp: read_pass_def Let_def split: if_splits option.splits)

lemma tunnel_run_slice:
  assumes "log_view h t" "tunnel_run lc es t s = (t', s', ys, acc)" "0 \<le> sub_cursor s"
  shows "log_view (h @ acc) t' \<and> sub_cursor s' = sub_cursor s + int (length ys)
     \<and> ys = take (length ys) (drop (nat (sub_cursor s)) (h @ acc))"
  using assms
proof (induction lc es t s arbitrary: h ys acc rule: tunnel_run.induct)
  case (2 lc x es t s)
  show ?case
  proof (cases "put lc x t")
    case (Inl e)
    with 2 show ?thesis by simp
  next
    case (Inr r)
    with 2(4) obtain acc' where acc: "acc = x # acc'" "tunnel_run lc es (fst r) s = (t', s', ys, acc')"
      by (auto split: prod.splits)
    from 2(2)[OF Inr log_view_put [OF 2(3) Inr] acc(2) 2(5)] acc(1) show ?thesis by simp
  qed
next
  case (5 lc es t s)
  obtain r s1 where rp: "read_pass StopIteration t s = (r, s1)" by fastforce
  show ?case
  proof (cases r)
    case (Item x)
    note it = read_pass_Item [OF 5(4), of StopIteration s x s1]
    from 5(5) rp Item obtain ys' where ys: "ys = x # ys'" "tunnel_run lc es t s1 = (t', s', ys', acc)"
      by (auto split: prod.splits)
    have IH: "log_view (h @ acc) t' \<and> sub_cursor s' = sub_cursor s1 + int (length ys')
      \<and> ys' = take (length ys') (drop (nat (sub_cursor s1)) (h @ acc))"
      using 5(1) [OF rp [symmetric] Item 5(4) ys(2)] it rp Item by simp
    have nx: "nat (sub_cursor s1) = Suc (nat (sub_cursor s))" and lt: "nat (sub_cursor s) < length (h @ acc)"
      and x: "x = (h @ acc) ! nat (sub_cursor s)"
      using it rp Item by auto
    have "drop (nat (sub_cursor s)) (h @ acc) = x # drop (Suc (nat (sub_cursor s))) (h @ acc)"
      using x lt by (simp only: Cons_nth_drop_Suc)
    with IH ys(1) nx it rp Item show ?thesis by simp
  next
    case (Raises e)
    with 5 rp read_pass_other_cursor [OF rp] show ?thesis by simp
  next
    case Must_wait
    with 5 rp read_pass_other_cursor [OF rp] show ?thesis by simp
  qed
qed simp_all

section \<open>Replay\<close>

lemma read_all_items:
  assumes "tun_base_sequence t \<le> sub_cursor s" "\<not> sub_terminated s"
  shows "read_all t s =
    (let rest = drop (nat (sub_cursor s - tun_base_sequence t)) (tun_items t) in
     case tun_failure t of
       Some e \<Rightarrow> Some (Inl (Raised e))
     | None \<Rightarrow> if tun_closed t \<or> sub_timeout s \<noteq> None then Some (Inr rest) else None)"
  using assms
proof (induction t s rule: read_all.induct)
  case (1 t s)
  show ?case
  proof (cases "sub_cursor s - tun_base_sequence t < int (length (tun_items t))")
    case True
    let ?k = "nat (sub_cursor s - tun_base_sequence t)"
    have rp: "read_pass StopIteration t s = (Item (tun_items t ! ?k), s\<lparr>sub_cursor := sub_cursor s + 1\<rparr>)"
      using True "1.prems" by (simp add: read_pass_def)
    have d: "drop ?k (tun_items t) = tun_items t ! ?k # drop (nat (sub_cursor s + 1 - tun_base_sequence t)) (tun_items t)"
      using True "1.prems" Cons_nth_drop_Suc [of ?k "tun_items t"]
      by (simp add: Suc_nat_eq_nat_zadd1 algebra_simps)
    show ?thesis
      using "1.IH" [OF rp [symmetric] refl] "1.prems"
      by (subst read_all.simps) (auto simp: rp d Let_def split: option.splits)
  next
    case False
    then show ?thesis
      using "1.prems" by (subst read_all.simps) (auto simp: read_pass_def Let_def split: option.splits)
  qed
qed

section \<open>The two wake modes\<close>

lemma resolve_waiter_eq: "resolve_waiter f d = (\<lambda>g. d g \<or> g = f)"
  by (auto simp: resolve_waiter_def)

lemma resolve_group_eq: "resolve_group fs d = (\<lambda>g. d g \<or> g \<in> set fs)"
proof (induction fs arbitrary: d)
  case (Cons f fs)
  have "resolve_group (f # fs) d = resolve_group fs (resolve_waiter f d)"
    by (simp add: resolve_group_def resolve_waiter_def)
  with Cons show ?case by (auto simp: resolve_waiter_eq)
qed (simp add: resolve_group_def)

fun callback_futures :: "wake_callback \<Rightarrow> future_ref list" where
  "callback_futures (Resolve_Waiter l f) = [f]"
| "callback_futures (Resolve_Group l fs) = fs"

lemma run_wake_callback_eq: "run_wake_callback c d = (\<lambda>g. d g \<or> g \<in> set (callback_futures c))"
  by (cases c) (auto simp: resolve_waiter_eq resolve_group_eq)

lemma fold_run_wake_callback:
  "fold run_wake_callback cs d = (\<lambda>g. d g \<or> (\<exists>c\<in>set cs. g \<in> set (callback_futures c)))"
  by (induction cs arbitrary: d) (auto simp: run_wake_callback_eq)

lemma groups_add_mem:
  "distinct (map fst gs) \<Longrightarrow> (\<exists>fs. (l, fs) \<in> set (groups_add gs w) \<and> f \<in> set fs) \<longleftrightarrow>
   (\<exists>fs. (l, fs) \<in> set gs \<and> f \<in> set fs) \<or> (w_loop w = l \<and> w_future w = f)"
  by (induction gs w rule: groups_add.induct) auto

lemma groups_add_keys: "set (map fst (groups_add gs w)) = insert (w_loop w) (set (map fst gs))"
  by (induction gs w rule: groups_add.induct) auto

lemma groups_add_distinct: "distinct (map fst gs) \<Longrightarrow> distinct (map fst (groups_add gs w))"
proof (induction gs w rule: groups_add.induct)
  case (2 l fs gs w)
  then show ?case using groups_add_keys [of gs w] by auto
qed simp

lemma group_waiters_props:
  "distinct (map fst (group_waiters ws))
   \<and> set (map fst (group_waiters ws)) = w_loop ` set ws
   \<and> (\<forall>l f. (\<exists>fs. (l, fs) \<in> set (group_waiters ws) \<and> f \<in> set fs) \<longleftrightarrow>
            (\<exists>w\<in>set ws. w_loop w = l \<and> w_future w = f))"
proof (induction ws rule: rev_induct)
  case (snoc w ws)
  then show ?case
    using groups_add_distinct [of "group_waiters ws" w] groups_add_keys [of "group_waiters ws" w]
      groups_add_mem [of "group_waiters ws" _ w]
    by (auto simp: group_waiters_def)
qed (simp add: group_waiters_def)

lemma wake_resolves:
  "fold run_wake_callback (snd (wake_waiters_locked lc t)) d =
   (\<lambda>f. d f \<or> (\<exists>w\<in>set (tun_async_waiters t). w_future w = f \<and> \<not> lc (w_loop w)))"
proof -
  have mem: "(\<exists>fs. (l, fs) \<in> set (group_waiters ws) \<and> f \<in> set fs) \<longleftrightarrow>
            (\<exists>w\<in>set ws. w_loop w = l \<and> w_future w = f)" for ws l f
    using group_waiters_props by blast
  have "(\<exists>c\<in>set (snd (wake_waiters_locked lc t)). f \<in> set (callback_futures c)) \<longleftrightarrow>
     (\<exists>w\<in>set (tun_async_waiters t). w_future w = f \<and> \<not> lc (w_loop w))" for f
  proof -
    have "(\<exists>c\<in>set (map (\<lambda>(l, fs). Resolve_Group l fs) (filter (\<lambda>(l, fs). \<not> lc l) gs)). f \<in> set (callback_futures c))
       \<longleftrightarrow> (\<exists>l. \<not> lc l \<and> (\<exists>fs. (l, fs) \<in> set gs \<and> f \<in> set fs))" for gs
      by force
    then show ?thesis
      by (auto simp: wake_waiters_locked_def Let_def mem)
  qed
  then show ?thesis by (simp add: fold_run_wake_callback)
qed

end
