(* ===== verification/Tunnel_Wakeup.thy ===== *)
theory Tunnel_Wakeup
  imports Tunnel_Facts
begin

text \<open>
  Any number of tasks iterating subscriptions with \<open>__anext__\<close> while producers publish.
  The atomic actions are the lock-held sections of \<open>Tunnel\<close> and \<open>TunnelSubscription\<close>,
  the callbacks that wake-ups schedule on event loops, and the closing of a loop. The
  invariant is that no wake-up is lost.
\<close>

datatype reader_pc = Running | Waiting nat loop_ref future_ref

record ('a, 'e) tunnel_system =
  ts_tunnel :: "('a, 'e) tunnel"
  ts_subs :: "nat \<Rightarrow> subscription"
  ts_pc :: "task_ref \<Rightarrow> reader_pc"
  ts_done :: "future_ref \<Rightarrow> bool"
  ts_ready :: "wake_callback list"
  ts_loop_closed :: "loop_ref \<Rightarrow> bool"
  ts_next_future :: nat

fun callback_loop :: "wake_callback \<Rightarrow> loop_ref" where
  "callback_loop (Resolve_Waiter l f) = l"
| "callback_loop (Resolve_Group l fs) = l"

definition publish :: "('a, 'e) tunnel \<times> wake_callback list \<Rightarrow> ('a, 'e) tunnel_system \<Rightarrow> ('a, 'e) tunnel_system" where
  "publish r \<sigma> = \<sigma>\<lparr>ts_tunnel := fst r, ts_ready := ts_ready \<sigma> @ snd r\<rparr>"

definition tunnel_system_start :: "('a, 'e) tunnel_system \<Rightarrow> bool" where
  "tunnel_system_start \<sigma> \<longleftrightarrow>
     (\<exists>wi to tas mh wm. tunnel_init wi to tas mh wm = (Inr (ts_tunnel \<sigma>) :: 'e exc + _))
     \<and> ts_pc \<sigma> = (\<lambda>_. Running) \<and> ts_ready \<sigma> = []"

inductive tunnel_system_step :: "('a, 'e) tunnel_system \<Rightarrow> ('a, 'e) tunnel_system \<Rightarrow> bool" where
  producer_put: "put (ts_loop_closed \<sigma>) x (ts_tunnel \<sigma>) = Inr r \<Longrightarrow> tunnel_system_step \<sigma> (publish r \<sigma>)"
| producer_close: "tunnel_system_step \<sigma> (publish (tunnel_close (ts_loop_closed \<sigma>) (ts_tunnel \<sigma>)) \<sigma>)"
| producer_fail: "tunnel_system_step \<sigma> (publish (tunnel_fail (ts_loop_closed \<sigma>) e (ts_tunnel \<sigma>)) \<sigma>)"
| reader_wait: "ts_pc \<sigma> i = Running \<Longrightarrow> \<not> ts_loop_closed \<sigma> l \<Longrightarrow>
     anext_enter l (ts_next_future \<sigma>) (ts_tunnel \<sigma>) (ts_subs \<sigma> k) = (Must_wait, t', s') \<Longrightarrow>
     tunnel_system_step \<sigma> (\<sigma>\<lparr>ts_tunnel := t', ts_subs := (ts_subs \<sigma>)(k := s'),
       ts_pc := (ts_pc \<sigma>)(i := Waiting k l (ts_next_future \<sigma>)),
       ts_done := (ts_done \<sigma>)(ts_next_future \<sigma> := False),
       ts_next_future := Suc (ts_next_future \<sigma>)\<rparr>)"
| reader_return: "ts_pc \<sigma> i = Running \<Longrightarrow>
     anext_enter l f (ts_tunnel \<sigma>) (ts_subs \<sigma> k) = (r, t', s') \<Longrightarrow> r \<noteq> Must_wait \<Longrightarrow>
     tunnel_system_step \<sigma> (\<sigma>\<lparr>ts_tunnel := t', ts_subs := (ts_subs \<sigma>)(k := s')\<rparr>)"
| callback_runs: "ts_ready \<sigma> = cs1 @ c # cs2 \<Longrightarrow> \<not> ts_loop_closed \<sigma> (callback_loop c) \<Longrightarrow>
     tunnel_system_step \<sigma> (\<sigma>\<lparr>ts_ready := cs1 @ cs2, ts_done := run_wake_callback c (ts_done \<sigma>)\<rparr>)"
| reader_resumes: "ts_pc \<sigma> i = Waiting k l f \<Longrightarrow> ts_done \<sigma> f \<Longrightarrow>
     tunnel_system_step \<sigma> (\<sigma>\<lparr>ts_tunnel := anext_discard l f (ts_tunnel \<sigma>), ts_pc := (ts_pc \<sigma>)(i := Running)\<rparr>)"
| reader_times_out: "ts_pc \<sigma> i = Waiting k l f \<Longrightarrow> sub_timeout (ts_subs \<sigma> k) \<noteq> None \<Longrightarrow>
     anext_timeout l f (ts_tunnel \<sigma>) (ts_subs \<sigma> k) = (t', s') \<Longrightarrow>
     tunnel_system_step \<sigma> (\<sigma>\<lparr>ts_tunnel := t', ts_subs := (ts_subs \<sigma>)(k := s'),
       ts_pc := (ts_pc \<sigma>)(i := Running), ts_done := (ts_done \<sigma>)(f := True)\<rparr>)"
| reader_cancelled: "ts_pc \<sigma> i = Waiting k l f \<Longrightarrow>
     tunnel_system_step \<sigma> (\<sigma>\<lparr>ts_tunnel := anext_discard l f (ts_tunnel \<sigma>), ts_pc := (ts_pc \<sigma>)(i := Running)\<rparr>)"
| reader_closes: "sub_close (ts_loop_closed \<sigma>) (ts_tunnel \<sigma>) (ts_subs \<sigma> k) = (r, s') \<Longrightarrow>
     tunnel_system_step \<sigma> (publish r (\<sigma>\<lparr>ts_subs := (ts_subs \<sigma>)(k := s')\<rparr>))"
| loop_closes: "tunnel_system_step \<sigma> (\<sigma>\<lparr>ts_loop_closed := (ts_loop_closed \<sigma>)(l := True)\<rparr>)"

inductive_cases tunnel_system_stepE: "tunnel_system_step \<sigma> \<tau>"

section \<open>The invariant\<close>

definition nothing_available :: "('a, 'e) tunnel \<Rightarrow> subscription \<Rightarrow> bool" where
  "nothing_available t s \<longleftrightarrow> read_pass StopAsyncIteration t s = (Must_wait, s)"

definition will_resolve :: "('a, 'e) tunnel_system \<Rightarrow> future_ref \<Rightarrow> bool" where
  "will_resolve \<sigma> f \<longleftrightarrow> ts_done \<sigma> f \<or> (\<exists>c\<in>set (ts_ready \<sigma>). f \<in> set (callback_futures c))"

definition parked :: "('a, 'e) tunnel_system \<Rightarrow> nat \<Rightarrow> loop_ref \<Rightarrow> future_ref \<Rightarrow> bool" where
  "parked \<sigma> k l f \<longleftrightarrow> \<lparr>w_loop = l, w_future = f\<rparr> \<in> set (tun_async_waiters (ts_tunnel \<sigma>))
     \<and> (sub_terminated (ts_subs \<sigma> k) \<or> nothing_available (ts_tunnel \<sigma>) (ts_subs \<sigma> k))"

definition wakeup_inv :: "('a, 'e) tunnel_system \<Rightarrow> bool" where
  "wakeup_inv \<sigma> \<longleftrightarrow>
     (\<forall>i k l f. ts_pc \<sigma> i = Waiting k l f \<longrightarrow>
        f < ts_next_future \<sigma> \<and> (ts_loop_closed \<sigma> l \<or> will_resolve \<sigma> f \<or> parked \<sigma> k l f))
     \<and> (\<forall>i j k l k' l' f. ts_pc \<sigma> i = Waiting k l f \<longrightarrow> ts_pc \<sigma> j = Waiting k' l' f \<longrightarrow> i = j)"

lemma read_pass_Must_wait: "read_pass stop t s = (Must_wait, s') \<Longrightarrow> s' = s"
  by (auto simp: read_pass_def Let_def split: if_splits option.splits)

lemma read_pass_waiters [simp]: "read_pass stop (t\<lparr>tun_async_waiters := ws\<rparr>) s = read_pass stop t s"
  by (simp add: read_pass_def Let_def cong: if_cong option.case_cong)

lemma nothing_available_waiters [simp]:
  "nothing_available (t\<lparr>tun_async_waiters := ws\<rparr>) s = nothing_available t s"
  by (simp add: nothing_available_def)

lemma wake_schedules:
  assumes "\<lparr>w_loop = l, w_future = f\<rparr> \<in> set (tun_async_waiters t)" "\<not> lc l"
  shows "\<exists>c\<in>set (snd (wake_waiters_locked lc t)). f \<in> set (callback_futures c)"
proof -
  have "fold run_wake_callback (snd (wake_waiters_locked lc t)) (\<lambda>_. False) f"
    using assms by (force simp: wake_resolves)
  then show ?thesis by (simp add: fold_run_wake_callback)
qed

text \<open>An action that empties the waiter set through a wake-up keeps the invariant.\<close>

lemma publish_wake_inv:
  assumes inv: "wakeup_inv \<sigma>"
    and same: "tun_async_waiters t = tun_async_waiters (ts_tunnel \<sigma>)"
  shows "wakeup_inv (publish (wake_waiters_locked (ts_loop_closed \<sigma>) t) (\<sigma>\<lparr>ts_subs := ss\<rparr>))"
proof -
  have "ts_loop_closed \<sigma> l \<or> will_resolve (publish (wake_waiters_locked (ts_loop_closed \<sigma>) t) (\<sigma>\<lparr>ts_subs := ss\<rparr>)) f"
    if "ts_pc \<sigma> i = Waiting k l f" for i k l f
  proof -
    from inv that have "ts_loop_closed \<sigma> l \<or> will_resolve \<sigma> f \<or> parked \<sigma> k l f"
      by (auto simp: wakeup_inv_def)
    then show ?thesis
      using wake_schedules [of l f t "ts_loop_closed \<sigma>"]
      by (auto simp: publish_def will_resolve_def parked_def same)
  qed
  with inv show ?thesis
    by (fastforce simp: wakeup_inv_def publish_def)
qed

lemma publish_nothing_inv: "wakeup_inv \<sigma> \<Longrightarrow> wakeup_inv (publish (ts_tunnel \<sigma>, []) \<sigma>)"
  by (simp add: publish_def)

text \<open>A reader that stops waiting only removes its own waiter.\<close>

lemma discard_inv:
  assumes inv: "wakeup_inv \<sigma>" and pc: "ts_pc \<sigma> i = Waiting k l f"
    and subs: "\<forall>k'. ss k' = ts_subs \<sigma> k' \<or> sub_terminated (ss k')"
  shows "wakeup_inv (\<sigma>\<lparr>ts_tunnel := anext_discard l f (ts_tunnel \<sigma>), ts_subs := ss,
    ts_pc := (ts_pc \<sigma>)(i := Running), ts_done := (\<lambda>g. ts_done \<sigma> g \<or> g \<in> D)\<rparr>)" (is "wakeup_inv ?\<tau>")
proof -
  have "f' < ts_next_future \<sigma> \<and> (ts_loop_closed \<sigma> l' \<or> will_resolve ?\<tau> f' \<or> parked ?\<tau> k' l' f')"
    if j: "ts_pc \<sigma> j = Waiting k' l' f'" "j \<noteq> i" for j k' l' f'
  proof -
    from inv pc j have "f' \<noteq> f" by (auto simp: wakeup_inv_def)
    moreover from inv j have "f' < ts_next_future \<sigma> \<and>
        (ts_loop_closed \<sigma> l' \<or> will_resolve \<sigma> f' \<or> parked \<sigma> k' l' f')"
      by (auto simp: wakeup_inv_def)
    ultimately show ?thesis
      using subs by (auto simp: will_resolve_def parked_def anext_discard_def) metis+
  qed
  moreover have "\<forall>i j k l k' l' f. ts_pc \<sigma> i = Waiting k l f \<longrightarrow> ts_pc \<sigma> j = Waiting k' l' f \<longrightarrow> i = j"
    using inv unfolding wakeup_inv_def by blast
  ultimately show ?thesis
    by (auto simp: wakeup_inv_def split: if_splits)
qed

lemma reader_wait_inv:
  assumes inv: "wakeup_inv \<sigma>" and pc: "ts_pc \<sigma> i = Running"
    and enter: "anext_enter l (ts_next_future \<sigma>) (ts_tunnel \<sigma>) (ts_subs \<sigma> k) = (Must_wait, t', s')"
  shows "wakeup_inv (\<sigma>\<lparr>ts_tunnel := t', ts_subs := (ts_subs \<sigma>)(k := s'),
       ts_pc := (ts_pc \<sigma>)(i := Waiting k l (ts_next_future \<sigma>)),
       ts_done := (ts_done \<sigma>)(ts_next_future \<sigma> := False),
       ts_next_future := Suc (ts_next_future \<sigma>)\<rparr>)" (is "wakeup_inv ?\<tau>")
proof -
  let ?n = "ts_next_future \<sigma>"
  from enter have rp: "read_pass StopAsyncIteration (ts_tunnel \<sigma>) (ts_subs \<sigma> k) = (Must_wait, ts_subs \<sigma> k)"
    and s': "s' = ts_subs \<sigma> k"
    and t': "t' = (ts_tunnel \<sigma>)\<lparr>tun_async_waiters :=
        List.insert \<lparr>w_loop = l, w_future = ?n\<rparr> (tun_async_waiters (ts_tunnel \<sigma>))\<rparr>"
    by (auto simp: anext_enter_def dest: read_pass_Must_wait split: prod.splits pass.splits)
  have new: "parked ?\<tau> k l ?n"
    using rp by (simp add: parked_def s' t' nothing_available_def)
  have old: "f' < ?n \<and> (ts_loop_closed \<sigma> l' \<or> will_resolve ?\<tau> f' \<or> parked ?\<tau> k' l' f')"
    if j: "ts_pc \<sigma> j = Waiting k' l' f'" for j k' l' f'
  proof -
    from inv j have "f' < ?n \<and> (ts_loop_closed \<sigma> l' \<or> will_resolve \<sigma> f' \<or> parked \<sigma> k' l' f')"
      by (auto simp: wakeup_inv_def)
    then show ?thesis by (auto simp: will_resolve_def parked_def s' t')
  qed
  have uniq: "\<forall>i j k l k' l' f. ts_pc \<sigma> i = Waiting k l f \<longrightarrow> ts_pc \<sigma> j = Waiting k' l' f \<longrightarrow> i = j"
    using inv unfolding wakeup_inv_def by blast
  show ?thesis
    unfolding wakeup_inv_def
  proof (intro conjI allI impI)
    fix j k' l' f' assume "ts_pc ?\<tau> j = Waiting k' l' f'"
    then show "f' < ts_next_future ?\<tau>" "ts_loop_closed ?\<tau> l' \<or> will_resolve ?\<tau> f' \<or> parked ?\<tau> k' l' f'"
      using new old [of j k' l' f'] by (auto split: if_splits)
  next
    fix i' j k' l' k'' l'' f' assume "ts_pc ?\<tau> i' = Waiting k' l' f'" "ts_pc ?\<tau> j = Waiting k'' l'' f'"
    then show "i' = j"
      using uniq old by (auto split: if_splits) blast+
  qed
qed

lemma reader_return_inv:
  assumes inv: "wakeup_inv \<sigma>"
    and enter: "anext_enter l f (ts_tunnel \<sigma>) (ts_subs \<sigma> k) = (r, t', s')" "r \<noteq> Must_wait"
  shows "wakeup_inv (\<sigma>\<lparr>ts_tunnel := t', ts_subs := (ts_subs \<sigma>)(k := s')\<rparr>)" (is "wakeup_inv ?\<tau>")
proof -
  from enter have rp: "read_pass StopAsyncIteration (ts_tunnel \<sigma>) (ts_subs \<sigma> k) = (r, s')" and t': "t' = ts_tunnel \<sigma>"
    by (auto simp: anext_enter_def split: prod.splits pass.splits)
  have stays: "sub_terminated (ts_subs \<sigma> k) \<Longrightarrow> sub_terminated s'"
    using rp by (auto simp: read_pass_def split: if_splits)
  have "parked \<sigma> k' l' f' \<Longrightarrow> parked ?\<tau> k' l' f'" for k' l' f'
    using rp enter(2) stays by (auto simp: parked_def t' nothing_available_def)
  with inv show ?thesis
    unfolding wakeup_inv_def will_resolve_def by auto blast+
qed

lemma callback_runs_inv:
  assumes "wakeup_inv \<sigma>" "ts_ready \<sigma> = cs1 @ c # cs2"
  shows "wakeup_inv (\<sigma>\<lparr>ts_ready := cs1 @ cs2, ts_done := run_wake_callback c (ts_done \<sigma>)\<rparr>)" (is "wakeup_inv ?\<tau>")
proof -
  have "will_resolve \<sigma> f \<Longrightarrow> will_resolve ?\<tau> f" "parked \<sigma> k l f \<Longrightarrow> parked ?\<tau> k l f" for k l f
    using assms(2) by (auto simp: will_resolve_def parked_def run_wake_callback_eq)
  with assms(1) show ?thesis
    unfolding wakeup_inv_def by simp blast
qed

lemma tunnel_system_step_inv:
  assumes "wakeup_inv \<sigma>" "tunnel_system_step \<sigma> \<tau>"
  shows "wakeup_inv \<tau>"
  using assms(2,1)
proof (cases rule: tunnel_system_step.cases)
  case (producer_put x r)
  then show ?thesis
    using publish_wake_inv [OF assms(1), of "append_item x (ts_tunnel \<sigma>)" "ts_subs \<sigma>"]
    by (simp add: put_Inr_iff)
next
  case producer_close
  then show ?thesis
    using publish_wake_inv [OF assms(1), of "(ts_tunnel \<sigma>)\<lparr>tun_closed := True\<rparr>" "ts_subs \<sigma>"]
      publish_nothing_inv [OF assms(1)]
    by (simp add: tunnel_close_def)
next
  case (producer_fail e)
  then show ?thesis
    using publish_wake_inv [OF assms(1), of "(ts_tunnel \<sigma>)\<lparr>tun_failure := Some e\<rparr>" "ts_subs \<sigma>"]
      publish_nothing_inv [OF assms(1)]
    by (simp add: tunnel_fail_def)
next
  case (reader_wait i l k t' s')
  then show ?thesis using reader_wait_inv [OF assms(1)] by blast
next
  case (reader_return i l f k r t' s')
  then show ?thesis using reader_return_inv [OF assms(1)] by blast
next
  case (callback_runs cs1 c cs2)
  then show ?thesis using callback_runs_inv [OF assms(1)] by blast
next
  case (reader_resumes i k l f)
  then show ?thesis using discard_inv [OF assms(1), of i k l f "ts_subs \<sigma>" "{}"] by simp
next
  case (reader_times_out i k l f t' s')
  have "(ts_done \<sigma>)(f := True) = (\<lambda>g. ts_done \<sigma> g \<or> g \<in> {f})" by auto
  with reader_times_out show ?thesis
    using discard_inv [OF assms(1), of i k l f "(ts_subs \<sigma>)(k := s')" "{f}"]
    by (auto simp: anext_timeout_def)
next
  case (reader_cancelled i k l f)
  then show ?thesis using discard_inv [OF assms(1), of i k l f "ts_subs \<sigma>" "{}"] by simp
next
  case (reader_closes k r s')
  then show ?thesis
    using publish_wake_inv [OF assms(1), of "ts_tunnel \<sigma>" "(ts_subs \<sigma>)(k := s')"]
      publish_nothing_inv [OF assms(1)]
    by (auto simp: sub_close_def split: if_splits)
next
  case (loop_closes l)
  with assms(1) show ?thesis
    unfolding wakeup_inv_def will_resolve_def parked_def by auto
qed

interpretation wakeups: inductive_invariant tunnel_system_start tunnel_system_step wakeup_inv
proof
  show "wakeup_inv \<sigma>" if "tunnel_system_start \<sigma>" for \<sigma> :: "('a, 'e) tunnel_system"
    using that by (simp add: tunnel_system_start_def wakeup_inv_def)
qed (rule tunnel_system_step_inv)

end
