(* ===== verification/Tunnel_Props.thy ===== *)
theory Tunnel_Props
  imports Tunnel_Wakeup
begin

text \<open>
  What a tunnel promises producers and readers: it is a log that readers replay from their own
  position, retention is bounded and losses are reported, endings are final, and no reader
  sleeps through something it could read.
\<close>

text \<open>Every subscriber reads a contiguous piece of the accepted items in order, starting exactly
  at its cursor: whatever was published before it subscribed and however its reads interleave
  with puts, closes and failures, nothing is skipped, repeated or reordered.\<close>

theorem subscriber_reads_contiguous_slice:
  assumes "tunnel_init wi to tas mh wm = Inr t0" "0 \<le> sub_cursor s0"
    and "tunnel_run lc before t0 s0 = (t1, s1, ys0, accepted0)"
    and "subscribe start a t1 = Inr s" "tunnel_run lc after t1 s = (t2, s2, ys, accepted)"
  shows "ys = take (length ys) (drop (nat (sub_cursor s)) (accepted0 @ accepted))
    \<and> sub_cursor s2 = sub_cursor s + int (length ys)"
proof -
  have "log_view [] t0" using represents_log_view [OF represents_init [OF assms(1)]] by simp
  from tunnel_run_slice [OF this assms(3,2)] have h: "log_view accepted0 t1" by simp
  then have "0 \<le> sub_cursor s"
    using assms(4) by (cases start) (auto simp: log_view_def split: if_splits)
  from tunnel_run_slice [OF h assms(5) this] show ?thesis by simp
qed

definition small_tunnel :: "(nat, nat) tunnel" where
  "small_tunnel = \<lparr>tun_items = [], tun_wake_mode = ''grouped'', tun_base_sequence = 0, tun_next_sequence = 0,
     tun_closed = False, tun_failure = None, tun_async_waiters = [], tun_timeout = None, tun_max_history = Some 2,
     tun_wait_interval = 0, tun_timeout_after_start = False\<rparr>"

lemma small_tunnel_init: "tunnel_init 0 None False (Some 2) ''grouped'' = (Inr small_tunnel :: nat exc + _)"
  by (simp add: tunnel_init_def small_tunnel_def)

lemmas run_eval = small_tunnel_def put_def append_item_def wake_waiters_locked_def tunnel_close_def
  read_pass_def effective_timeout_def

theorem subscriber_reads_contiguous_slice_witness:
  "fst (snd (snd (tunnel_run (\<lambda>_. False) [Ev_read, Ev_put 9, Ev_read]
      (fst (tunnel_run (\<lambda>_. False) [Ev_put 7, Ev_put 8] small_tunnel
        \<lparr>sub_timeout = None, sub_cursor = 0, sub_terminated = False\<rparr>))
      \<lparr>sub_timeout = None, sub_cursor = 1, sub_terminated = False\<rparr>))) = take 2 (drop 1 [7, 8, 9])"
proof -
  let ?s = "\<lparr>sub_timeout = None, sub_cursor = 0, sub_terminated = False\<rparr>"
  let ?r = "\<lparr>sub_timeout = None, sub_cursor = 1, sub_terminated = False\<rparr>"
  obtain t1 s1 where one: "tunnel_run (\<lambda>_. False) [Ev_put 7, Ev_put 8] small_tunnel ?s = (t1, s1, [], [7, 8])"
    and sub: "subscribe (At 1) (Timeout_arg None) t1 = (Inr ?r :: nat exc + _)"
    by (simp add: run_eval)
  obtain t2 s2 ys where two: "tunnel_run (\<lambda>_. False) [Ev_read, Ev_put 9, Ev_read] t1 ?r = (t2, s2, ys, [9])"
    and len: "length ys = 2"
    using one by (auto simp: run_eval)
  from subscriber_reads_contiguous_slice [OF small_tunnel_init _ one sub two] show ?thesis
    using one two len by simp
qed

text \<open>C5. The tunnel implements the log specification: related states stay related under \<open>put\<close>,
  \<open>close\<close> and \<open>fail\<close>, and what a subscription's next pass returns (item, lag error with the exact
  number of lost items, end, failure or wait) is what the specification reads at its position.\<close>

theorem tunnel_refines_log:
  assumes "represents L t"
  shows "(\<forall>r. put lc x t = Inr r \<longrightarrow> represents (log_put (tun_max_history t) x L) (fst r))
    \<and> (tun_terminal t \<longleftrightarrow> log_ending L \<noteq> Still_open)
    \<and> (\<not> tun_terminal t \<longrightarrow> represents (L\<lparr>log_ending := Eof\<rparr>) (fst (tunnel_close lc t))
         \<and> represents (L\<lparr>log_ending := Broken e\<rparr>) (fst (tunnel_fail lc e t)))
    \<and> (\<forall>s c. sub_cursor s = int c \<and> \<not> sub_terminated s \<longrightarrow> fst (read_pass stop t s) = log_read stop L c)"
proof -
  have "tun_terminal t \<longleftrightarrow> log_ending L \<noteq> Still_open"
    using assms by (auto simp: represents_def ending_of_def tun_terminal_def split: option.splits)
  then show ?thesis
    using represents_put [OF assms] represents_close [OF assms] represents_fail [OF assms] log_read_refines [OF assms]
    by simp
qed

theorem tunnel_refines_log_witness:
  "represents \<lparr>log_entries = [5], log_from = 0, log_ending = Still_open\<rparr> (fst (projr (put (\<lambda>_. False) 5 small_tunnel)))"
proof -
  let ?L = "\<lparr>log_entries = [], log_from = 0, log_ending = Still_open\<rparr>"
  obtain R where r: "put (\<lambda>_. False) 5 small_tunnel = Inr R" by (simp add: put_def small_tunnel_def)
  have rep: "represents ?L small_tunnel" using represents_init [OF small_tunnel_init] .
  have "represents (log_put (tun_max_history small_tunnel) 5 ?L) (fst R)"
    using conjunct1 [OF tunnel_refines_log [OF rep]] r by fast
  moreover have "tun_max_history small_tunnel = Some 2" by (simp add: small_tunnel_def)
  ultimately show ?thesis by (simp add: r log_put_def)
qed

lemma run_ok: "tunnel_ok t \<Longrightarrow> tunnel_run lc es t s = (t', s', ys, acc) \<Longrightarrow> tunnel_ok t'"
proof (induction lc es t s arbitrary: ys acc rule: tunnel_run.induct)
  case (2 lc x es t s)
  then show ?case
    by (cases "put lc x t") (auto dest: tunnel_ok_put split: prod.splits)
qed (auto simp: tunnel_ok_close tunnel_ok_fail split: prod.splits pass.splits)

lemma run_history: "tunnel_run lc es t s = (t', s', ys, acc) \<Longrightarrow> tun_max_history t' = tun_max_history t"
proof (induction lc es t s arbitrary: ys acc rule: tunnel_run.induct)
  case (2 lc x es t s)
  then show ?case
    by (cases "put lc x t") (auto simp: put_Inr_iff split: prod.splits)
qed (auto simp: tunnel_close_def tunnel_fail_def split: prod.splits pass.splits if_splits)

text \<open>Retention is exact at its bound: after any run of an initialised tunnel the retained items are
  the newest accepted ones in order, sequence numbers count every accepted item, a bounded
  tunnel never holds more than \<open>max_history\<close> items and an unbounded one holds them all.\<close>

theorem retained_items_are_newest:
  assumes "tunnel_init wi to tas mh wm = Inr t0" "0 \<le> sub_cursor s0"
    and run: "tunnel_run lc es t0 s0 = (t, s, ys, accepted)"
  shows "tun_items t = drop (nat (fst (retained_range t))) accepted
    \<and> snd (retained_range t) = int (length accepted)
    \<and> (case mh of None \<Rightarrow> tun_items t = accepted | Some m \<Rightarrow> int (length (tun_items t)) \<le> m)"
proof -
  have "log_view [] t0" using represents_log_view [OF represents_init [OF assms(1)]] by simp
  from tunnel_run_slice [OF this run assms(2)] have v: "log_view accepted t" by simp
  have ok: "tunnel_ok t" using run_ok [OF tunnel_ok_init [OF assms(1)] run] .
  have "tun_max_history t0 = mh" using assms(1) by (auto simp: tunnel_init_def split: if_splits)
  with run_history [OF run] ok v show ?thesis
    by (auto simp: tunnel_ok_def log_view_def retained_range_def split: option.splits)
qed

theorem retained_items_are_newest_witness:
  "tun_items (fst (tunnel_run (\<lambda>_. False) [Ev_put 7, Ev_put 8, Ev_put 9] small_tunnel
     \<lparr>sub_timeout = None, sub_cursor = 0, sub_terminated = False\<rparr>)) = [8, 9]"
proof -
  let ?s = "\<lparr>sub_timeout = None, sub_cursor = 0, sub_terminated = False\<rparr>"
  obtain t s ys where r: "tunnel_run (\<lambda>_. False) [Ev_put 7, Ev_put 8, Ev_put 9] small_tunnel ?s = (t, s, ys, [7, 8, 9])"
    and b: "tun_base_sequence t = 1"
    by (simp add: run_eval)
  from retained_items_are_newest [OF small_tunnel_init _ r] b r show ?thesis by (simp add: retained_range_def)
qed

text \<open>\<open>get\<close> replays: it returns every retained item of a closed tunnel, raises the recorded failure
  of a failed one, and on an open tunnel returns what is retained when its timeout ends the
  iteration; only an open tunnel read without a timeout keeps it waiting.\<close>

theorem get_replays_retained_items:
  "tunnel_get a t =
     (case tun_failure t of
        Some e \<Rightarrow> Some (Inl (Raised e))
      | None \<Rightarrow> (if effective_timeout t a = None \<and> \<not> tun_closed t then None else Some (Inr (tun_items t))))"
  by (simp add: tunnel_get_def effective_timeout_def read_all_items Let_def split: option.splits timeout_arg.splits)

lemma terminal_frame:
  "tun_terminal t \<Longrightarrow> put lc x t = Inl TunnelClosedError"
  "tun_terminal t \<Longrightarrow> fst (tunnel_close lc t) = t" "tun_terminal t \<Longrightarrow> fst (tunnel_fail lc e t) = t"
  by (auto simp: tun_terminal_def put_def tunnel_close_def tunnel_fail_def)

text \<open>An ending is final: once a tunnel is closed or failed, every later put is refused with
  \<open>TunnelClosedError\<close>, no later close or failure changes how it ended, and nothing is accepted or
  retained any more, while readers can still finish.\<close>

theorem ending_is_final:
  assumes "tun_terminal t" "tunnel_run lc es t s = (t', s', ys, accepted)"
  shows "put lc x t = Inl TunnelClosedError \<and> t' = t \<and> accepted = []"
  using assms
proof (induction lc es t s arbitrary: ys accepted rule: tunnel_run.induct)
qed (auto simp: terminal_frame split: prod.splits pass.splits)

theorem ending_is_final_witness:
  "put (\<lambda>_. False) 3 (small_tunnel\<lparr>tun_closed := True\<rparr>) = (Inl TunnelClosedError :: nat exc + _)"
  using ending_is_final [of "small_tunnel\<lparr>tun_closed := True\<rparr>" "\<lambda>_. False" "[]"
      "\<lparr>sub_timeout = None, sub_cursor = 0, sub_terminated = False\<rparr>"]
  by (simp add: tun_terminal_def)

text \<open>C15. Grouped wake-ups are equivalent to individual ones: running the scheduled callbacks resolves
  exactly the futures of the waiters whose loop is still open in both modes, and the grouped
  mode schedules at most one callback per event loop.\<close>

theorem wake_modes_equivalent:
  "fold run_wake_callback (snd (wake_waiters_locked lc (t\<lparr>tun_wake_mode := ''grouped''\<rparr>))) d =
     fold run_wake_callback (snd (wake_waiters_locked lc (t\<lparr>tun_wake_mode := ''individual''\<rparr>))) d
   \<and> fold run_wake_callback (snd (wake_waiters_locked lc t)) d =
       (\<lambda>f. d f \<or> (\<exists>w\<in>set (tun_async_waiters t). w_future w = f \<and> \<not> lc (w_loop w)))
   \<and> distinct (map callback_loop (snd (wake_waiters_locked lc (t\<lparr>tun_wake_mode := ''grouped''\<rparr>))))
   \<and> tun_async_waiters (fst (wake_waiters_locked lc t)) = []"
proof -
  let ?gs = "group_waiters (tun_async_waiters t)"
  have "map (callback_loop \<circ> (\<lambda>(l, fs). Resolve_Group l fs)) gs = map fst gs" for gs
    by auto
  moreover have "distinct (map fst (filter (\<lambda>(l, fs). \<not> lc l) ?gs))"
    using group_waiters_props by (blast intro: distinct_map_filter)
  ultimately have "distinct (map callback_loop (snd (wake_waiters_locked lc (t\<lparr>tun_wake_mode := ''grouped''\<rparr>))))"
    by (simp add: wake_waiters_locked_def Let_def del: map_eq_conv)
  then show ?thesis by (simp add: wake_resolves)
qed

text \<open>C1. No wake-up is lost: in every reachable state of any number of readers and producers, a task
  waiting in \<open>__anext__\<close> on an open loop for a live subscription either has its future resolved or
  about to be resolved by a scheduled callback, or is registered as a waiter and there is
  nothing for it to read.\<close>

theorem no_lost_wakeup:
  assumes "reachable tunnel_system_start tunnel_system_step \<sigma>" "ts_pc \<sigma> i = Waiting k l f"
    and "\<not> ts_loop_closed \<sigma> l" "\<not> sub_terminated (ts_subs \<sigma> k)"
  shows "ts_done \<sigma> f \<or> (\<exists>c\<in>set (ts_ready \<sigma>). f \<in> set (callback_futures c))
    \<or> (\<lparr>w_loop = l, w_future = f\<rparr> \<in> set (tun_async_waiters (ts_tunnel \<sigma>))
        \<and> read_pass StopAsyncIteration (ts_tunnel \<sigma>) (ts_subs \<sigma> k) = (Must_wait, ts_subs \<sigma> k))"
  using wakeups.reachable_inv [OF assms(1)] assms(2-)
  by (auto simp: wakeup_inv_def will_resolve_def parked_def nothing_available_def)

definition one_reader :: "(nat, nat) tunnel_system" where
  "one_reader = \<lparr>ts_tunnel = small_tunnel, ts_subs = (\<lambda>_. \<lparr>sub_timeout = None, sub_cursor = 0, sub_terminated = False\<rparr>),
     ts_pc = (\<lambda>_. Running), ts_done = (\<lambda>_. False), ts_ready = [], ts_loop_closed = (\<lambda>_. False), ts_next_future = 0\<rparr>"

definition waiting_reader :: "(nat, nat) tunnel_system" where
  "waiting_reader = one_reader\<lparr>ts_tunnel := small_tunnel\<lparr>tun_async_waiters := [\<lparr>w_loop = 6, w_future = 0\<rparr>]\<rparr>,
     ts_subs := (ts_subs one_reader)(2 := ts_subs one_reader 2),
     ts_pc := (ts_pc one_reader)(1 := Waiting 2 6 0), ts_done := (ts_done one_reader)(0 := False), ts_next_future := 1\<rparr>"

lemma waiting_reader_reachable: "reachable tunnel_system_start tunnel_system_step waiting_reader"
proof -
  have "tunnel_system_start one_reader"
    unfolding tunnel_system_start_def using small_tunnel_init by (simp add: one_reader_def) blast
  moreover have "tunnel_system_step one_reader waiting_reader"
    using reader_wait [of one_reader 1 6 2 "ts_tunnel waiting_reader" "ts_subs one_reader 2"]
    by (simp add: waiting_reader_def one_reader_def anext_enter_def run_eval)
  ultimately show ?thesis by (blast intro: reach_start reach_step)
qed

theorem no_lost_wakeup_witness:
  "\<lparr>w_loop = 6, w_future = 0\<rparr> \<in> set (tun_async_waiters (ts_tunnel waiting_reader))"
  using no_lost_wakeup [OF waiting_reader_reachable, of 1 2 6 0] by (simp add: waiting_reader_def one_reader_def)

end
