(* ===== verification/Handle_Model.thy ===== *)
theory Handle_Model
  imports Stage_Errors
begin

text \<open>
  \<open>StageHandle.py\<close>: the outcome of one root, its callbacks and its settlement barrier.
  Each function is one section under \<open>self._state_lock\<close>; where a method calls the owning
  \<open>Stage\<close> (\<open>_handle_quiescent\<close>, \<open>_owned_activity\<close>, \<open>_submit_callback_drain_locked\<close>) the
  function returns what the scope needs to know and the scope theory makes the call.
  Exception objects are references \<open>'e\<close>, so \<open>is\<close> is equality; values are \<open>'v\<close>, and
  \<open>None\<close> in \<open>Resolved\<close> is the Python \<open>None\<close> that an ignored exception leaves behind.
\<close>

section \<open>State\<close>

datatype backend_kind = Backend_caller | Backend_stage
datatype callback_kind = On_success | On_error | On_finally
datatype work_phase = Phase_body | Phase_settlement

record callback =
  cb_kind :: callback_kind
  cb_function :: callable_ref
  cb_context :: nat

record done_callback =
  dc_function :: callable_ref
  dc_context :: nat
  dc_active :: bool

datatype ('v, 'e) body_future = Pending | Resolved "'v option" | Failed 'e | Was_cancelled

text \<open>
  The settlement future is replaced by a fresh one whenever work is retained at zero: its
  identity is the epoch (0 is the shared \<open>_SETTLED_FUTURE\<close>) and only the current one can
  be pending.
\<close>

record ('v, 'e) handle =
  h_origin :: string
  h_backend_kind :: backend_kind
  h_body_future :: "('v, 'e) body_future"
  h_pending_work :: int
  h_settlement_epoch :: nat
  h_settlement_done :: bool
  h_settlement_errors :: "'e list"
  h_stage_error_cursor :: nat
  h_generation_id :: "nat option"
  h_owner_loop :: "loop_ref option"
  h_owner_task :: "task_ref option"
  h_owned_body_tasks :: "task_ref list"
  h_owned_settlement_tasks :: "task_ref list"
  h_cancel_requested :: bool
  h_body_completed :: bool
  h_body_result :: "'v option"
  h_body_error :: "'e option"
  h_callbacks :: "callback list"
  h_callback_drain_active :: bool
  h_done_callbacks :: "done_callback list"

definition handle_init :: "string \<Rightarrow> backend_kind \<Rightarrow> ('v, 'e) handle" where
  "handle_init origin kind = \<lparr>h_origin = origin, h_backend_kind = kind, h_body_future = Pending,
     h_pending_work = 0, h_settlement_epoch = 0, h_settlement_done = True, h_settlement_errors = [],
     h_stage_error_cursor = 0, h_generation_id = None, h_owner_loop = None, h_owner_task = None,
     h_owned_body_tasks = [], h_owned_settlement_tasks = [], h_cancel_requested = False,
     h_body_completed = False, h_body_result = None, h_body_error = None, h_callbacks = [],
     h_callback_drain_active = False, h_done_callbacks = []\<rparr>"

definition body_done :: "('v, 'e) handle \<Rightarrow> bool" where
  "body_done h \<longleftrightarrow> h_body_future h \<noteq> Pending"

section \<open>Generation and retained work\<close>

definition get_generation_id :: "('v, 'e) handle \<Rightarrow> 'e exc + nat" where
  "get_generation_id h = (case h_generation_id h of None \<Rightarrow> Inl RuntimeError | Some g \<Rightarrow> Inr g)"

definition set_generation_id :: "nat \<Rightarrow> ('v, 'e) handle \<Rightarrow> ('v, 'e) handle" where
  "set_generation_id g h = (if h_generation_id h = None then h\<lparr>h_generation_id := Some g\<rparr> else h)"

definition retain_work :: "('v, 'e) handle \<Rightarrow> ('v, 'e) handle" where
  "retain_work h =
     (let h1 = (if h_pending_work h = 0
                then h\<lparr>h_settlement_epoch := Suc (h_settlement_epoch h), h_settlement_done := False\<rparr> else h)
      in h1\<lparr>h_pending_work := h_pending_work h1 + 1\<rparr>)"

text \<open>The boolean is \<open>became_quiescent\<close>: the scope is then told with \<open>_handle_quiescent\<close>.\<close>

definition release_work :: "('v, 'e) handle \<Rightarrow> 'e exc + (('v, 'e) handle \<times> bool)" where
  "release_work h =
     (if h_pending_work h \<le> 0 then Inl RuntimeError
      else let h1 = h\<lparr>h_pending_work := h_pending_work h - 1\<rparr> in
        if h_pending_work h1 = 0
        then Inr (if \<not> h_settlement_done h1 then h1\<lparr>h_settlement_done := True\<rparr> else h1, True)
        else Inr (h1, False))"

definition record_settlement_error :: "'e \<Rightarrow> ('v, 'e) handle \<Rightarrow> ('v, 'e) handle" where
  "record_settlement_error e h = h\<lparr>h_settlement_errors := h_settlement_errors h @ [e]\<rparr>"

definition register_owned_task :: "task_ref \<Rightarrow> work_phase \<Rightarrow> ('v, 'e) handle \<Rightarrow> ('v, 'e) handle \<times> bool" where
  "register_owned_task task phase h =
     (if phase = Phase_body
      then (h\<lparr>h_owned_body_tasks := List.insert task (h_owned_body_tasks h)\<rparr>, h_cancel_requested h)
      else (h\<lparr>h_owned_settlement_tasks := List.insert task (h_owned_settlement_tasks h)\<rparr>, False))"

definition unregister_owned_task :: "task_ref \<Rightarrow> ('v, 'e) handle \<Rightarrow> ('v, 'e) handle" where
  "unregister_owned_task task h =
     h\<lparr>h_owned_body_tasks := removeAll task (h_owned_body_tasks h),
       h_owned_settlement_tasks := removeAll task (h_owned_settlement_tasks h)\<rparr>"

text \<open>Errors other than the body's own, in order.\<close>

definition foreign_errors :: "('v, 'e) handle \<Rightarrow> 'e list \<Rightarrow> 'e list" where
  "foreign_errors h es = filter (\<lambda>e. h_body_error h \<noteq> Some e) es"

definition take_unreported_stage_errors :: "('v, 'e) handle \<Rightarrow> 'e list \<times> ('v, 'e) handle" where
  "take_unreported_stage_errors h =
     (foreign_errors h (drop (h_stage_error_cursor h) (h_settlement_errors h)),
      h\<lparr>h_stage_error_cursor := length (h_settlement_errors h)\<rparr>)"

section \<open>The body outcome\<close>

definition activate_callback_drain_locked :: "('v, 'e) handle \<Rightarrow> ('v, 'e) handle \<times> bool" where
  "activate_callback_drain_locked h =
     (if h_callbacks h \<noteq> [] \<and> \<not> h_callback_drain_active h
      then (h\<lparr>h_callback_drain_active := True\<rparr>, True) else (h, False))"

definition take_done_callbacks_locked :: "('v, 'e) handle \<Rightarrow> ('v, 'e) handle \<times> done_callback list" where
  "take_done_callbacks_locked h = (h\<lparr>h_done_callbacks := []\<rparr>, h_done_callbacks h)"

text \<open>The functions \<open>_run_done_callbacks\<close> calls, in order (a raising one is logged and skipped).\<close>

definition run_done_callbacks :: "done_callback list \<Rightarrow> callable_ref list" where
  "run_done_callbacks cs = map dc_function (filter dc_active cs)"

text \<open>
  \<open>_set_body_result\<close>, \<open>_set_body_exception\<close> and \<open>_set_body_cancelled\<close> differ in what they
  store. The result is the new handle, \<open>should_start\<close> and the done callbacks that run;
  \<open>_owned_activity\<close> follows exactly when the body was not already completed.
\<close>

definition finish_body :: "('v, 'e) handle \<Rightarrow> ('v, 'e) handle \<times> bool \<times> callable_ref list" where
  "finish_body h =
     (case activate_callback_drain_locked h of (h1, should_start) \<Rightarrow>
      case take_done_callbacks_locked h1 of (h2, cs) \<Rightarrow> (h2, should_start, run_done_callbacks cs))"

definition set_body_result :: "'v \<Rightarrow> ('v, 'e) handle \<Rightarrow> ('v, 'e) handle \<times> bool \<times> callable_ref list" where
  "set_body_result r h =
     (if h_body_completed h then (h, False, [])
      else finish_body (h\<lparr>h_body_completed := True, h_body_result := Some r,
             h_body_future := Resolved (Some r)\<rparr>))"

definition set_body_exception ::
  "'e \<Rightarrow> bool \<Rightarrow> ('v, 'e) handle \<Rightarrow> ('v, 'e) handle \<times> bool \<times> callable_ref list" where
  "set_body_exception e ignored h =
     (if h_body_completed h then (h, False, [])
      else finish_body (h\<lparr>h_body_completed := True, h_body_error := Some e,
             h_body_future := (if ignored then Resolved None else Failed e)\<rparr>))"

definition set_body_cancelled :: "'e \<Rightarrow> ('v, 'e) handle \<Rightarrow> ('v, 'e) handle \<times> bool \<times> callable_ref list" where
  "set_body_cancelled e h =
     (if h_body_completed h then (h, False, [])
      else finish_body (h\<lparr>h_body_completed := True, h_body_error := Some e,
             h_body_future := Was_cancelled\<rparr>))"

definition add_done_callback ::
  "callable_ref \<Rightarrow> nat \<Rightarrow> ('v, 'e) handle \<Rightarrow> ('v, 'e) handle \<times> callable_ref list" where
  "add_done_callback f ctx h =
     (let reg = \<lparr>dc_function = f, dc_context = ctx, dc_active = True\<rparr> in
      if \<not> h_body_completed h then (h\<lparr>h_done_callbacks := h_done_callbacks h @ [reg]\<rparr>, [])
      else (h, run_done_callbacks [reg]))"

definition remove_done_callback :: "callable_ref \<Rightarrow> ('v, 'e) handle \<Rightarrow> ('v, 'e) handle \<times> nat" where
  "remove_done_callback f h =
     (h\<lparr>h_done_callbacks := map (\<lambda>r. if dc_active r \<and> dc_function r = f then r\<lparr>dc_active := False\<rparr> else r)
          (h_done_callbacks h)\<rparr>,
      length (filter (\<lambda>r. dc_active r \<and> dc_function r = f) (h_done_callbacks h)))"

section \<open>Ordered callbacks\<close>

definition register_initial_callback ::
  "callback_kind \<Rightarrow> callable_ref \<Rightarrow> nat \<Rightarrow> ('v, 'e) handle \<Rightarrow> ('v, 'e) handle" where
  "register_initial_callback k f ctx h =
     h\<lparr>h_callbacks := h_callbacks h @ [\<lparr>cb_kind = k, cb_function = f, cb_context = ctx\<rparr>]\<rparr>"

text \<open>
  The two state-lock sections of \<open>_register_callback\<close>: the append with the decision to start
  a drain, and the rollback when \<open>_submit_callback_drain_locked\<close> raises.
\<close>

definition register_callback_locked ::
  "callback_kind \<Rightarrow> callable_ref \<Rightarrow> nat \<Rightarrow> ('v, 'e) handle \<Rightarrow> ('v, 'e) handle \<times> bool" where
  "register_callback_locked k f ctx h =
     (let h1 = h\<lparr>h_callbacks := h_callbacks h @ [\<lparr>cb_kind = k, cb_function = f, cb_context = ctx\<rparr>]\<rparr> in
      if h_body_completed h1 then activate_callback_drain_locked h1 else (h1, False))"

definition register_callback_rollback :: "('v, 'e) handle \<Rightarrow> ('v, 'e) handle" where
  "register_callback_rollback h =
     h\<lparr>h_callbacks := butlast (h_callbacks h), h_callback_drain_active := False\<rparr>"

datatype ('v, 'e) callback_args = Args_result "'v option" | Args_error 'e | Args_none

definition callback_args_for ::
  "callback_kind \<Rightarrow> 'e option \<Rightarrow> 'v option \<Rightarrow> ('v, 'e) callback_args option" where
  "callback_args_for k body_error body_result =
     (if k = On_success \<and> body_error = None then Some (Args_result body_result)
      else if k = On_error \<and> body_error \<noteq> None then Some (Args_error (the body_error))
      else if k = On_finally then Some Args_none
      else None)"

datatype ('v, 'e) drain_action =
    Drain_finished
  | Drain_skip callback
  | Drain_invoke callback "('v, 'e) callback_args"

definition drain_pop :: "('v, 'e) handle \<Rightarrow> ('v, 'e) drain_action \<times> ('v, 'e) handle" where
  "drain_pop h =
     (case h_callbacks h of
        [] \<Rightarrow> (Drain_finished, h\<lparr>h_callback_drain_active := False\<rparr>)
      | c # cs \<Rightarrow>
          (case callback_args_for (cb_kind c) (h_body_error h) (h_body_result h) of
             None \<Rightarrow> (Drain_skip c, h\<lparr>h_callbacks := cs\<rparr>)
           | Some a \<Rightarrow> (Drain_invoke c a, h\<lparr>h_callbacks := cs\<rparr>)))"

text \<open>
  The whole loop of \<open>_drain_callbacks\<close> when nothing is registered meanwhile; \<open>exec\<close> is
  \<open>Stage._execute_callback\<close>, user code that returns the exception it raises, if any. The
  list is the sequence of invocations.
\<close>

function drain_callbacks ::
  "(callback \<Rightarrow> ('v, 'e) callback_args \<Rightarrow> 'e option) \<Rightarrow> ('v, 'e) handle
   \<Rightarrow> (callback \<times> ('v, 'e) callback_args) list \<times> ('v, 'e) handle" where
  "drain_callbacks exec h =
     (case drain_pop h of
        (Drain_finished, h') \<Rightarrow> ([], h')
      | (Drain_skip c, h') \<Rightarrow> drain_callbacks exec h'
      | (Drain_invoke c a, h') \<Rightarrow>
          (case drain_callbacks exec
                  (case exec c a of None \<Rightarrow> h' | Some e \<Rightarrow> record_settlement_error e h') of
             (ivs, h'') \<Rightarrow> ((c, a) # ivs, h'')))"
  by pat_completeness auto
termination
  by (relation "measure (\<lambda>(exec, h). length (h_callbacks h))")
     (auto simp: drain_pop_def record_settlement_error_def split: list.splits option.splits)

declare drain_callbacks.simps [simp del]

section \<open>Waiting and cancelling\<close>

definition set_owner_task :: "loop_ref \<Rightarrow> task_ref \<Rightarrow> ('v, 'e) handle \<Rightarrow> ('v, 'e) handle \<times> bool" where
  "set_owner_task loop task h =
     (h\<lparr>h_owner_loop := Some loop, h_owner_task := Some task\<rparr>, h_cancel_requested h)"

text \<open>\<open>_cancel_tasks\<close>: the tasks it cancels, in order, given which are done.\<close>

definition cancel_tasks :: "(task_ref \<Rightarrow> bool) \<Rightarrow> task_ref option \<Rightarrow> task_ref list \<Rightarrow> task_ref list" where
  "cancel_tasks task_done owner body_tasks =
     (case owner of None \<Rightarrow> [] | Some t \<Rightarrow> if \<not> task_done t then [t] else [])
     @ filter (\<lambda>t. \<not> task_done t) body_tasks"

definition ensure_not_owner_loop_sync_wait ::
  "loop_ref option \<Rightarrow> bool \<Rightarrow> ('v, 'e) handle \<Rightarrow> 'e exc + unit" where
  "ensure_not_owner_loop_sync_wait running already_done h =
     (if already_done then Inr ()
      else case running of
             None \<Rightarrow> Inr ()
           | Some l \<Rightarrow> (if h_owner_loop h = Some l then Inl StageLifecycleError else Inr ()))"

text \<open>
  \<open>get\<close> up to the end of its wait: \<open>final\<close> is the body future when the wait ends (\<open>Pending\<close>:
  the timeout expired). \<open>is_timeout e\<close> says that the exception object \<open>e\<close> is an instance of
  \<open>concurrent.futures.TimeoutError\<close>, which the \<open>except\<close> clause around the wait catches too.
\<close>

fun future_result :: "('e \<Rightarrow> bool) \<Rightarrow> ('v, 'e) body_future \<Rightarrow> 'e exc + 'v option" where
  "future_result is_timeout Pending = Inl (TimeoutError [])"
| "future_result is_timeout (Resolved v) = Inr v"
| "future_result is_timeout (Failed e) = (if is_timeout e then Inl (TimeoutError []) else Inl (Raised e))"
| "future_result is_timeout Was_cancelled = Inl CancelledError"

definition handle_get ::
  "('e \<Rightarrow> bool) \<Rightarrow> loop_ref option \<Rightarrow> ('v, 'e) body_future \<Rightarrow> ('v, 'e) handle \<Rightarrow> 'e exc + 'v option" where
  "handle_get is_timeout running final h =
     (case ensure_not_owner_loop_sync_wait running (body_done h) h of
        Inl e \<Rightarrow> Inl e | Inr _ \<Rightarrow> future_result is_timeout final)"

text \<open>\<open>exception\<close>: the stored exception, \<open>None\<close> for a value.\<close>

definition handle_exception ::
  "loop_ref option \<Rightarrow> ('v, 'e) body_future \<Rightarrow> ('v, 'e) handle \<Rightarrow> 'e exc + 'e option" where
  "handle_exception running final h =
     (case ensure_not_owner_loop_sync_wait running (body_done h) h of
        Inl e \<Rightarrow> Inl e
      | Inr _ \<Rightarrow> (case final of Pending \<Rightarrow> Inl (TimeoutError []) | Resolved v \<Rightarrow> Inr None
                 | Failed e \<Rightarrow> Inr (Some e) | Was_cancelled \<Rightarrow> Inl CancelledError))"

text \<open>\<open>wait_settled\<close> on the barrier that is current when it is called; \<open>h'\<close> is the handle once
  the wait on that barrier has ended, in time or not.\<close>

definition handle_wait_settled ::
  "loop_ref option \<Rightarrow> bool \<Rightarrow> ('v, 'e) handle \<Rightarrow> ('v, 'e) handle \<Rightarrow> 'e exc + unit" where
  "handle_wait_settled running in_time h h' =
     (case ensure_not_owner_loop_sync_wait running (h_settlement_done h) h of
        Inl e \<Rightarrow> Inl e
      | Inr _ \<Rightarrow>
          (if \<not> in_time then Inl (TimeoutError [])
           else let errors = foreign_errors h' (h_settlement_errors h') in
             if errors \<noteq> [] then Inl (StageSettlementError errors) else Inr ()))"

text \<open>
  \<open>cancel\<close>: \<open>None\<close> when there is nothing to cancel; otherwise the new handle and the call of
  \<open>_cancel_tasks\<close> scheduled on the owner loop, if there is one yet.
\<close>

definition cancel_request ::
  "('v, 'e) handle \<Rightarrow> (('v, 'e) handle \<times> (loop_ref \<times> task_ref option \<times> task_ref list) option) option" where
  "cancel_request h =
     (if body_done h \<and> h_owned_body_tasks h = [] then None
      else Some (h\<lparr>h_cancel_requested := True\<rparr>,
             map_option (\<lambda>l. (l, h_owner_task h, h_owned_body_tasks h)) (h_owner_loop h)))"

text \<open>\<open>loop_closed l\<close>: \<open>call_soon_threadsafe\<close> raises \<open>RuntimeError\<close> because \<open>l\<close> is closed.\<close>

definition handle_cancel ::
  "('e \<Rightarrow> bool) \<Rightarrow> (loop_ref \<Rightarrow> bool) \<Rightarrow> loop_ref option \<Rightarrow> clock option \<Rightarrow> ('v, 'e) body_future \<Rightarrow> ('v, 'e) handle
   \<Rightarrow> 'e exc + (bool \<times> ('v, 'e) handle \<times> (loop_ref \<times> task_ref option \<times> task_ref list) option)" where
  "handle_cancel is_timeout loop_closed running timeout final h =
     (if body_done h \<and> h_owned_body_tasks h = [] then Inr (False, h, None)
      else case (if timeout = None \<or> the timeout > 0
                 then ensure_not_owner_loop_sync_wait running (body_done h) h else Inr ()) of
             Inl e \<Rightarrow> Inl e
           | Inr _ \<Rightarrow>
               (case cancel_request h of
                  None \<Rightarrow> Inr (False, h, None)
                | Some (h', call) \<Rightarrow>
                    if call \<noteq> None \<and> loop_closed (fst (the call)) then Inl RuntimeError
                    else Inr (case final of Pending \<Rightarrow> False | Failed e \<Rightarrow> \<not> is_timeout e | _ \<Rightarrow> True, h', call)))"

text \<open>
  The asynchronous waits read the same futures through \<open>asyncio\<close> and are never refused; their
  timeout is raised untranslated. \<open>in_time\<close>: the wait ended before its timeout.
\<close>

definition handle_async_get :: "bool \<Rightarrow> ('v, 'e) body_future \<Rightarrow> 'e exc + 'v option" where
  "handle_async_get in_time final =
     (if \<not> in_time then Inl (TimeoutError [])
      else case final of Pending \<Rightarrow> Inl (TimeoutError []) | Resolved v \<Rightarrow> Inr v
             | Failed e \<Rightarrow> Inl (Raised e) | Was_cancelled \<Rightarrow> Inl CancelledError)"

definition handle_async_wait_settled :: "bool \<Rightarrow> ('v, 'e) handle \<Rightarrow> 'e exc + unit" where
  "handle_async_wait_settled in_time h' =
     (if \<not> in_time then Inl (TimeoutError [])
      else let errors = foreign_errors h' (h_settlement_errors h') in
        if errors \<noteq> [] then Inl (StageSettlementError errors) else Inr ())"

lemmas [handle_defs] = handle_init_def set_generation_id_def retain_work_def
  record_settlement_error_def register_owned_task_def unregister_owned_task_def
  take_unreported_stage_errors_def activate_callback_drain_locked_def
  take_done_callbacks_locked_def finish_body_def set_body_result_def set_body_exception_def
  set_body_cancelled_def add_done_callback_def remove_done_callback_def
  register_initial_callback_def register_callback_locked_def register_callback_rollback_def
  set_owner_task_def

end
