(* ===== verification/Handle_Facts.thy ===== *)
theory Handle_Facts
  imports Handle_Model "HOL-Library.Sublist"
begin

text \<open>
  Correctness of \<open>StageHandle\<close>: its invariant, the work counter as a counted
  reservation, the body outcome as a latch, exactly-once reporting of settlement errors,
  and the callback drain as a state machine with interleaved registrations.
\<close>

section \<open>The invariant\<close>

fun outcome_ok :: "('v, 'e) body_future \<Rightarrow> 'e option \<Rightarrow> 'v option \<Rightarrow> bool" where
  "outcome_ok Pending err res \<longleftrightarrow> err = None \<and> res = None"
| "outcome_ok (Resolved (Some v)) err res \<longleftrightarrow> err = None \<and> res = Some v"
| "outcome_ok (Resolved None) err res \<longleftrightarrow> err \<noteq> None"
| "outcome_ok (Failed e) err res \<longleftrightarrow> err = Some e"
| "outcome_ok Was_cancelled err res \<longleftrightarrow> err \<noteq> None"

definition work_ok :: "('v, 'e) handle \<Rightarrow> bool" where
  "work_ok h \<longleftrightarrow> 0 \<le> h_pending_work h \<and> (h_settlement_done h \<longleftrightarrow> h_pending_work h = 0)"

definition drain_ok :: "('v, 'e) handle \<Rightarrow> bool" where
  "drain_ok h \<longleftrightarrow> (h_callback_drain_active h \<longrightarrow> h_body_completed h)
     \<and> (h_body_completed h \<longrightarrow> h_callbacks h \<noteq> [] \<longrightarrow> h_callback_drain_active h)
     \<and> (h_body_completed h \<longrightarrow> h_done_callbacks h = [])"

definition handle_ok :: "('v, 'e) handle \<Rightarrow> bool" where
  "handle_ok h \<longleftrightarrow> work_ok h \<and> drain_ok h
     \<and> (h_body_completed h \<longleftrightarrow> body_done h)
     \<and> outcome_ok (h_body_future h) (h_body_error h) (h_body_result h)
     \<and> h_stage_error_cursor h \<le> length (h_settlement_errors h)"

lemmas handle_ok_defs = handle_ok_def work_ok_def drain_ok_def body_done_def

lemma handle_ok_init: "handle_ok (handle_init origin kind)"
  by (simp add: handle_ok_defs handle_init_def)

lemma handle_ok_retain: "handle_ok h \<Longrightarrow> handle_ok (retain_work h)"
  by (auto simp: handle_ok_defs retain_work_def Let_def)

lemma handle_ok_release: "handle_ok h \<Longrightarrow> release_work h = Inr (h', q) \<Longrightarrow> handle_ok h'"
  by (auto simp: handle_ok_defs release_work_def Let_def split: if_splits)

lemma release_work_quiescent:
  "handle_ok h \<Longrightarrow> release_work h = Inr (h', q) \<Longrightarrow> q \<longleftrightarrow> h_settlement_done h'"
  by (auto simp: handle_ok_defs release_work_def Let_def split: if_splits)

lemma handle_ok_record: "handle_ok h \<Longrightarrow> handle_ok (record_settlement_error e h)"
  by (auto simp: handle_ok_defs record_settlement_error_def)

lemma handle_ok_take: "handle_ok h \<Longrightarrow> handle_ok (snd (take_unreported_stage_errors h))"
  by (auto simp: handle_ok_defs take_unreported_stage_errors_def)

lemma handle_ok_tasks:
  "handle_ok h \<Longrightarrow> handle_ok (fst (register_owned_task t p h))"
  "handle_ok h \<Longrightarrow> handle_ok (unregister_owned_task t h)"
  "handle_ok h \<Longrightarrow> handle_ok (fst (set_owner_task l t h))"
  "handle_ok h \<Longrightarrow> handle_ok (set_generation_id g h)"
  by (auto simp: handle_ok_defs register_owned_task_def unregister_owned_task_def set_owner_task_def
      set_generation_id_def)

lemma finish_body_ok:
  assumes "handle_ok h0" "\<not> h_body_completed h0" "h_body_completed h" "body_done h"
    and "h_pending_work h = h_pending_work h0" "h_settlement_done h = h_settlement_done h0"
    and "h_settlement_errors h = h_settlement_errors h0" "h_stage_error_cursor h = h_stage_error_cursor h0"
    and "h_callback_drain_active h = h_callback_drain_active h0"
    and "outcome_ok (h_body_future h) (h_body_error h) (h_body_result h)"
  shows "handle_ok (fst (finish_body h))"
  using assms
  by (auto simp: handle_ok_defs finish_body_def activate_callback_drain_locked_def take_done_callbacks_locked_def)

lemma handle_ok_fresh:
  "handle_ok h \<Longrightarrow> \<not> h_body_completed h \<Longrightarrow> h_body_error h = None \<and> h_body_result h = None"
  by (auto simp: handle_ok_defs)

lemma handle_ok_set_body:
  assumes "handle_ok h"
  shows "handle_ok (fst (set_body_result r h))"
    and "handle_ok (fst (set_body_exception e ign h))"
    and "handle_ok (fst (set_body_cancelled e h))"
  using assms handle_ok_fresh [OF assms]
  by (auto simp: set_body_result_def set_body_exception_def set_body_cancelled_def body_done_def
           intro: finish_body_ok [of h])

lemma handle_ok_done_callbacks:
  "handle_ok h \<Longrightarrow> handle_ok (fst (add_done_callback f c h))"
  "handle_ok h \<Longrightarrow> handle_ok (fst (remove_done_callback f h))"
  by (auto simp: handle_ok_defs add_done_callback_def remove_done_callback_def Let_def)

lemma handle_ok_initial:
  "handle_ok h \<Longrightarrow> \<not> h_body_completed h \<Longrightarrow> handle_ok (register_initial_callback k f c h)"
  by (auto simp: handle_ok_defs register_initial_callback_def)

lemma handle_ok_register: "handle_ok h \<Longrightarrow> handle_ok (fst (register_callback_locked k f c h))"
  by (auto simp: handle_ok_defs register_callback_locked_def activate_callback_drain_locked_def Let_def)

text \<open>A registration whose drain cannot be submitted leaves the handle as it was.\<close>

lemma register_rollback_id:
  assumes "handle_ok h" "register_callback_locked k f c h = (h', True)"
  shows "register_callback_rollback h' = h"
proof -
  from assms have "h_callbacks h = []" "\<not> h_callback_drain_active h"
    "h' = h\<lparr>h_callbacks := [\<lparr>cb_kind = k, cb_function = f, cb_context = c\<rparr>], h_callback_drain_active := True\<rparr>"
    by (auto simp: handle_ok_defs register_callback_locked_def activate_callback_drain_locked_def Let_def
             split: if_splits)
  then show ?thesis by (simp add: register_callback_rollback_def)
qed

section \<open>Retained work\<close>

interpretation work: counted_reservation h_pending_work retain_work
  "\<lambda>h. map_sum id fst (release_work h)" handle_ok
proof
  fix s :: "('v, 'e) handle"
  assume ok: "handle_ok s"
  show "h_pending_work (retain_work s) = h_pending_work s + 1" by (simp add: retain_work_def Let_def)
  show "handle_ok (retain_work s)" using ok by (rule handle_ok_retain)
  show "\<exists>e. map_sum id fst (release_work s) = Inl e" if "h_pending_work s \<le> 0"
    using that by (simp add: release_work_def)
  assume "0 < h_pending_work s"
  then obtain h' q where r: "release_work s = Inr (h', q)" "h_pending_work h' = h_pending_work s - 1"
    by (cases "h_pending_work s = 1") (auto simp: release_work_def Let_def)
  with handle_ok_release [OF ok r(1)]
  show "\<exists>s'. map_sum id fst (release_work s) = Inr s' \<and> h_pending_work s' = h_pending_work s - 1 \<and> handle_ok s'"
    by auto
qed

section \<open>One drain\<close>

definition matching_invocations ::
  "('v, 'e) handle \<Rightarrow> callback list \<Rightarrow> (callback \<times> ('v, 'e) callback_args) list" where
  "matching_invocations h cs = List.map_filter
     (\<lambda>c. map_option (Pair c) (callback_args_for (cb_kind c) (h_body_error h) (h_body_result h))) cs"

lemma matching_invocations_simps [simp]:
  "matching_invocations h [] = []"
  "matching_invocations h (c # cs) =
     (case callback_args_for (cb_kind c) (h_body_error h) (h_body_result h) of
        None \<Rightarrow> matching_invocations h cs | Some a \<Rightarrow> (c, a) # matching_invocations h cs)"
  by (auto simp: matching_invocations_def List.map_filter_def split: option.splits)

lemma matching_invocations_cong:
  "h_body_error h' = h_body_error h \<Longrightarrow> h_body_result h' = h_body_result h \<Longrightarrow>
   matching_invocations h' cs = matching_invocations h cs"
  by (simp add: matching_invocations_def)

lemma drain_callbacks_spec:
  "drain_callbacks exec h = (matching_invocations h (h_callbacks h),
     h\<lparr>h_callbacks := [], h_callback_drain_active := False,
       h_settlement_errors := h_settlement_errors h @
         List.map_filter (\<lambda>(c, a). exec c a) (matching_invocations h (h_callbacks h))\<rparr>)"
proof (induction exec h rule: drain_callbacks.induct)
  case (1 exec h)
  show ?case
  proof (cases "h_callbacks h")
    case Nil
    then show ?thesis
      by (subst drain_callbacks.simps) (simp add: drain_pop_def List.map_filter_def)
  next
    case (Cons c cs)
    show ?thesis
    proof (cases "callback_args_for (cb_kind c) (h_body_error h) (h_body_result h)")
      case None
      then have pop: "drain_pop h = (Drain_skip c, h\<lparr>h_callbacks := cs\<rparr>)"
        by (simp add: drain_pop_def Cons)
      show ?thesis
        using "1.IH"(1) [OF pop [symmetric] refl] None Cons
        by (subst drain_callbacks.simps)
           (simp add: pop matching_invocations_cong [of "h\<lparr>h_callbacks := cs\<rparr>" h])
    next
      case (Some a)
      then have pop: "drain_pop h = (Drain_invoke c a, h\<lparr>h_callbacks := cs\<rparr>)"
        by (simp add: drain_pop_def Cons)
      show ?thesis
      proof (cases "exec c a")
        case None
        then show ?thesis
          using "1.IH"(2) [OF pop [symmetric] refl] Some Cons
          by (subst drain_callbacks.simps)
             (simp add: pop matching_invocations_cong [of "h\<lparr>h_callbacks := cs\<rparr>" h] List.map_filter_def)
      next
        case e: (Some e)
        then show ?thesis
          using "1.IH"(2) [OF pop [symmetric] refl] Some Cons
          by (subst drain_callbacks.simps)
             (simp add: pop record_settlement_error_def List.map_filter_def
               matching_invocations_cong [of "h\<lparr>h_callbacks := cs, h_settlement_errors := _\<rparr>" h])
      qed
    qed
  qed
qed

section \<open>Drains interleaved with registrations\<close>

text \<open>
  One handle with the drain coroutines running for it, every callback ever registered and
  every callback a drain has taken from the queue, both in order.
\<close>

record ('v, 'e) drain_system =
  ds_handle :: "('v, 'e) handle"
  ds_drains :: nat
  ds_registered :: "callback list"
  ds_taken :: "callback list"

definition drain_system_start :: "('v, 'e) drain_system \<Rightarrow> bool" where
  "drain_system_start \<sigma> \<longleftrightarrow> (\<exists>origin kind. ds_handle \<sigma> = handle_init origin kind)
     \<and> ds_drains \<sigma> = 0 \<and> ds_registered \<sigma> = [] \<and> ds_taken \<sigma> = []"

inductive drain_system_step :: "('v, 'e) drain_system \<Rightarrow> ('v, 'e) drain_system \<Rightarrow> bool" where
  initial_registration: "\<not> h_body_completed (ds_handle \<sigma>) \<Longrightarrow>
     drain_system_step \<sigma> (\<sigma>\<lparr>ds_handle := register_initial_callback k f c (ds_handle \<sigma>),
       ds_registered := ds_registered \<sigma> @ [\<lparr>cb_kind = k, cb_function = f, cb_context = c\<rparr>]\<rparr>)"
| body_ends: "(h', start, cs) \<in> {set_body_result r (ds_handle \<sigma>), set_body_exception e ign (ds_handle \<sigma>),
       set_body_cancelled e (ds_handle \<sigma>)} \<Longrightarrow>
     drain_system_step \<sigma> (\<sigma>\<lparr>ds_handle := h', ds_drains := ds_drains \<sigma> + of_bool start\<rparr>)"
| late_registration: "register_callback_locked k f c (ds_handle \<sigma>) = (h', start) \<Longrightarrow>
     drain_system_step \<sigma> (\<sigma>\<lparr>ds_handle := h', ds_drains := ds_drains \<sigma> + of_bool start,
       ds_registered := ds_registered \<sigma> @ [\<lparr>cb_kind = k, cb_function = f, cb_context = c\<rparr>]\<rparr>)"
| late_registration_fails: "register_callback_locked k f c (ds_handle \<sigma>) = (h', True) \<Longrightarrow>
     drain_system_step \<sigma> (\<sigma>\<lparr>ds_handle := register_callback_rollback h'\<rparr>)"
| drain_takes: "0 < ds_drains \<sigma> \<Longrightarrow> drain_pop (ds_handle \<sigma>) = (act, h') \<Longrightarrow>
     act = Drain_skip c \<or> act = Drain_invoke c a \<Longrightarrow>
     drain_system_step \<sigma> (\<sigma>\<lparr>ds_handle := h', ds_taken := ds_taken \<sigma> @ [c]\<rparr>)"
| drain_ends: "0 < ds_drains \<sigma> \<Longrightarrow> drain_pop (ds_handle \<sigma>) = (Drain_finished, h') \<Longrightarrow>
     drain_system_step \<sigma> (\<sigma>\<lparr>ds_handle := h', ds_drains := ds_drains \<sigma> - 1\<rparr>)"
| callback_raises: "drain_system_step \<sigma> (\<sigma>\<lparr>ds_handle := record_settlement_error e (ds_handle \<sigma>)\<rparr>)"
| work_retained: "drain_system_step \<sigma> (\<sigma>\<lparr>ds_handle := retain_work (ds_handle \<sigma>)\<rparr>)"
| work_released: "release_work (ds_handle \<sigma>) = Inr (h', q) \<Longrightarrow> drain_system_step \<sigma> (\<sigma>\<lparr>ds_handle := h'\<rparr>)"

definition drain_inv :: "('v, 'e) drain_system \<Rightarrow> bool" where
  "drain_inv \<sigma> \<longleftrightarrow> handle_ok (ds_handle \<sigma>)
     \<and> ds_drains \<sigma> = of_bool (h_callback_drain_active (ds_handle \<sigma>))
     \<and> ds_registered \<sigma> = ds_taken \<sigma> @ h_callbacks (ds_handle \<sigma>)"

lemma drain_pop_ok: "handle_ok h \<Longrightarrow> h_callback_drain_active h \<Longrightarrow> handle_ok (snd (drain_pop h))"
  by (auto simp: handle_ok_defs drain_pop_def split: list.splits option.splits)

lemma finish_body_drain:
  "finish_body h = (h', start, cs) \<Longrightarrow> h_callbacks h' = h_callbacks h
   \<and> (h_callback_drain_active h' \<longleftrightarrow> h_callback_drain_active h \<or> start)
   \<and> (start \<longrightarrow> \<not> h_callback_drain_active h)"
  by (auto simp: finish_body_def activate_callback_drain_locked_def take_done_callbacks_locked_def split: if_splits)

lemma set_body_drain:
  assumes "(h', start, cs) \<in> {set_body_result r h, set_body_exception e ign h, set_body_cancelled e h}"
  shows "h_callbacks h' = h_callbacks h
   \<and> (h_callback_drain_active h' \<longleftrightarrow> h_callback_drain_active h \<or> start)
   \<and> (start \<longrightarrow> \<not> h_callback_drain_active h)"
  using assms
  by (auto simp: set_body_result_def set_body_exception_def set_body_cancelled_def
           split: if_splits dest!: finish_body_drain [OF sym])

lemma drain_system_step_inv:
  assumes "drain_inv \<sigma>" "drain_system_step \<sigma> \<tau>"
  shows "drain_inv \<tau>"
  using assms(2,1)
proof (cases rule: drain_system_step.cases)
  case (initial_registration k f c)
  with assms(1) show ?thesis
    using handle_ok_initial [of "ds_handle \<sigma>" k f c] by (simp add: drain_inv_def register_initial_callback_def)
next
  case (body_ends h' start cs r e ign)
  then have "handle_ok h'" using assms(1) handle_ok_set_body [of "ds_handle \<sigma>"]
    by (auto simp: drain_inv_def) (metis fst_conv)+
  with body_ends assms(1) set_body_drain [OF body_ends(2)] show ?thesis
    by (auto simp: drain_inv_def)
next
  case (late_registration k f c h' start)
  with assms(1) handle_ok_register [of "ds_handle \<sigma>" k f c] show ?thesis
    by (auto simp: drain_inv_def register_callback_locked_def activate_callback_drain_locked_def Let_def
             split: if_splits)
next
  case (late_registration_fails k f c h')
  with assms(1) register_rollback_id [of "ds_handle \<sigma>" k f c h'] show ?thesis
    by (simp add: drain_inv_def)
next
  case (drain_takes act h' c a)
  with assms(1) drain_pop_ok [of "ds_handle \<sigma>"] show ?thesis
    by (auto simp: drain_inv_def drain_pop_def split: list.splits option.splits)
next
  case (drain_ends h')
  with assms(1) drain_pop_ok [of "ds_handle \<sigma>"] show ?thesis
    by (auto simp: drain_inv_def drain_pop_def split: list.splits option.splits)
next
  case (callback_raises e)
  with assms(1) handle_ok_record [of "ds_handle \<sigma>" e] show ?thesis
    by (simp add: drain_inv_def record_settlement_error_def)
next
  case work_retained
  with assms(1) handle_ok_retain [of "ds_handle \<sigma>"] show ?thesis
    by (auto simp: drain_inv_def retain_work_def Let_def)
next
  case (work_released h' q)
  with assms(1) handle_ok_release [of "ds_handle \<sigma>" h' q] show ?thesis
    by (auto simp: drain_inv_def release_work_def Let_def split: if_splits)
qed

interpretation drains: inductive_invariant drain_system_start drain_system_step drain_inv
proof
  show "drain_inv \<sigma>" if "drain_system_start \<sigma>" for \<sigma> :: "('v, 'e) drain_system"
    using that by (auto simp: drain_system_start_def drain_inv_def handle_ok_init) (simp add: handle_init_def)+
qed (rule drain_system_step_inv)

section \<open>Settlement errors\<close>

text \<open>Reporting is incremental: what is taken now and what a later take returns is everything once.\<close>

lemma take_unreported_append:
  assumes "handle_ok h"
  shows "fst (take_unreported_stage_errors (foldl (\<lambda>h e. record_settlement_error e h)
            (snd (take_unreported_stage_errors h)) es)) = foreign_errors h es"
proof -
  let ?h0 = "snd (take_unreported_stage_errors h)"
  have "h_settlement_errors (foldl (\<lambda>h e. record_settlement_error e h) g es) = h_settlement_errors g @ es
     \<and> h_stage_error_cursor (foldl (\<lambda>h e. record_settlement_error e h) g es) = h_stage_error_cursor g
     \<and> h_body_error (foldl (\<lambda>h e. record_settlement_error e h) g es) = h_body_error g" for g :: "('a, 'b) handle"
    by (induction es arbitrary: g) (auto simp: record_settlement_error_def)
  from this [of ?h0] show ?thesis
    by (simp add: take_unreported_stage_errors_def foreign_errors_def)
qed

section \<open>The history of a handle\<close>

text \<open>What a later moment of the same handle keeps: the outcome, the callbacks registered and taken,
  the errors recorded and the number of settlement epochs.\<close>

definition same_outcome :: "('v, 'e) handle \<Rightarrow> ('v, 'e) handle \<Rightarrow> bool" where
  "same_outcome h h' \<longleftrightarrow> h_body_completed h' \<and> h_body_future h' = h_body_future h
     \<and> h_body_error h' = h_body_error h \<and> h_body_result h' = h_body_result h"

definition history_le :: "('v, 'e) drain_system \<Rightarrow> ('v, 'e) drain_system \<Rightarrow> bool" where
  "history_le \<sigma> \<tau> \<longleftrightarrow> (h_body_completed (ds_handle \<sigma>) \<longrightarrow> same_outcome (ds_handle \<sigma>) (ds_handle \<tau>))
     \<and> prefix (ds_registered \<sigma>) (ds_registered \<tau>) \<and> prefix (ds_taken \<sigma>) (ds_taken \<tau>)
     \<and> prefix (h_settlement_errors (ds_handle \<sigma>)) (h_settlement_errors (ds_handle \<tau>))
     \<and> h_settlement_epoch (ds_handle \<sigma>) \<le> h_settlement_epoch (ds_handle \<tau>)"

definition keeps_history :: "('v, 'e) handle \<Rightarrow> ('v, 'e) handle \<Rightarrow> bool" where
  "keeps_history h h' \<longleftrightarrow> (h_body_completed h \<longrightarrow> same_outcome h h')
     \<and> prefix (h_settlement_errors h) (h_settlement_errors h') \<and> h_settlement_epoch h \<le> h_settlement_epoch h'"

lemma history_leI:
  "keeps_history (ds_handle \<sigma>) (ds_handle \<tau>) \<Longrightarrow> prefix (ds_registered \<sigma>) (ds_registered \<tau>) \<Longrightarrow>
   prefix (ds_taken \<sigma>) (ds_taken \<tau>) \<Longrightarrow> history_le \<sigma> \<tau>"
  by (simp add: history_le_def keeps_history_def)

lemma keeps_history_set_body:
  assumes "(h', start, cs) \<in> {set_body_result r h, set_body_exception e ign h, set_body_cancelled e h}"
  shows "keeps_history h h'"
  using assms
  by (auto simp: keeps_history_def same_outcome_def set_body_result_def set_body_exception_def set_body_cancelled_def
      finish_body_def activate_callback_drain_locked_def take_done_callbacks_locked_def split: if_splits)

lemma keeps_history_ops:
  "keeps_history h (register_initial_callback k f c h)"
  "register_callback_locked k f c h = (h', start) \<Longrightarrow> keeps_history h h'"
  "drain_pop h = (act, h') \<Longrightarrow> keeps_history h h'"
  "keeps_history h (record_settlement_error e h)"
  "keeps_history h (retain_work h)"
  "release_work h = Inr (h', q) \<Longrightarrow> keeps_history h h'"
  by (auto simp: keeps_history_def same_outcome_def register_initial_callback_def register_callback_locked_def
      activate_callback_drain_locked_def drain_pop_def record_settlement_error_def retain_work_def release_work_def
      Let_def split: if_splits list.splits option.splits)

lemma drain_step_history:
  assumes "drain_inv \<sigma>" "drain_system_step \<sigma> \<tau>"
  shows "history_le \<sigma> \<tau>"
  using assms(2,1)
proof (cases rule: drain_system_step.cases)
  case (body_ends h' start cs r e ign)
  with keeps_history_set_body [OF body_ends(2)] show ?thesis by (auto intro: history_leI)
next
  case (late_registration_fails k f c h')
  with assms(1) register_rollback_id [of "ds_handle \<sigma>" k f c h'] show ?thesis
    by (auto simp: drain_inv_def history_le_def same_outcome_def)
qed (auto intro!: history_leI intro: keeps_history_ops)

interpretation history: monotone_system drain_system_start drain_system_step drain_inv history_le
proof
  show "history_le \<sigma> \<sigma>" for \<sigma> :: "('v, 'e) drain_system"
    by (simp add: history_le_def same_outcome_def)
  show "history_le \<rho> \<tau>" if "history_le \<rho> \<sigma>" "history_le \<sigma> \<tau>" for \<rho> \<sigma> \<tau> :: "('v, 'e) drain_system"
    using that by (auto simp: history_le_def same_outcome_def intro: prefix_order.trans)
qed (rule drain_step_history)

end
