(* ===== verification/Handle_Props.thy ===== *)
theory Handle_Props
  imports Handle_Facts
begin

text \<open>
  What a handle promises: one outcome that never changes, callbacks that run once each, in order
  and never concurrently, and a settlement barrier that opens exactly when no work is left.
\<close>

text \<open>The body outcome is a latch: the first of a result, an exception (recorded or ignored) and a
  cancellation decides the future for good, and every later one changes nothing, starts no
  drain and runs no done callback.\<close>

theorem body_outcome_is_latched:
  assumes "\<not> h_body_completed h"
  shows "h_body_future (fst (set_body_result v h)) = Resolved (Some v)
    \<and> h_body_future (fst (set_body_exception e False h)) = Failed e
    \<and> h_body_future (fst (set_body_exception e True h)) = Resolved None
    \<and> h_body_future (fst (set_body_cancelled e h)) = Was_cancelled
    \<and> (\<forall>h'. h' \<in> {fst (set_body_result v h), fst (set_body_exception e b h), fst (set_body_cancelled e h)} \<longrightarrow>
         set_body_result v' h' = (h', False, []) \<and> set_body_exception e' b' h' = (h', False, [])
         \<and> set_body_cancelled e' h' = (h', False, []))"
  using assms
  by (auto simp: set_body_result_def set_body_exception_def set_body_cancelled_def finish_body_def
      activate_callback_drain_locked_def take_done_callbacks_locked_def)

theorem body_outcome_is_latched_witness:
  "h_body_future (fst (set_body_cancelled (1::nat) (fst (set_body_result (5::nat) (handle_init ''go:f'' Backend_stage)))))
     = Resolved (Some 5)"
proof -
  let ?h = "handle_init ''go:f'' Backend_stage :: (nat, nat) handle"
  have n: "\<not> h_body_completed ?h" by (simp add: handle_init_def)
  have "h_body_future (fst (set_body_result 5 ?h)) = Resolved (Some 5)"
    "set_body_cancelled 1 (fst (set_body_result 5 ?h)) = (fst (set_body_result 5 ?h), False, [])"
    using body_outcome_is_latched [OF n, of 5] by blast+
  then show ?thesis by simp
qed

lemma taken_only_after_body:
  "reachable drain_system_start drain_system_step \<sigma> \<Longrightarrow> ds_taken \<sigma> \<noteq> [] \<longrightarrow> h_body_completed (ds_handle \<sigma>)"
proof (induction rule: reachable.induct)
  case (reach_start \<sigma>)
  then show ?case by (simp add: drain_system_start_def)
next
  case (reach_step \<sigma> \<tau>)
  have inv: "drain_inv \<sigma>" by (rule drains.reachable_inv [OF reach_step.hyps(1)])
  from reach_step.hyps(2) reach_step.IH show ?case
  proof cases
    case (body_ends h' start cs r e ign)
    then show ?thesis
      using reach_step.IH
      by (auto simp: set_body_result_def set_body_exception_def set_body_cancelled_def finish_body_def
          activate_callback_drain_locked_def take_done_callbacks_locked_def split: if_splits)
  next
    case (late_registration k f c h' start)
    then show ?thesis
      using reach_step.IH
      by (auto simp: register_callback_locked_def activate_callback_drain_locked_def Let_def split: if_splits)
  next
    case (late_registration_fails k f c h')
    then show ?thesis
      using reach_step.IH
      by (auto simp: register_callback_locked_def activate_callback_drain_locked_def register_callback_rollback_def
          Let_def split: if_splits)
  next
    case (drain_takes act h' c a)
    then have "h_body_completed (ds_handle \<sigma>)" using inv by (auto simp: drain_inv_def handle_ok_defs)
    with drain_takes show ?thesis by (auto simp: drain_pop_def split: list.splits option.splits)
  qed (auto simp: register_initial_callback_def drain_pop_def record_settlement_error_def retain_work_def release_work_def
      Let_def split: list.splits option.splits if_splits)
qed


definition fresh_drain :: "(nat, nat) drain_system" where
  "fresh_drain = \<lparr>ds_handle = handle_init ''go:f'' Backend_stage, ds_drains = 0, ds_registered = [], ds_taken = []\<rparr>"

definition one_callback :: "(nat, nat) drain_system" where
  "one_callback = fresh_drain\<lparr>ds_handle := register_initial_callback On_success 3 0 (ds_handle fresh_drain),
     ds_registered := [\<lparr>cb_kind = On_success, cb_function = 3, cb_context = 0\<rparr>]\<rparr>"

lemma one_callback_reachable: "reachable drain_system_start drain_system_step one_callback"
proof -
  have "drain_system_start fresh_drain"
    unfolding drain_system_start_def fresh_drain_def by auto
  moreover have "drain_system_step fresh_drain one_callback"
    using initial_registration [of fresh_drain On_success 3 0] by (simp add: one_callback_def fresh_drain_def handle_init_def)
  ultimately show ?thesis by (blast intro: reach_start reach_step)
qed


text \<open>The history of a handle is final: along every interleaving of registrations, the end of the body,
  drains, callback errors and retained work, an outcome that is decided stays the one every wait and
  every callback sees, the callbacks already run stay run in that order, recorded errors are never
  lost or reordered, and a settlement barrier that was replaced never comes back.\<close>

theorem handle_history_is_final:
  assumes "reachable drain_system_start drain_system_step \<sigma>" "drain_system_step\<^sup>*\<^sup>* \<sigma> \<tau>"
  shows "(h_body_completed (ds_handle \<sigma>) \<longrightarrow> same_outcome (ds_handle \<sigma>) (ds_handle \<tau>))
    \<and> (\<exists>later. ds_taken \<tau> = ds_taken \<sigma> @ later)
    \<and> (\<exists>later. h_settlement_errors (ds_handle \<tau>) = h_settlement_errors (ds_handle \<sigma>) @ later)
    \<and> h_settlement_epoch (ds_handle \<sigma>) \<le> h_settlement_epoch (ds_handle \<tau>)"
  using history.reachable_le [OF assms] by (auto simp: history_le_def prefix_def)

definition body_done_then_error :: "(nat, nat) drain_system \<times> (nat, nat) drain_system" where
  "body_done_then_error =
     (let done = fst (set_body_result 5 (ds_handle one_callback)) in
      (one_callback\<lparr>ds_handle := done, ds_drains := 1\<rparr>,
       one_callback\<lparr>ds_drains := 1, ds_handle := record_settlement_error 9 done\<rparr>))"

lemma body_done_then_error_steps:
  "drain_system_step one_callback (fst body_done_then_error)"
  "drain_system_step (fst body_done_then_error) (snd body_done_then_error)"
proof -
  have "set_body_result 5 (ds_handle one_callback) = (fst (set_body_result 5 (ds_handle one_callback)), True, [])"
    by (simp add: set_body_result_def finish_body_def activate_callback_drain_locked_def one_callback_def fresh_drain_def
        take_done_callbacks_locked_def run_done_callbacks_def handle_init_def register_initial_callback_def)
  then show "drain_system_step one_callback (fst body_done_then_error)"
    using body_ends [of "fst (set_body_result 5 (ds_handle one_callback))" True "[]" 5 one_callback 0 False]
    by (simp add: body_done_then_error_def Let_def one_callback_def fresh_drain_def)
  show "drain_system_step (fst body_done_then_error) (snd body_done_then_error)"
    using callback_raises [of "fst body_done_then_error" 9] by (simp add: body_done_then_error_def Let_def)
qed

theorem handle_history_is_final_witness:
  "same_outcome (ds_handle (fst body_done_then_error)) (ds_handle (snd body_done_then_error))
   \<and> h_body_future (ds_handle (fst body_done_then_error)) = Resolved (Some 5)"
proof -
  have "h_body_completed (ds_handle (fst body_done_then_error))"
    "h_body_future (ds_handle (fst body_done_then_error)) = Resolved (Some 5)"
    by (simp_all add: body_done_then_error_def Let_def set_body_result_def finish_body_def take_done_callbacks_locked_def
        activate_callback_drain_locked_def one_callback_def fresh_drain_def handle_init_def register_initial_callback_def)
  with handle_history_is_final [OF reach_step [OF one_callback_reachable body_done_then_error_steps(1)]
      r_into_rtranclp [where r = drain_system_step, OF body_done_then_error_steps(2)]]
  show ?thesis by blast
qed

text \<open>A drain invokes exactly the callbacks that match the outcome, in order and with the right
  argument (the result for success, the error for error, nothing for finally), leaves the queue
  empty with no drain active, and appends the exceptions they raise, in order, to the settlement
  errors.\<close>

theorem drain_invokes_matching_callbacks:
  "drain_callbacks exec h =
     (List.map_filter (\<lambda>c. map_option (Pair c) (callback_args_for (cb_kind c) (h_body_error h) (h_body_result h))) (h_callbacks h),
      h\<lparr>h_callbacks := [], h_callback_drain_active := False,
        h_settlement_errors := h_settlement_errors h @ List.map_filter (\<lambda>(c, a). exec c a)
          (List.map_filter (\<lambda>c. map_option (Pair c) (callback_args_for (cb_kind c) (h_body_error h) (h_body_result h)))
             (h_callbacks h))\<rparr>)"
  by (simp add: drain_callbacks_spec matching_invocations_def)

text \<open>Settlement follows the work: from a well-formed handle, a sequence of retains and releases
  that never releases more than is held succeeds, ends with the right count, and the settlement
  barrier is open exactly when no work is left; any other sequence fails at the release that
  finds nothing to release.\<close>

theorem settlement_follows_retained_work:
  fixes h :: "('v, 'e) handle"
  assumes "handle_ok h"
  shows "(never_below (h_pending_work h) ops \<longrightarrow>
      (\<exists>h'. count_run retain_work (\<lambda>h. map_sum id fst (release_work h)) ops h = Inr h'
         \<and> h_pending_work h' = h_pending_work h + count_delta ops
         \<and> (h_settlement_done h' \<longleftrightarrow> h_pending_work h' = 0)))
    \<and> (\<not> never_below (h_pending_work h) ops \<longrightarrow>
      (\<exists>e. count_run retain_work (\<lambda>h. map_sum id fst (release_work h)) ops h = Inl e))"
  using work.run_succeeds [OF assms] work.run_raises [OF assms] by (fastforce simp: handle_ok_defs)

theorem settlement_follows_retained_work_witness:
  "\<exists>h'. count_run retain_work (\<lambda>h. map_sum id fst (release_work h)) [Retain, Retain, Release, Release]
     (handle_init ''go:f'' Backend_stage :: (nat, nat) handle) = Inr h' \<and> h_settlement_done h'"
  using settlement_follows_retained_work [OF handle_ok_init [of "''go:f''" Backend_stage], of "[Retain, Retain, Release, Release]", where 'v = nat and 'e = nat]
  by (auto simp: handle_init_def)

text \<open>\<open>get\<close> cannot tell a body's own \<open>TimeoutError\<close> from an expired wait: when the body failed with
  an exception that is a \<open>TimeoutError\<close>, \<open>exception()\<close> returns it, but \<open>get()\<close> raises the same error
  as for a body that has not ended, and \<open>cancel()\<close> of remaining body tasks answers \<open>False\<close>.\<close>

theorem body_timeout_error_masked_by_get:
  assumes "h_body_future h = Failed e" "is_timeout e" "\<forall>l. \<not> loop_closed l"
  shows "handle_get is_timeout running (h_body_future h) h = Inl (TimeoutError [])
    \<and> handle_exception running (h_body_future h) h = Inr (Some e)
    \<and> (h_owned_body_tasks h \<noteq> [] \<longrightarrow>
        (\<exists>h' call. handle_cancel is_timeout loop_closed running timeout (h_body_future h) h = Inr (False, h', call)))"
  using assms
  by (auto simp: handle_get_def handle_exception_def handle_cancel_def cancel_request_def body_done_def
      ensure_not_owner_loop_sync_wait_def)

theorem body_timeout_error_masked_by_get_witness:
  "handle_get (\<lambda>e. e = 1) None (Failed 1)
     ((handle_init ''go:f'' Backend_stage :: (nat, nat) handle)\<lparr>h_body_completed := True, h_body_future := Failed 1\<rparr>)
   = Inl (TimeoutError [])"
  using body_timeout_error_masked_by_get [of "(handle_init ''go:f'' Backend_stage :: (nat, nat) handle)
      \<lparr>h_body_completed := True, h_body_future := Failed 1\<rparr>" 1 "\<lambda>e. e = 1" "\<lambda>_. False" None] by simp

text \<open>A synchronous wait on the loop that must produce the answer is refused, never entered: on
  the handle's owner loop, while the body is pending, \<open>get\<close>, \<open>exception\<close> and a waiting \<open>cancel\<close> raise
  \<open>StageLifecycleError\<close> whatever would have been the outcome; a zero-timeout \<open>cancel\<close> is allowed and
  records the request.\<close>

theorem owner_loop_wait_refused:
  assumes "h_owner_loop h = Some l" "\<not> body_done h" "\<not> loop_closed l"
  shows "handle_get is_timeout (Some l) final h = Inl StageLifecycleError
    \<and> handle_exception (Some l) final h = Inl StageLifecycleError
    \<and> handle_cancel is_timeout loop_closed (Some l) None final h = Inl StageLifecycleError
    \<and> (\<exists>b call. handle_cancel is_timeout loop_closed (Some l) (Some 0) final h = Inr (b, h\<lparr>h_cancel_requested := True\<rparr>, Some call))"
  using assms
  by (auto simp: handle_get_def handle_exception_def handle_cancel_def cancel_request_def ensure_not_owner_loop_sync_wait_def)

theorem owner_loop_wait_refused_witness:
  "handle_get (\<lambda>_. False) (Some 4) Pending ((handle_init ''go:f'' Backend_caller :: (nat, nat) handle)\<lparr>h_owner_loop := Some 4\<rparr>)
   = Inl StageLifecycleError"
  using owner_loop_wait_refused [of "(handle_init ''go:f'' Backend_caller :: (nat, nat) handle)\<lparr>h_owner_loop := Some 4\<rparr>" 4
      "\<lambda>_. False" "\<lambda>_. False" Pending]
  by (simp add: body_done_def handle_init_def)

end
