(* ===== verification/Carrier_Model.thy ===== *)
theory Carrier_Model
  imports Handle_Model "HOL-Library.Product_Lexorder"
begin

text \<open>
  \<open>_runtime.py\<close>: generations, carrier slots and the process-wide pool. A generation object
  is shared by its slot, by leases and by execution contexts, so it lives in a store
  indexed by its (unique) generation id, which is its identity. Slots are found by their
  id. A section under \<open>_admission_lock\<close> or \<open>_pool_lock\<close> is one function on the pool;
  \<open>_run_generation\<close>, which runs on the control thread, is cut at its lock sections. The
  callbacks scheduled on a generation's loop are its ready queue. The one-worker control
  executor of a slot is its queue of generations and the generation its worker is running.
\<close>

section \<open>State\<close>

datatype generation_state = QUEUED | STARTING | OPEN | SEALING | DRAINING | CLOSED

record submission =
  sm_handle :: nat
  sm_runner :: callable_ref
  sm_owner :: bool
  sm_context :: nat
  sm_phase :: work_phase
  sm_blocked :: "nat set"

datatype loop_job = Start_submission submission | Set_seal_event

record generation =
  gen_id :: nat
  gen_slot_id :: nat
  gen_state :: generation_state
  gen_reservations :: int
  gen_loop :: "loop_ref option"
  gen_seal_event :: "bool option"
  gen_pending_submissions :: "submission list"
  gen_ready :: "loop_job list"

record slot =
  slot_id :: nat
  slot_current :: "nat option"
  slot_next :: "nat option"
  slot_on_idle :: bool
  slot_executor_open :: bool
  slot_control_queue :: "nat list"
  slot_worker :: "nat option"

record carrier =
  car_gens :: "nat \<Rightarrow> generation option"
  car_generation_counter :: nat
  car_slot_counter :: nat
  car_selection_cursor :: nat
  car_loop_count :: nat
  car_settings_frozen :: bool
  car_slots :: "slot list"
  car_escape_slots :: "slot list"

text \<open>\<open>_ExecutionContext\<close> and the caller's view: the \<open>_active_execution\<close> variable and
  \<open>asyncio.get_running_loop()\<close> (\<open>None\<close>: it raises).\<close>

record execution_context =
  ec_generation :: nat
  ec_handle :: nat
  ec_phase :: work_phase
  ec_blocked :: "nat set"

record caller =
  cl_execution :: "execution_context option"
  cl_running_loop :: "loop_ref option"

section \<open>Store access\<close>

definition all_slots :: "carrier \<Rightarrow> slot list" where
  "all_slots c = car_slots c @ car_escape_slots c"

definition find_slot :: "nat \<Rightarrow> carrier \<Rightarrow> slot option" where
  "find_slot sid c = find (\<lambda>s. slot_id s = sid) (all_slots c)"

definition put_slot :: "slot \<Rightarrow> carrier \<Rightarrow> carrier" where
  "put_slot s c = c\<lparr>
     car_slots := map (\<lambda>s'. if slot_id s' = slot_id s then s else s') (car_slots c),
     car_escape_slots := map (\<lambda>s'. if slot_id s' = slot_id s then s else s') (car_escape_slots c)\<rparr>"

definition put_gen :: "generation \<Rightarrow> carrier \<Rightarrow> carrier" where
  "put_gen g c = c\<lparr>car_gens := (car_gens c)(gen_id g \<mapsto> g)\<rparr>"

definition slot_gens :: "carrier \<Rightarrow> slot \<Rightarrow> generation list" where
  "slot_gens c s = List.map_filter (\<lambda>x. case x of None \<Rightarrow> None | Some i \<Rightarrow> car_gens c i)
     [slot_current s, slot_next s]"

definition reservable :: "generation_state \<Rightarrow> bool" where
  "reservable st \<longleftrightarrow> st = QUEUED \<or> st = STARTING \<or> st = OPEN"

section \<open>Carrier slots\<close>

definition new_generation :: "nat \<Rightarrow> nat \<Rightarrow> generation" where
  "new_generation i sid = \<lparr>gen_id = i, gen_slot_id = sid, gen_state = QUEUED, gen_reservations = 0,
     gen_loop = None, gen_seal_event = None, gen_pending_submissions = [], gen_ready = []\<rparr>"

text \<open>\<open>_create_generation_locked\<close>: on a shut-down control executor the slot is put back.\<close>

definition create_generation_locked :: "bool \<Rightarrow> slot \<Rightarrow> carrier \<Rightarrow> ('e exc + nat) \<times> carrier" where
  "create_generation_locked as_next s c =
     (let i = Suc (car_generation_counter c);
          c1 = put_gen (new_generation i (slot_id s)) (c\<lparr>car_generation_counter := i\<rparr>);
          s1 = (if as_next then s\<lparr>slot_next := Some i\<rparr> else s\<lparr>slot_current := Some i\<rparr>)
      in if slot_executor_open s
         then (Inr i, put_slot (s1\<lparr>slot_control_queue := slot_control_queue s1 @ [i]\<rparr>) c1)
         else (Inl StageLifecycleError,
               put_slot (if as_next then s1\<lparr>slot_next := None\<rparr> else s1\<lparr>slot_current := None\<rparr>) c1))"

definition bump_reservations :: "nat \<Rightarrow> carrier \<Rightarrow> carrier" where
  "bump_reservations i c =
     (case car_gens c i of
        None \<Rightarrow> c
      | Some g \<Rightarrow> put_gen (g\<lparr>gen_reservations := gen_reservations g + 1\<rparr>) c)"

definition gen_state_of :: "carrier \<Rightarrow> nat \<Rightarrow> generation_state" where
  "gen_state_of c i = (case car_gens c i of None \<Rightarrow> CLOSED | Some g \<Rightarrow> gen_state g)"

definition reserve_locked :: "nat option \<Rightarrow> slot \<Rightarrow> carrier \<Rightarrow> ('e exc + nat) \<times> carrier" where
  "reserve_locked preferred s c =
     (case (case preferred of
              Some p \<Rightarrow>
                (if \<not> (slot_current s = Some p \<or> slot_next s = Some p) then (Inl StageLifecycleError, c)
                 else if \<not> reservable (gen_state_of c p) then (Inl StageLifecycleError, c)
                 else (Inr p, c))
            | None \<Rightarrow>
                (case slot_current s of
                   None \<Rightarrow> create_generation_locked False s c
                 | Some i \<Rightarrow>
                     (if reservable (gen_state_of c i) then (Inr i, c)
                      else case slot_next s of
                             Some j \<Rightarrow> (Inr j, c)
                           | None \<Rightarrow> create_generation_locked True s c))) of
        (Inl e, c') \<Rightarrow> (Inl e, c')
      | (Inr i, c') \<Rightarrow> (Inr i, bump_reservations i c'))"

definition slot_acquire_lease :: "nat option \<Rightarrow> nat \<Rightarrow> carrier \<Rightarrow> ('e exc + nat) \<times> carrier" where
  "slot_acquire_lease preferred sid c =
     (case find_slot sid c of None \<Rightarrow> (Inl StageLifecycleError, c) | Some s \<Rightarrow> reserve_locked preferred s c)"

definition retain_reservation :: "nat \<Rightarrow> carrier \<Rightarrow> 'e exc + carrier" where
  "retain_reservation i c =
     (case car_gens c i of
        None \<Rightarrow> Inl StageLifecycleError
      | Some g \<Rightarrow>
          (if \<not> (gen_state g = STARTING \<or> gen_state g = OPEN) then Inl StageLifecycleError
           else Inr (put_gen (g\<lparr>gen_reservations := gen_reservations g + 1\<rparr>) c)))"

text \<open>\<open>_release_reservation\<close>: the last release seals the generation and wakes its loop.\<close>

definition release_gen :: "generation \<Rightarrow> 'e exc + generation" where
  "release_gen g =
     (if gen_reservations g \<le> 0 then Inl StageLifecycleError
      else let g1 = g\<lparr>gen_reservations := gen_reservations g - 1\<rparr> in
        if gen_reservations g1 = 0
        then let g2 = (if reservable (gen_state g1) then g1\<lparr>gen_state := SEALING\<rparr> else g1) in
          Inr (if gen_loop g2 \<noteq> None \<and> gen_seal_event g2 \<noteq> None
               then g2\<lparr>gen_ready := gen_ready g2 @ [Set_seal_event]\<rparr> else g2)
        else Inr g1)"

definition release_reservation :: "nat \<Rightarrow> carrier \<Rightarrow> 'e exc + carrier" where
  "release_reservation i c =
     (case car_gens c i of
        None \<Rightarrow> Inl StageLifecycleError
      | Some g \<Rightarrow> (case release_gen g of Inl e \<Rightarrow> Inl e | Inr g' \<Rightarrow> Inr (put_gen g' c)))"

text \<open>
  \<open>_CarrierSlot.submit\<close>. The handle's work is retained first and released again when the
  reservation fails; the boolean says that the release made the handle quiescent.
\<close>

definition enqueue_submission :: "submission \<Rightarrow> generation \<Rightarrow> generation" where
  "enqueue_submission sm g =
     (if gen_loop g = None
      then g\<lparr>gen_pending_submissions := gen_pending_submissions g @ [sm]\<rparr>
      else g\<lparr>gen_ready := gen_ready g @ [Start_submission sm]\<rparr>)"

definition slot_submit ::
  "nat \<Rightarrow> submission \<Rightarrow> nat option \<Rightarrow> ('v, 'e) handle \<Rightarrow> carrier
   \<Rightarrow> ('e exc + nat) \<times> ('v, 'e) handle \<times> bool \<times> carrier" where
  "slot_submit sid sm preferred h c =
     (let h1 = retain_work h in
      case slot_acquire_lease preferred sid c of
        (Inl e, c1) \<Rightarrow>
          (case release_work h1 of
             Inl e' \<Rightarrow> (Inl e', h1, False, c1)
           | Inr (h2, q) \<Rightarrow> (Inl e, h2, q, c1))
      | (Inr i, c1) \<Rightarrow>
          (case car_gens c1 i of
             None \<Rightarrow> (Inl StageLifecycleError, h1, False, c1)
           | Some g \<Rightarrow> (Inr i, set_generation_id i h1, False, put_gen (enqueue_submission sm g) c1)))"

definition slot_snapshot :: "carrier \<Rightarrow> slot \<Rightarrow> nat option \<times> nat option \<times> nat \<times> int" where
  "slot_snapshot c s =
     (let live = (\<lambda>x. case x of None \<Rightarrow> None
                     | Some i \<Rightarrow> if gen_state_of c i = CLOSED then None else Some i)
      in (live (slot_current s), live (slot_next s),
          length (filter (\<lambda>g. gen_loop g \<noteq> None) (slot_gens c s)),
          sum_list (map gen_reservations (filter (\<lambda>g. gen_state g \<noteq> CLOSED) (slot_gens c s)))))"

definition owns_loop :: "carrier \<Rightarrow> slot \<Rightarrow> loop_ref \<Rightarrow> bool" where
  "owns_loop c s l \<longleftrightarrow> (\<exists>g\<in>set (slot_gens c s). gen_loop g = Some l)"

definition owns_any_generation_id :: "carrier \<Rightarrow> slot \<Rightarrow> nat set \<Rightarrow> bool" where
  "owns_any_generation_id c s ids \<longleftrightarrow>
     (\<exists>g\<in>set (slot_gens c s). gen_state g \<noteq> CLOSED \<and> gen_id g \<in> ids)"

definition owns_generation :: "slot \<Rightarrow> generation \<Rightarrow> bool" where
  "owns_generation s g \<longleftrightarrow> gen_slot_id g = slot_id s"

section \<open>The control thread: \<open>_run_generation\<close>\<close>

text \<open>First lock section: the new loop is published and the pending submissions are queued.\<close>

definition start_gen :: "loop_ref \<Rightarrow> generation \<Rightarrow> generation" where
  "start_gen l g =
     g\<lparr>gen_loop := Some l, gen_seal_event := Some False,
       gen_state := (if gen_reservations g = 0 then SEALING else OPEN),
       gen_pending_submissions := [],
       gen_ready := map Start_submission (gen_pending_submissions g)
                    @ (if gen_reservations g = 0 then [Set_seal_event] else [])\<rparr>"

definition generation_start :: "loop_ref \<Rightarrow> slot \<Rightarrow> carrier \<Rightarrow> carrier" where
  "generation_start l s c =
     (case slot_control_queue s of
        [] \<Rightarrow> c
      | i # q \<Rightarrow>
          (case car_gens c i of
             None \<Rightarrow> c
           | Some g \<Rightarrow> put_gen (start_gen l g) (put_slot (s\<lparr>slot_control_queue := q, slot_worker := Some i\<rparr>) c)))"

text \<open>The loop takes its next ready callback; \<open>seal_event.set()\<close> is one of them.\<close>

definition loop_takes_job :: "generation \<Rightarrow> (loop_job \<times> generation) option" where
  "loop_takes_job g =
     (case gen_ready g of
        [] \<Rightarrow> None
      | Set_seal_event # js \<Rightarrow> Some (Set_seal_event, g\<lparr>gen_ready := js, gen_seal_event := Some True\<rparr>)
      | Start_submission sm # js \<Rightarrow> Some (Start_submission sm, g\<lparr>gen_ready := js\<rparr>))"

text \<open>Second lock section, after \<open>seal_event.wait()\<close>.\<close>

definition generation_drain :: "nat \<Rightarrow> carrier \<Rightarrow> carrier" where
  "generation_drain i c =
     (case car_gens c i of None \<Rightarrow> c | Some g \<Rightarrow> put_gen (g\<lparr>gen_state := DRAINING\<rparr>) c)"

text \<open>Last lock section: the slot promotes its queued generation; an idle escape slot retires.\<close>

definition close_gen :: "generation \<Rightarrow> generation" where
  "close_gen g = g\<lparr>gen_loop := None, gen_seal_event := None, gen_state := CLOSED\<rparr>"

definition escape_slot_idle :: "nat \<Rightarrow> carrier \<Rightarrow> carrier" where
  "escape_slot_idle sid c = c\<lparr>car_escape_slots := filter (\<lambda>s. slot_id s \<noteq> sid) (car_escape_slots c)\<rparr>"

definition generation_close :: "nat \<Rightarrow> slot \<Rightarrow> carrier \<Rightarrow> carrier" where
  "generation_close i s c =
     (case car_gens c i of
        None \<Rightarrow> c
      | Some g \<Rightarrow>
          (let c1 = put_gen (close_gen g) c;
               s1 = (if slot_current s = Some i then s\<lparr>slot_current := slot_next s, slot_next := None\<rparr> else s);
               c2 = put_slot (s1\<lparr>slot_worker := None\<rparr>) c1;
               became_idle = (slot_current s1 = None \<and> slot_next s1 = None)
           in if became_idle \<and> slot_on_idle s1 then escape_slot_idle (slot_id s) c2 else c2))"

text \<open>\<open>_start_submission\<close> on a generation whose loop is gone fails the handle's body.\<close>

definition start_submission_unavailable ::
  "'e \<Rightarrow> nat \<Rightarrow> ('v, 'e) handle \<Rightarrow> carrier \<Rightarrow> 'e exc + (('v, 'e) handle \<times> bool \<times> carrier)" where
  "start_submission_unavailable err i h c =
     (let h1 = fst (set_body_exception err False h) in
      case release_reservation i c of
        Inl e \<Rightarrow> Inl e
      | Inr c1 \<Rightarrow> (case release_work h1 of Inl e \<Rightarrow> Inl e | Inr (h2, q) \<Rightarrow> Inr (h2, q, c1)))"

text \<open>The \<open>finally\<close> of \<open>_run_submission\<close>, and \<open>_descendant_done\<close> without the scope's part.\<close>

definition submission_finished ::
  "nat \<Rightarrow> ('v, 'e) handle \<Rightarrow> carrier \<Rightarrow> 'e exc + (('v, 'e) handle \<times> bool \<times> carrier)" where
  "submission_finished i h c =
     (case release_reservation i c of
        Inl e \<Rightarrow> Inl e
      | Inr c1 \<Rightarrow> (case release_work h of Inl e \<Rightarrow> Inl e | Inr (h2, q) \<Rightarrow> Inr (h2, q, c1)))"

definition descendant_done ::
  "nat \<Rightarrow> task_ref \<Rightarrow> 'e option \<Rightarrow> ('v, 'e) handle \<Rightarrow> carrier \<Rightarrow> 'e exc + (('v, 'e) handle \<times> bool \<times> carrier)" where
  "descendant_done i task error h c =
     (let h1 = unregister_owned_task task h;
          h2 = (case error of None \<Rightarrow> h1 | Some e \<Rightarrow> record_settlement_error e h1)
      in submission_finished i h2 c)"

text \<open>
  \<open>_task_factory\<close>: a task created inside Stage work on its own generation retains a
  reservation and the handle; the boolean is \<open>should_cancel\<close>. Any other task is native.
\<close>

definition task_factory ::
  "execution_context option \<Rightarrow> nat \<Rightarrow> task_ref \<Rightarrow> ('v, 'e) handle \<Rightarrow> carrier
   \<Rightarrow> 'e exc + (('v, 'e) handle \<times> bool \<times> carrier)" where
  "task_factory active i task h c =
     (case active of
        None \<Rightarrow> Inr (h, False, c)
      | Some ec \<Rightarrow>
          (if ec_generation ec \<noteq> i then Inr (h, False, c)
           else case retain_reservation i c of
                  Inl e \<Rightarrow> Inl e
                | Inr c1 \<Rightarrow>
                    (case register_owned_task task (ec_phase ec) (retain_work h) of
                       (h1, should_cancel) \<Rightarrow> Inr (h1, should_cancel, c1))))"

section \<open>The pool\<close>

definition new_slot_locked :: "bool \<Rightarrow> carrier \<Rightarrow> slot \<times> carrier" where
  "new_slot_locked escape c =
     (let i = Suc (car_slot_counter c);
          s = \<lparr>slot_id = i, slot_current = None, slot_next = None, slot_on_idle = escape,
               slot_executor_open = True, slot_control_queue = [], slot_worker = None\<rparr>;
          c1 = c\<lparr>car_slot_counter := i\<rparr>
      in (s, if escape then c1\<lparr>car_escape_slots := car_escape_slots c1 @ [s]\<rparr> else c1))"

definition carrier_init :: carrier where
  "carrier_init =
     (let c = \<lparr>car_gens = Map.empty, car_generation_counter = 0, car_slot_counter = 0,
               car_selection_cursor = 0, car_loop_count = 1, car_settings_frozen = False,
               car_slots = [], car_escape_slots = []\<rparr>
      in case new_slot_locked False c of (s, c1) \<Rightarrow> c1\<lparr>car_slots := [s]\<rparr>)"

fun add_slots :: "nat \<Rightarrow> carrier \<Rightarrow> carrier" where
  "add_slots 0 c = c"
| "add_slots (Suc n) c =
     (case new_slot_locked False c of (s, c1) \<Rightarrow> add_slots n (c1\<lparr>car_slots := car_slots c1 @ [s]\<rparr>))"

definition set_carrier_loop_count :: "nat \<Rightarrow> carrier \<Rightarrow> 'e exc + carrier" where
  "set_carrier_loop_count count c =
     (if car_settings_frozen c
      then (if count = car_loop_count c then Inr c else Inl StageLifecycleError)
      else let c1 = add_slots (count - length (car_slots c)) c;
               c2 = c1\<lparr>car_slots := take count (car_slots c1)\<rparr>
           in Inr (c2\<lparr>car_loop_count := count, car_selection_cursor := car_selection_cursor c2 mod count\<rparr>))"

definition freeze_settings :: "carrier \<Rightarrow> carrier" where
  "freeze_settings c = c\<lparr>car_settings_frozen := True\<rparr>"

definition slot_for_generation :: "generation \<Rightarrow> carrier \<Rightarrow> 'e exc + slot" where
  "slot_for_generation g c =
     (case find (\<lambda>s. owns_generation s g) (all_slots c) of None \<Rightarrow> Inl StageLifecycleError | Some s \<Rightarrow> Inr s)"

definition generation_is_current_loop :: "bool \<Rightarrow> loop_ref option \<Rightarrow> generation \<Rightarrow> bool" where
  "generation_is_current_loop only_when running g \<longleftrightarrow>
     only_when \<and> running \<noteq> None \<and> gen_loop g = running"

definition slot_candidate :: "carrier \<Rightarrow> bool \<Rightarrow> loop_ref option \<Rightarrow> nat set \<Rightarrow> slot \<Rightarrow> bool" where
  "slot_candidate c avoid running blocked s \<longleftrightarrow>
     \<not> owns_any_generation_id c s blocked
     \<and> \<not> (avoid \<and> (case running of None \<Rightarrow> False | Some l \<Rightarrow> owns_loop c s l))"

definition slot_rank :: "carrier \<Rightarrow> nat \<times> slot \<Rightarrow> int \<times> int" where
  "slot_rank c p = (snd (snd (snd (slot_snapshot c (snd p)))),
     (int (fst p) - int (car_selection_cursor c)) mod int (length (car_slots c)))"

definition select_slot :: "bool \<Rightarrow> loop_ref option \<Rightarrow> nat set \<Rightarrow> carrier \<Rightarrow> slot \<times> carrier" where
  "select_slot avoid running blocked c0 =
     (let c = freeze_settings c0;
          candidates = filter (\<lambda>(i, s). slot_candidate c avoid running blocked s)
                         (List.enumerate 0 (car_slots c))
      in case first_min (slot_rank c) candidates of
           None \<Rightarrow> new_slot_locked True c
         | Some (i, s) \<Rightarrow> (s, c\<lparr>car_selection_cursor := Suc i mod length (car_slots c)\<rparr>))"

definition carrier_acquire_lease :: "bool \<Rightarrow> caller \<Rightarrow> carrier \<Rightarrow> ('e exc + nat) \<times> carrier" where
  "carrier_acquire_lease avoid cl c0 =
     (let c = freeze_settings c0;
          blocked = (case cl_execution cl of None \<Rightarrow> {} | Some ec \<Rightarrow> ec_blocked ec);
          fallback = (\<lambda>c'. case select_slot avoid (cl_running_loop cl) blocked c' of
                        (s, c1) \<Rightarrow> slot_acquire_lease None (slot_id s) c1)
      in case cl_execution cl of
           None \<Rightarrow> fallback c
         | Some ec \<Rightarrow>
             (case car_gens c (ec_generation ec) of
                None \<Rightarrow> fallback c
              | Some g \<Rightarrow>
                  (if gen_id g \<notin> blocked \<and> \<not> generation_is_current_loop avoid (cl_running_loop cl) g
                   then (case (slot_for_generation g c :: 'e exc + slot) of
                           Inl e \<Rightarrow> fallback c
                         | Inr s \<Rightarrow>
                             (case (slot_acquire_lease (Some (gen_id g)) (slot_id s) c :: ('e exc + nat) \<times> carrier) of
                                (Inl e, c') \<Rightarrow> fallback c'
                              | (Inr i, c') \<Rightarrow> (Inr i, c')))
                   else fallback c)))"

definition blocked_generation_ids_for_submission :: "nat \<Rightarrow> bool \<Rightarrow> caller \<Rightarrow> nat set" where
  "blocked_generation_ids_for_submission i synchronous_scope cl =
     (case cl_execution cl of
        None \<Rightarrow> {}
      | Some ec \<Rightarrow>
          (if synchronous_scope \<and> i \<noteq> ec_generation ec
           then ec_blocked ec \<union> {ec_generation ec} else ec_blocked ec))"

definition carrier_release_lease :: "nat \<Rightarrow> carrier \<Rightarrow> 'e exc + carrier" where
  "carrier_release_lease i c =
     (case car_gens c i of
        None \<Rightarrow> Inl StageLifecycleError
      | Some g \<Rightarrow> (case slot_for_generation g c of Inl e \<Rightarrow> Inl e | Inr _ \<Rightarrow> release_reservation i c))"

definition carrier_submit ::
  "submission \<Rightarrow> nat option \<Rightarrow> caller \<Rightarrow> ('v, 'e) handle \<Rightarrow> carrier
   \<Rightarrow> ('e exc + nat) \<times> ('v, 'e) handle \<times> bool \<times> carrier" where
  "carrier_submit sm preferred cl h c =
     (case preferred of
        None \<Rightarrow>
          (case select_slot False (cl_running_loop cl) (sm_blocked sm) c of
             (s, c1) \<Rightarrow> slot_submit (slot_id s) sm None h c1)
      | Some p \<Rightarrow>
          (case car_gens c p of
             None \<Rightarrow> (Inl StageLifecycleError, h, False, c)
           | Some g \<Rightarrow>
               (case slot_for_generation g c of
                  Inl e \<Rightarrow> (Inl e, h, False, c)
                | Inr s \<Rightarrow> slot_submit (slot_id s) sm (Some p) h c)))"

text \<open>\<open>would_sync_wait_block_current_carrier\<close> for a scope with the given lease and backend.\<close>

definition would_sync_wait_block_current_carrier ::
  "nat option \<Rightarrow> backend_kind option \<Rightarrow> caller \<Rightarrow> carrier \<Rightarrow> bool" where
  "would_sync_wait_block_current_carrier lease backend cl c =
     (if backend = Some Backend_stage \<and> lease \<noteq> None
         \<and> (case cl_execution cl of None \<Rightarrow> False | Some ec \<Rightarrow> the lease \<in> ec_blocked ec)
      then True
      else case cl_running_loop cl of
             None \<Rightarrow> False
           | Some l \<Rightarrow>
               (if backend = Some Backend_stage \<and> lease \<noteq> None
                then (case car_gens c (the lease) of None \<Rightarrow> False | Some g \<Rightarrow> gen_loop g = Some l)
                else backend = None
                     \<and> (case cl_execution cl of
                          None \<Rightarrow> False
                        | Some ec \<Rightarrow> (case car_gens c (ec_generation ec) of
                                       None \<Rightarrow> False | Some g \<Rightarrow> gen_loop g = Some l))))"

text \<open>\<open>create_settlement_task\<close> and \<open>bind_current_execution\<close> on the context variable.\<close>

definition settlement_context :: "execution_context option \<Rightarrow> 'e exc + execution_context" where
  "settlement_context active =
     (case active of None \<Rightarrow> Inl StageLifecycleError | Some ec \<Rightarrow> Inr (ec\<lparr>ec_phase := Phase_settlement\<rparr>))"

definition bind_current_execution ::
  "execution_context option \<Rightarrow> execution_context option \<Rightarrow> execution_context option" where
  "bind_current_execution snapshot active = (case active of None \<Rightarrow> snapshot | Some ec \<Rightarrow> Some ec)"

section \<open>Diagnostics\<close>

text \<open>\<open>snapshot\<close>; the number of control threads is counted over the threads of the process.\<close>

record runtime_snapshot =
  rt_active_generation_id :: "nat option"
  rt_queued_generation_id :: "nat option"
  rt_active_loop_count :: nat
  rt_control_thread_count :: nat
  rt_carrier_loop_count :: nat
  rt_escape_loop_count :: nat
  rt_active_generation_ids :: "nat list"

definition head_option :: "'a list \<Rightarrow> 'a option" where
  "head_option xs = (case xs of [] \<Rightarrow> None | x # _ \<Rightarrow> Some x)"

definition carrier_snapshot :: "nat \<Rightarrow> carrier \<Rightarrow> runtime_snapshot" where
  "carrier_snapshot control_threads c =
     (let snapshots = map (slot_snapshot c) (car_slots c @ car_escape_slots c);
          active_ids = List.map_filter fst snapshots;
          queued_ids = List.map_filter (\<lambda>s. fst (snd s)) snapshots
      in \<lparr>rt_active_generation_id = head_option active_ids,
          rt_queued_generation_id = head_option queued_ids,
          rt_active_loop_count = sum_list (map (\<lambda>s. fst (snd (snd s))) snapshots),
          rt_control_thread_count = control_threads,
          rt_carrier_loop_count = car_loop_count c,
          rt_escape_loop_count = length (car_escape_slots c),
          rt_active_generation_ids = active_ids\<rparr>)"

lemmas [carrier_defs] = all_slots_def put_gen_def put_slot_def bump_reservations_def
  gen_state_of_def reserve_locked_def create_generation_locked_def new_generation_def

end
