(* ===== verification/Scope_Model.thy ===== *)
theory Scope_Model
  imports Carrier_Model "HOL-Library.List_Lexorder" "HOL-Library.Char_ord"
begin

text \<open>
  \<open>Stage.py\<close>: the structured scope. The first half holds the sections that touch only the
  scope itself (construction, classification, admission, idle timing, sealing, snapshot); the
  second half is the world of one scope, its handles, the carrier pool and the caller loops,
  with the operations that cross them.
  What a call can see of its surroundings (context variables, running loop, clock, the state
  of event loops) is the argument \<open>env\<close>.
\<close>

section \<open>State\<close>

datatype context_mode = Mode_sync | Mode_async
datatype backend_mode = Mode_auto | Mode_caller | Mode_stage

text \<open>\<open>_RootAdmission\<close>: the shared \<open>_IMMEDIATE_ROOT_ADMISSION\<close>, or a queued object by reference.\<close>

datatype admission_ref = Immediate_admission | Queued_admission nat

record admission =
  ad_gate_done :: bool
  ad_granted :: bool

record idle_timer =
  tm_due :: clock
  tm_token :: nat

record 'e stage =
  st_ref :: nat
  st_active_handles :: "nat list"
  st_adopted_tasks :: "(task_ref \<times> string) list"
  st_scope_settlement_errors :: "'e list"
  st_sealed :: bool
  st_close_completed :: bool
  st_cancelling :: bool
  st_on_adopted_done :: "callable_ref option"
  st_max_concurrency :: "int option"
  st_max_pending :: "int option"
  st_active_root_count :: int
  st_pending_admissions :: "nat list"
  st_admissions :: "nat \<Rightarrow> admission option"
  st_admission_counter :: nat
  st_idle_timeout :: "clock option"
  st_last_activity :: clock
  st_idle_timer :: "idle_timer option"
  st_idle_timer_token :: nat
  st_idle_timeout_error :: "(clock \<times> string list) option"
  st_private_executor :: "bool option"
  st_generation_lease :: "nat option"
  st_blocked_generation_ids :: "nat set"
  st_active_backend :: "backend_kind option"
  st_active_loop :: "loop_ref option"
  st_context_mode :: "context_mode option"
  st_backend_mode :: backend_mode
  st_configured_loop :: "loop_ref option"

text \<open>
  \<open>en_active_stage\<close> is the \<open>_active_stage\<close> variable and \<open>en_outer\<close> the backend and loop of that
  stage when it is not the scope itself; \<open>en_running l\<close> and \<open>en_closed l\<close> are \<open>l.is_running()\<close>
  and \<open>l.is_closed()\<close>;
  \<open>en_execution_stage\<close> the stage of the active execution's handle.
\<close>

record env =
  en_active_stage :: "nat option"
  en_outer :: "backend_kind option \<times> loop_ref option"
  en_caller :: caller
  en_execution_stage :: "nat option"
  en_current_task :: "task_ref option"
  en_running :: "loop_ref \<Rightarrow> bool"
  en_closed :: "loop_ref \<Rightarrow> bool"
  en_now :: clock

section \<open>Construction\<close>

datatype loop_arg = Arg_none | Arg_auto | Arg_stage | Arg_loop loop_ref bool | Arg_other

record stage_args =
  sa_loop :: loop_arg
  sa_max_concurrency :: "int option"
  sa_max_pending :: "int option"
  sa_idle_timeout :: "clock option"
  sa_max_workers :: "int option"
  sa_executor :: bool
  sa_on_adopted_done :: "callable_ref option"

definition fresh_stage :: "nat \<Rightarrow> clock \<Rightarrow> stage_args \<Rightarrow> backend_mode \<Rightarrow> loop_ref option \<Rightarrow> 'e stage" where
  "fresh_stage ref now a mode loop = \<lparr>st_ref = ref, st_active_handles = [], st_adopted_tasks = [],
     st_scope_settlement_errors = [], st_sealed = False, st_close_completed = False,
     st_cancelling = False, st_on_adopted_done = sa_on_adopted_done a,
     st_max_concurrency = sa_max_concurrency a, st_max_pending = sa_max_pending a,
     st_active_root_count = 0, st_pending_admissions = [], st_admissions = Map.empty,
     st_admission_counter = 0, st_idle_timeout = sa_idle_timeout a, st_last_activity = now,
     st_idle_timer = None, st_idle_timer_token = 0, st_idle_timeout_error = None,
     st_private_executor = map_option (\<lambda>_. True) (sa_max_workers a),
     st_generation_lease = None, st_blocked_generation_ids = {}, st_active_backend = None,
     st_active_loop = None, st_context_mode = None, st_backend_mode = mode, st_configured_loop = loop\<rparr>"

text \<open>\<open>ThreadPoolExecutor\<close> itself refuses a worker count that is not positive.\<close>

definition stage_init :: "nat \<Rightarrow> clock \<Rightarrow> stage_args \<Rightarrow> 'e exc + 'e stage" where
  "stage_init ref now a =
     (if sa_loop a = Arg_none then Inl TypeError
      else if sa_max_concurrency a \<noteq> None \<and> the (sa_max_concurrency a) \<le> 0 then Inl ValueError
      else if sa_max_pending a \<noteq> None \<and> the (sa_max_pending a) < 0 then Inl ValueError
      else if sa_max_pending a \<noteq> None \<and> sa_max_concurrency a = None then Inl ValueError
      else if sa_idle_timeout a \<noteq> None \<and> the (sa_idle_timeout a) \<le> 0 then Inl ValueError
      else if sa_executor a \<and> sa_max_workers a \<noteq> None then Inl ValueError
      else if sa_max_workers a \<noteq> None \<and> the (sa_max_workers a) \<le> 0 then Inl ValueError
      else case sa_loop a of
             Arg_auto \<Rightarrow> Inr (fresh_stage ref now a Mode_auto None)
           | Arg_stage \<Rightarrow> Inr (fresh_stage ref now a Mode_stage None)
           | Arg_loop l is_closed \<Rightarrow>
               (if is_closed then Inl StageLifecycleError else Inr (fresh_stage ref now a Mode_caller (Some l)))
           | _ \<Rightarrow> Inl TypeError)"

text \<open>\<open>set_settings\<close>: the value is an \<open>int\<close> that is not a \<open>bool\<close>, or something else.\<close>

definition set_settings :: "string \<Rightarrow> int option \<Rightarrow> carrier \<Rightarrow> 'e exc + carrier" where
  "set_settings key v c =
     (if key \<noteq> ''runtime.carrier_loop_count'' then Inl KeyError
      else case v of
             None \<Rightarrow> Inl TypeError
           | Some n \<Rightarrow> (if n \<le> 0 then Inl ValueError else set_carrier_loop_count (nat n) c))"

section \<open>Task classification\<close>

datatype task_class = Stage_func | Async_gen_func | Async_gen | Gen_func | Gen | Async_func
  | Async_coro | Future_obj | Func

text \<open>What the \<open>isinstance\<close> and \<open>inspect\<close> tests see of an object, and the objects it leads to.\<close>

record py_object =
  po_stage_function :: bool
  po_partial :: "nat option"
  po_wraps :: "nat option"
  po_asyncgenfunction :: bool
  po_asyncgen :: bool
  po_async_iterator :: bool
  po_generatorfunction :: bool
  po_generator :: bool
  po_iterator :: bool
  po_coroutinefunction :: bool
  po_coroutine :: bool
  po_future :: bool
  po_function_or_builtin :: bool
  po_call :: "nat option"

text \<open>The first argument is the remaining recursion depth of the interpreter.\<close>

fun classify_task :: "nat \<Rightarrow> (nat \<Rightarrow> py_object) \<Rightarrow> nat \<Rightarrow> 'e exc + task_class option" where
  "classify_task 0 heap task = Inl RecursionError"
| "classify_task (Suc depth) heap task =
     (let p = heap task in
      if po_stage_function p then Inr (Some Stage_func)
      else if po_partial p \<noteq> None then classify_task depth heap (the (po_partial p))
      else if po_wraps p \<noteq> None then classify_task depth heap (the (po_wraps p))
      else if po_asyncgenfunction p then Inr (Some Async_gen_func)
      else if po_asyncgen p then Inr (Some Async_gen)
      else if po_async_iterator p then Inr (Some Async_gen)
      else if po_generatorfunction p then Inr (Some Gen_func)
      else if po_generator p then Inr (Some Gen)
      else if po_iterator p then Inr (Some Gen)
      else if po_coroutinefunction p then Inr (Some Async_func)
      else if po_coroutine p then Inr (Some Async_coro)
      else if po_future p then Inr (Some Future_obj)
      else if po_function_or_builtin p then Inr (Some Func)
      else if po_call p \<noteq> None then classify_task depth heap (the (po_call p))
      else Inr None)"

section \<open>Activity and the idle timer\<close>

definition callback_registration_allowed :: "env \<Rightarrow> 'e stage \<Rightarrow> bool" where
  "callback_registration_allowed en st \<longleftrightarrow> \<not> st_sealed st \<or> en_active_stage en = Some (st_ref st)"

definition has_active_work :: "'e stage \<Rightarrow> bool" where
  "has_active_work st \<longleftrightarrow> st_active_handles st \<noteq> [] \<or> st_adopted_tasks st \<noteq> []"

definition schedule_idle_timer :: "clock \<Rightarrow> clock \<Rightarrow> nat \<Rightarrow> 'e stage \<Rightarrow> 'e stage" where
  "schedule_idle_timer now delay token st = st\<lparr>st_idle_timer := Some \<lparr>tm_due = now + delay, tm_token = token\<rparr>\<rparr>"

definition touch :: "clock \<Rightarrow> 'e stage \<Rightarrow> 'e stage" where
  "touch now st =
     (let st1 = st\<lparr>st_last_activity := now\<rparr> in
      case st_idle_timeout st1 of
        None \<Rightarrow> st1
      | Some limit \<Rightarrow>
          (if \<not> has_active_work st1 \<or> st_sealed st1 then st1
           else if st_idle_timer st1 \<noteq> None then st1
           else let token = Suc (st_idle_timer_token st1) in
             schedule_idle_timer now limit token (st1\<lparr>st_idle_timer_token := token\<rparr>)))"

definition owned_activity :: "clock \<Rightarrow> 'e stage \<Rightarrow> 'e stage" where
  "owned_activity now st = touch now st"

definition tick :: "clock \<Rightarrow> 'e stage \<Rightarrow> 'e stage" where
  "tick now st = (if st_sealed st \<or> \<not> has_active_work st then st else touch now st)"

text \<open>
  \<open>_idle_deadline_reached\<close>: the lists are the handles and the adopted tasks it cancels after
  the lock is released. \<open>origin\<close> looks up the origin of a handle.
\<close>

definition active_origins :: "(nat \<Rightarrow> string) \<Rightarrow> 'e stage \<Rightarrow> string list" where
  "active_origins origin st = sort (map origin (st_active_handles st) @ map snd (st_adopted_tasks st))"

definition idle_deadline_reached ::
  "(nat \<Rightarrow> string) \<Rightarrow> clock \<Rightarrow> nat \<Rightarrow> 'e stage \<Rightarrow> 'e stage \<times> nat list \<times> task_ref list" where
  "idle_deadline_reached origin now token st =
     (case st_idle_timeout st of
        None \<Rightarrow> (st, [], [])
      | Some limit \<Rightarrow>
          (if token \<noteq> st_idle_timer_token st \<or> st_sealed st \<or> \<not> has_active_work st then (st, [], [])
           else let st1 = st\<lparr>st_idle_timer := None\<rparr>; elapsed = now - st_last_activity st1 in
             if elapsed < limit then (schedule_idle_timer now (limit - elapsed) token st1, [], [])
             else (st1\<lparr>st_idle_timeout_error := Some (limit, active_origins origin st1),
                     st_sealed := True, st_cancelling := True\<rparr>,
                   st_active_handles st1, map fst (st_adopted_tasks st1))))"

definition release_backend_if_quiescent :: "'e stage \<Rightarrow> nat option \<times> 'e stage" where
  "release_backend_if_quiescent st =
     (if has_active_work st then (None, st)
      else (st_generation_lease st,
            st\<lparr>st_idle_timer := None, st_idle_timer_token := Suc (st_idle_timer_token st),
              st_generation_lease := None, st_blocked_generation_ids := {}, st_active_backend := None,
              st_active_loop := None, st_cancelling := False\<rparr>))"

definition seal :: "'e stage \<Rightarrow> 'e stage" where
  "seal st = st\<lparr>st_sealed := True, st_idle_timer := None, st_idle_timer_token := Suc (st_idle_timer_token st)\<rparr>"

section \<open>Root admission\<close>

definition admit_root :: "env \<Rightarrow> 'e stage \<Rightarrow> ('e exc + admission_ref option) \<times> 'e stage" where
  "admit_root en st =
     (if en_active_stage en = Some (st_ref st) then (Inr None, st)
      else if st_max_concurrency st = None \<or> st_active_root_count st < the (st_max_concurrency st)
      then (Inr (Some Immediate_admission), st\<lparr>st_active_root_count := st_active_root_count st + 1\<rparr>)
      else if st_max_pending st \<noteq> None \<and> int (length (st_pending_admissions st)) \<ge> the (st_max_pending st)
      then (Inl (StageBackpressureError (the (st_max_pending st))), st)
      else let a = st_admission_counter st in
        (Inr (Some (Queued_admission a)),
         st\<lparr>st_admission_counter := Suc a,
           st_admissions := (st_admissions st)(a \<mapsto> \<lparr>ad_gate_done = False, ad_granted = False\<rparr>),
           st_pending_admissions := st_pending_admissions st @ [a]\<rparr>))"

definition admission_granted :: "'e stage \<Rightarrow> admission_ref \<Rightarrow> bool" where
  "admission_granted st a =
     (case a of Immediate_admission \<Rightarrow> True
      | Queued_admission i \<Rightarrow> (case st_admissions st i of None \<Rightarrow> False | Some ad \<Rightarrow> ad_granted ad))"

text \<open>The loop of \<open>_finish_admission\<close> that hands the permit to the next waiting root.\<close>

function grant_next :: "'e stage \<Rightarrow> 'e stage" where
  "grant_next st =
     (case st_pending_admissions st of
        [] \<Rightarrow> st
      | a # q \<Rightarrow>
          (let st1 = st\<lparr>st_pending_admissions := q\<rparr> in
           case st_admissions st a of
             None \<Rightarrow> grant_next st1
           | Some ad \<Rightarrow>
               (if ad_gate_done ad then grant_next st1
                else st1\<lparr>st_admissions := (st_admissions st)(a \<mapsto> \<lparr>ad_gate_done = True, ad_granted = True\<rparr>),
                       st_active_root_count := st_active_root_count st + 1\<rparr>)))"
  by pat_completeness auto
termination
  by (relation "measure (\<lambda>st. length (st_pending_admissions st))") auto

declare grant_next.simps [simp del]

definition finish_admission :: "admission_ref option \<Rightarrow> 'e stage \<Rightarrow> 'e stage" where
  "finish_admission a st =
     (case a of
        None \<Rightarrow> st
      | Some r \<Rightarrow>
          grant_next
            (if admission_granted st r then st\<lparr>st_active_root_count := st_active_root_count st - 1\<rparr>
             else case r of Immediate_admission \<Rightarrow> st
                  | Queued_admission i \<Rightarrow> st\<lparr>st_pending_admissions := remove1 i (st_pending_admissions st)\<rparr>))"

section \<open>Waiting, sealing and closing\<close>

definition raise_scope_errors :: "'e stage \<Rightarrow> 'e exc + unit" where
  "raise_scope_errors st =
     (case st_idle_timeout_error st of
        Some (limit, origins) \<Rightarrow> Inl (StageIdleTimeoutError limit origins)
      | None \<Rightarrow> (if st_scope_settlement_errors st \<noteq> []
                 then Inl (StageSettlementError (st_scope_settlement_errors st)) else Inr ()))"

definition adopted :: "task_ref \<Rightarrow> 'e stage \<Rightarrow> bool" where
  "adopted task st \<longleftrightarrow> map_of (st_adopted_tasks st) task \<noteq> None"

definition owns_current_execution :: "env \<Rightarrow> 'e stage \<Rightarrow> bool" where
  "owns_current_execution en st \<longleftrightarrow>
     en_active_stage en = Some (st_ref st) \<or> en_execution_stage en = Some (st_ref st)
     \<or> (case en_current_task en of None \<Rightarrow> False | Some t \<Rightarrow> adopted t st)"

definition ensure_not_owned_self_wait :: "env \<Rightarrow> 'e stage \<Rightarrow> 'e exc + unit" where
  "ensure_not_owned_self_wait en st =
     (if en_active_stage en = Some (st_ref st) \<or> en_execution_stage en = Some (st_ref st)
      then Inl StageLifecycleError
      else case en_current_task en of
             None \<Rightarrow> Inr ()
           | Some t \<Rightarrow> (if adopted t st then Inl StageLifecycleError else Inr ()))"

definition ensure_not_same_caller_loop_sync_wait :: "env \<Rightarrow> 'e stage \<Rightarrow> 'e exc + unit" where
  "ensure_not_same_caller_loop_sync_wait en st =
     (case cl_running_loop (en_caller en) of
        None \<Rightarrow> Inr ()
      | Some l \<Rightarrow> (if st_active_backend st = Some Backend_caller \<and> st_active_loop st = Some l \<and> has_active_work st
                  then Inl StageLifecycleError else Inr ()))"

text \<open>
  The wait loop sees the scope each time it holds the condition's lock: \<open>obs\<close> lists those
  states with the clock. \<open>None\<close>: the observations end while it is still waiting.
\<close>

fun wait_loop :: "(nat \<Rightarrow> string) \<Rightarrow> clock option \<Rightarrow> ('e stage \<times> clock) list \<Rightarrow> ('e exc + unit) option" where
  "wait_loop origin deadline [] = None"
| "wait_loop origin deadline ((st, now) # obs) =
     (if \<not> has_active_work st then Some (Inr ())
      else case deadline of
             None \<Rightarrow> wait_loop origin deadline obs
           | Some d \<Rightarrow> (if d - now \<le> 0 then Some (Inl (TimeoutError (active_origins origin st)))
                       else wait_loop origin deadline obs))"

text \<open>\<open>final\<close> is the scope when \<open>_raise_scope_errors\<close> takes the lock after the loop.\<close>

definition wait_settled ::
  "(nat \<Rightarrow> string) \<Rightarrow> env \<Rightarrow> clock option \<Rightarrow> ('e stage \<times> clock) list \<Rightarrow> 'e stage \<Rightarrow> 'e stage
   \<Rightarrow> ('e exc + unit) option" where
  "wait_settled origin en timeout obs final st =
     (case ensure_not_owned_self_wait en st of
        Inl e \<Rightarrow> Some (Inl e)
      | Inr _ \<Rightarrow>
          (case ensure_not_same_caller_loop_sync_wait en st of
             Inl e \<Rightarrow> Some (Inl e)
           | Inr _ \<Rightarrow>
               (case wait_loop origin (map_option (\<lambda>d. en_now en + d) timeout) obs of
                  None \<Rightarrow> None
                | Some (Inl e) \<Rightarrow> Some (Inl e)
                | Some (Inr _) \<Rightarrow> Some (raise_scope_errors final))))"

text \<open>The locked part of \<open>cancel_and_wait_settled\<close>: what it then cancels, \<open>None\<close> for nothing to do.\<close>

definition cancel_scope :: "env \<Rightarrow> 'e stage \<Rightarrow> ('e exc + (nat list \<times> task_ref list) option) \<times> 'e stage" where
  "cancel_scope en st =
     (case ensure_not_owned_self_wait en st of
        Inl e \<Rightarrow> (Inl e, st)
      | Inr _ \<Rightarrow>
          (case ensure_not_same_caller_loop_sync_wait en st of
             Inl e \<Rightarrow> (Inl e, st)
           | Inr _ \<Rightarrow>
               (if st_active_handles st = [] \<and> st_adopted_tasks st = [] then (Inr None, st)
                else (Inr (Some (st_active_handles st, map fst (st_adopted_tasks st))),
                      st\<lparr>st_cancelling := True\<rparr>))))"

definition close ::
  "(nat \<Rightarrow> string) \<Rightarrow> env \<Rightarrow> clock option \<Rightarrow> ('e stage \<times> clock) list \<Rightarrow> 'e stage \<Rightarrow> 'e stage
   \<Rightarrow> (('e exc + unit) \<times> 'e stage) option" where
  "close origin en timeout obs final st =
     (case ensure_not_owned_self_wait en st of
        Inl e \<Rightarrow> Some (Inl e, st)
      | Inr _ \<Rightarrow>
          (case ensure_not_same_caller_loop_sync_wait en st of
             Inl e \<Rightarrow> Some (Inl e, st)
           | Inr _ \<Rightarrow>
               (if st_close_completed st then Some (raise_scope_errors st, st)
                else let st1 = seal st in
                  case wait_settled origin en timeout obs final st1 of
                    None \<Rightarrow> None
                  | Some r \<Rightarrow>
                      (let terminal = (case r of Inr _ \<Rightarrow> True | Inl (StageIdleTimeoutError _ _) \<Rightarrow> True
                                       | Inl (StageSettlementError _) \<Rightarrow> True | Inl _ \<Rightarrow> False) in
                       if terminal
                       then Some (r, final\<lparr>st_private_executor := map_option (\<lambda>_. False) (st_private_executor final),
                                      st_close_completed := True\<rparr>)
                       else Some (r, final)))))"

definition enter :: "context_mode \<Rightarrow> 'e stage \<Rightarrow> ('e exc + unit) \<times> 'e stage" where
  "enter mode st =
     (if st_sealed st then (Inl StageClosedError, st)
      else if st_context_mode st \<noteq> None then (Inl StageLifecycleError, st)
      else (Inr (), st\<lparr>st_context_mode := Some mode\<rparr>))"

datatype scope_state = State_open | State_sealed | State_closed

record stage_snapshot =
  sn_state :: scope_state
  sn_backend_mode :: backend_mode
  sn_active_backend :: "backend_kind option"
  sn_active_count :: nat
  sn_active_root_count :: int
  sn_pending_root_count :: nat
  sn_unresolved_origins :: "string list"
  sn_last_activity :: clock
  sn_idle_timeout :: "clock option"
  sn_cancelling :: bool
  sn_idle_timed_out :: bool
  sn_carrier_generation_id :: "nat option"

definition snapshot :: "(nat \<Rightarrow> string) \<Rightarrow> 'e stage \<Rightarrow> stage_snapshot" where
  "snapshot origin st = \<lparr>
     sn_state = (if st_close_completed st then State_closed else if st_sealed st then State_sealed else State_open),
     sn_backend_mode = st_backend_mode st, sn_active_backend = st_active_backend st,
     sn_active_count = length (st_active_handles st) + length (st_adopted_tasks st),
     sn_active_root_count = st_active_root_count st,
     sn_pending_root_count = length (st_pending_admissions st),
     sn_unresolved_origins = active_origins origin st, sn_last_activity = st_last_activity st,
     sn_idle_timeout = st_idle_timeout st, sn_cancelling = st_cancelling st,
     sn_idle_timed_out = (st_idle_timeout_error st \<noteq> None),
     sn_carrier_generation_id = st_generation_lease st\<rparr>"

lemmas [scope_defs] = has_active_work_def touch_def schedule_idle_timer_def owned_activity_def tick_def
  idle_deadline_reached_def release_backend_if_quiescent_def seal_def

end
