(* ===== verification/Scope_World.thy ===== *)
theory Scope_World
  imports Scope_Model
begin

text \<open>
  One scope at work: the scope, its handles, the carrier pool and what it has scheduled on
  caller loops. An operation returns what the Python call returns or raises, together with
  the world it leaves, since a raising call keeps the changes it made before.
  \<open>w_calls\<close> are the \<open>start\<close> calls queued with \<open>call_soon_threadsafe\<close>, \<open>w_tasks\<close> the tasks
  created, \<open>w_task_cancels\<close> the \<open>task.cancel()\<close> calls and \<open>w_cancel_calls\<close> the \<open>_cancel_tasks\<close>
  calls queued on owner loops.
\<close>

record runner_job =
  rj_handle :: nat
  rj_runner :: callable_ref
  rj_owner :: bool
  rj_admission :: "admission_ref option"

record ('v, 'e) world =
  w_stage :: "'e stage"
  w_handles :: "nat \<Rightarrow> ('v, 'e) handle option"
  w_next_handle :: nat
  w_carrier :: carrier
  w_calls :: "(loop_ref \<times> runner_job) list"
  w_tasks :: "(task_ref \<times> loop_ref \<times> runner_job) list"
  w_next_task :: task_ref
  w_task_cancels :: "task_ref list"
  w_cancel_calls :: "(loop_ref \<times> task_ref option \<times> task_ref list) list"

definition put_handle :: "nat \<Rightarrow> ('v, 'e) handle \<Rightarrow> ('v, 'e) world \<Rightarrow> ('v, 'e) world" where
  "put_handle i h w = w\<lparr>w_handles := (w_handles w)(i \<mapsto> h)\<rparr>"

definition origin_in :: "('v, 'e) world \<Rightarrow> nat \<Rightarrow> string" where
  "origin_in w i = (case w_handles w i of None \<Rightarrow> '''' | Some h \<Rightarrow> h_origin h)"

section \<open>Quiescence\<close>

text \<open>\<open>release_lease\<close> for the lease that left the scope, if any.\<close>

definition return_lease :: "nat option \<Rightarrow> ('v, 'e) world \<Rightarrow> ('e exc + unit) \<times> ('v, 'e) world" where
  "return_lease lease w =
     (case lease of
        None \<Rightarrow> (Inr (), w)
      | Some i \<Rightarrow> (case carrier_release_lease i (w_carrier w) of
                    Inl e \<Rightarrow> (Inl e, w) | Inr c \<Rightarrow> (Inr (), w\<lparr>w_carrier := c\<rparr>)))"

definition handle_quiescent :: "nat \<Rightarrow> ('v, 'e) world \<Rightarrow> ('e exc + unit) \<times> ('v, 'e) world" where
  "handle_quiescent i w =
     (case w_handles w i of
        None \<Rightarrow> (Inr (), w)
      | Some h \<Rightarrow>
          (case take_unreported_stage_errors h of (errors, h1) \<Rightarrow>
             let st = w_stage w;
                 st1 = st\<lparr>st_scope_settlement_errors := st_scope_settlement_errors st @ errors,
                          st_active_handles := removeAll i (st_active_handles st)\<rparr>;
                 (lease, st2) = (if has_active_work st1 then (None, st1) else release_backend_if_quiescent st1)
             in return_lease lease ((put_handle i h1 w)\<lparr>w_stage := st2\<rparr>)))"

definition collect_handle_errors :: "nat \<Rightarrow> ('v, 'e) world \<Rightarrow> ('v, 'e) world" where
  "collect_handle_errors i w =
     (case w_handles w i of
        None \<Rightarrow> w
      | Some h \<Rightarrow>
          (case take_unreported_stage_errors h of (errors, h1) \<Rightarrow>
             (put_handle i h1 w)\<lparr>w_stage := (w_stage w)\<lparr>st_scope_settlement_errors :=
                st_scope_settlement_errors (w_stage w) @ errors\<rparr>\<rparr>))"

text \<open>\<open>StageHandle._release_work\<close> with its call of the scope.\<close>

definition release_handle_work :: "nat \<Rightarrow> ('v, 'e) world \<Rightarrow> ('e exc + unit) \<times> ('v, 'e) world" where
  "release_handle_work i w =
     (case w_handles w i of
        None \<Rightarrow> (Inr (), w)
      | Some h \<Rightarrow>
          (case release_work h of
             Inl e \<Rightarrow> (Inl e, w)
           | Inr (h1, quiescent) \<Rightarrow>
               (if quiescent then handle_quiescent i (put_handle i h1 w) else (Inr (), put_handle i h1 w))))"

section \<open>The backend of a scope\<close>

definition usable :: "env \<Rightarrow> loop_ref option \<Rightarrow> bool" where
  "usable en l = (case l of None \<Rightarrow> False | Some i \<Rightarrow> \<not> en_closed en i \<and> en_running en i)"

definition inherited_caller_loop_for_sync :: "env \<Rightarrow> 'e stage \<Rightarrow> loop_ref option" where
  "inherited_caller_loop_for_sync en st =
     (case en_active_stage en of
        None \<Rightarrow> None
      | Some r \<Rightarrow>
          (if cl_running_loop (en_caller en) \<noteq> None then None
           else case (if r = st_ref st then (st_active_backend st, st_active_loop st) else en_outer en) of
                  (backend, loop) \<Rightarrow>
                    (if backend \<noteq> Some Backend_caller then None
                     else if usable en loop then loop else None)))"

definition choose_backend :: "env \<Rightarrow> 'e stage \<Rightarrow> 'e exc + (backend_kind \<times> loop_ref option)" where
  "choose_backend en st =
     (case st_backend_mode st of
        Mode_caller \<Rightarrow>
          (if usable en (st_configured_loop st) then Inr (Backend_caller, st_configured_loop st)
           else Inl StageLifecycleError)
      | Mode_stage \<Rightarrow> Inr (Backend_stage, None)
      | Mode_auto \<Rightarrow>
          (let inherited = (case inherited_caller_loop_for_sync en st of
                              None \<Rightarrow> (Backend_stage, None) | Some l \<Rightarrow> (Backend_caller, Some l))
           in if st_context_mode st = Some Mode_sync then Inr inherited
              else case cl_running_loop (en_caller en) of
                     None \<Rightarrow> Inr inherited
                   | Some l \<Rightarrow> Inr (Backend_caller, Some l)))"

definition resolve_backend ::
  "env \<Rightarrow> ('v, 'e) world \<Rightarrow> ('e exc + (backend_kind \<times> loop_ref option)) \<times> ('v, 'e) world" where
  "resolve_backend en w =
     (let st = w_stage w; sync = (st_context_mode st = Some Mode_sync) in
      case st_active_backend st of
        Some backend \<Rightarrow> (Inr (backend, st_active_loop st), w)
      | None \<Rightarrow>
          (case choose_backend en st of
             Inl e \<Rightarrow> (Inl e, w)
           | Inr (Backend_caller, loop) \<Rightarrow>
               (Inr (Backend_caller, loop),
                w\<lparr>w_stage := st\<lparr>st_blocked_generation_ids := {}, st_active_backend := Some Backend_caller,
                                st_active_loop := loop\<rparr>\<rparr>)
           | Inr (Backend_stage, loop) \<Rightarrow>
               (case carrier_acquire_lease sync (en_caller en) (w_carrier w) of
                  (Inl e, c) \<Rightarrow> (Inl e, w\<lparr>w_carrier := c\<rparr>)
                | (Inr i, c) \<Rightarrow>
                    (Inr (Backend_stage, loop),
                     w\<lparr>w_carrier := c,
                       w_stage := st\<lparr>st_generation_lease := Some i,
                         st_blocked_generation_ids := blocked_generation_ids_for_submission i sync (en_caller en),
                         st_active_backend := Some Backend_stage, st_active_loop := loop\<rparr>\<rparr>))))"

definition new_handle ::
  "env \<Rightarrow> string \<Rightarrow> bool \<Rightarrow> ('v, 'e) world
   \<Rightarrow> ('e exc + (nat \<times> backend_kind \<times> loop_ref option)) \<times> ('v, 'e) world" where
  "new_handle en origin allow_sealed w =
     (if st_sealed (w_stage w) \<and> \<not> allow_sealed then (Inl StageClosedError, w)
      else case resolve_backend en w of
             (Inl e, w1) \<Rightarrow> (Inl e, w1)
           | (Inr (backend, loop), w1) \<Rightarrow>
               (let i = w_next_handle w1; st = w_stage w1 in
                (Inr (i, backend, loop),
                 (put_handle i (handle_init origin backend) w1)\<lparr>w_next_handle := Suc i,
                    w_stage := touch (en_now en) (st\<lparr>st_active_handles := List.insert i (st_active_handles st)\<rparr>)\<rparr>)))"

section \<open>Running on a caller loop\<close>

text \<open>
  The body outcome recorded on the handle of a world; \<open>_owned_activity\<close> follows when this
  call completed the body. The boolean is \<open>should_start\<close>.
\<close>

definition complete_body ::
  "env \<Rightarrow> nat \<Rightarrow> (('v, 'e) handle \<Rightarrow> ('v, 'e) handle \<times> bool \<times> callable_ref list) \<Rightarrow> ('v, 'e) world
   \<Rightarrow> bool \<times> ('v, 'e) world" where
  "complete_body en i set_body w =
     (case w_handles w i of
        None \<Rightarrow> (False, w)
      | Some h \<Rightarrow>
          (case set_body h of (h1, should_start, _) \<Rightarrow>
             (should_start,
              (put_handle i h1 w)\<lparr>w_stage := (if h_body_completed h then w_stage w
                                             else owned_activity (en_now en) (w_stage w))\<rparr>)))"

text \<open>\<open>start\<close> of \<open>_schedule_caller_runner\<close>; \<open>failure\<close> is what \<open>create_task\<close> raises, if it does.\<close>

definition start_runner ::
  "env \<Rightarrow> 'e option \<Rightarrow> loop_ref \<Rightarrow> runner_job \<Rightarrow> ('v, 'e) world \<Rightarrow> ('e exc + unit) \<times> ('v, 'e) world" where
  "start_runner en failure loop job w =
     (case w_handles w (rj_handle job) of
        None \<Rightarrow> (Inr (), w)
      | Some h \<Rightarrow>
          (case failure of
             None \<Rightarrow>
               (let t = w_next_task w;
                    w1 = w\<lparr>w_next_task := Suc t, w_tasks := w_tasks w @ [(t, loop, job)]\<rparr>
                in if rj_owner job
                   then (case set_owner_task loop t h of (h1, should_cancel) \<Rightarrow>
                           (Inr (), (put_handle (rj_handle job) h1 w1)\<lparr>w_task_cancels :=
                              w_task_cancels w1 @ (if should_cancel then [t] else [])\<rparr>))
                   else (Inr (), w1))
           | Some error \<Rightarrow>
               (let w1 = (if rj_owner job then snd (complete_body en (rj_handle job) (set_body_exception error False) w)
                          else put_handle (rj_handle job) (record_settlement_error error h) w);
                    w2 = w1\<lparr>w_stage := finish_admission (rj_admission job) (w_stage w1)\<rparr>
                in release_handle_work (rj_handle job) w2)))"

definition schedule_caller_runner ::
  "env \<Rightarrow> 'e option \<Rightarrow> loop_ref \<Rightarrow> runner_job \<Rightarrow> ('v, 'e) world \<Rightarrow> ('e exc + unit) \<times> ('v, 'e) world" where
  "schedule_caller_runner en failure loop job w =
     (case w_handles w (rj_handle job) of
        None \<Rightarrow> (Inr (), w)
      | Some h \<Rightarrow>
          (let w1 = put_handle (rj_handle job) (retain_work h) w;
               queued = (Inr (), w1\<lparr>w_calls := w_calls w1 @ [(loop, job)]\<rparr>);
               refused = (case release_handle_work (rj_handle job) w1 of
                            (Inl e, w2) \<Rightarrow> (Inl e, w2) | (Inr _, w2) \<Rightarrow> (Inl StageLifecycleError, w2))
           in case cl_running_loop (en_caller en) of
                None \<Rightarrow> (if usable en (Some loop) then queued else refused)
              | Some l \<Rightarrow> (if l = loop then start_runner en failure loop job w1
                          else if en_closed en loop then refused else queued)))"

section \<open>\<open>go\<close>\<close>

definition register_initial ::
  "callback_kind \<Rightarrow> callable_ref option \<Rightarrow> nat \<Rightarrow> nat \<Rightarrow> ('v, 'e) world \<Rightarrow> ('v, 'e) world" where
  "register_initial kind f ctx i w =
     (case f of None \<Rightarrow> w
      | Some g \<Rightarrow> (case w_handles w i of None \<Rightarrow> w
                  | Some h \<Rightarrow> put_handle i (register_initial_callback kind g ctx h) w))"

text \<open>\<open>handle.cancel(timeout=0)\<close>, whose result the scope ignores; scheduling the cancellation on an
  owner loop that is closed raises \<open>RuntimeError\<close>.\<close>

definition cancel_handle ::
  "(loop_ref \<Rightarrow> bool) \<Rightarrow> nat \<Rightarrow> ('v, 'e) world \<Rightarrow> ('e exc + unit) \<times> ('v, 'e) world" where
  "cancel_handle loop_closed i w =
     (case w_handles w i of
        None \<Rightarrow> (Inr (), w)
      | Some h \<Rightarrow>
          (case cancel_request h of
             None \<Rightarrow> (Inr (), w)
           | Some (h1, None) \<Rightarrow> (Inr (), put_handle i h1 w)
           | Some (h1, Some call) \<Rightarrow>
               (if loop_closed (fst call) then (Inl RuntimeError, put_handle i h1 w)
                else (Inr (), (put_handle i h1 w)\<lparr>w_cancel_calls := w_cancel_calls w @ [call]\<rparr>))))"

record go_args =
  ga_origin :: string
  ga_runner :: callable_ref
  ga_context :: nat
  ga_on_success :: "callable_ref option"
  ga_on_error :: "callable_ref option"
  ga_on_finally :: "callable_ref option"

text \<open>The section of \<open>go\<close> under the scope lock.\<close>

definition go_locked ::
  "env \<Rightarrow> go_args \<Rightarrow> ('v, 'e) world
   \<Rightarrow> ('e exc + (admission_ref option \<times> nat \<times> backend_kind \<times> loop_ref option \<times> bool)) \<times> ('v, 'e) world" where
  "go_locked en a w =
     (let owned = (en_active_stage en = Some (st_ref (w_stage w))) in
      if st_sealed (w_stage w) \<and> \<not> owned then (Inl StageClosedError, w)
      else case admit_root en (w_stage w) of
             (Inl e, st) \<Rightarrow> (Inl e, w\<lparr>w_stage := st\<rparr>)
           | (Inr admission, st) \<Rightarrow>
               (case new_handle en (ga_origin a) owned (w\<lparr>w_stage := st\<rparr>) of
                  (Inl e, w1) \<Rightarrow> (Inl e, w1\<lparr>w_stage := finish_admission admission (w_stage w1)\<rparr>)
                | (Inr (i, backend, loop), w1) \<Rightarrow>
                    (let w2 = register_initial On_finally (ga_on_finally a) (ga_context a) i
                                (register_initial On_error (ga_on_error a) (ga_context a) i
                                  (register_initial On_success (ga_on_success a) (ga_context a) i w1))
                     in (Inr (admission, i, backend, loop, st_cancelling (w_stage w2)), w2))))"

text \<open>\<open>_RUNTIME_CARRIER.submit\<close> for a handle of the world.\<close>

definition submit_handle ::
  "env \<Rightarrow> submission \<Rightarrow> nat option \<Rightarrow> ('v, 'e) world \<Rightarrow> ('e exc + unit) \<times> ('v, 'e) world" where
  "submit_handle en sm preferred w =
     (case w_handles w (sm_handle sm) of
        None \<Rightarrow> (Inr (), w)
      | Some h \<Rightarrow>
          (case carrier_submit sm preferred (en_caller en) h (w_carrier w) of
             (r, h1, quiescent, c) \<Rightarrow>
               (let w1 = (put_handle (sm_handle sm) h1 w)\<lparr>w_carrier := c\<rparr>;
                    (q, w2) = (if quiescent then handle_quiescent (sm_handle sm) w1 else (Inr (), w1))
                in case r of
                     Inr _ \<Rightarrow> (Inr (), w2)
                   | Inl e \<Rightarrow> (case q of Inl e' \<Rightarrow> (Inl e', w2) | Inr _ \<Rightarrow> (Inl e, w2)))))"

definition go_scalar ::
  "env \<Rightarrow> 'e option \<Rightarrow> go_args \<Rightarrow> ('v, 'e) world \<Rightarrow> ('e exc + nat) \<times> ('v, 'e) world" where
  "go_scalar en failure a w =
     (case go_locked en a w of
        (Inl e, w1) \<Rightarrow> (Inl e, w1)
      | (Inr (admission, i, backend, loop, should_cancel), w1) \<Rightarrow>
          (let sent =
             (case backend of
                Backend_stage \<Rightarrow>
                  submit_handle en \<lparr>sm_handle = i, sm_runner = ga_runner a, sm_owner = True,
                    sm_context = ga_context a, sm_phase = Phase_body,
                    sm_blocked = st_blocked_generation_ids (w_stage w1)\<rparr> (st_generation_lease (w_stage w1)) w1
              | Backend_caller \<Rightarrow>
                  (case loop of
                     None \<Rightarrow> (Inl StageLifecycleError, w1)
                   | Some l \<Rightarrow> schedule_caller_runner en failure l
                       \<lparr>rj_handle = i, rj_runner = ga_runner a, rj_owner = True, rj_admission = admission\<rparr> w1))
           in case sent of
                (Inl e, w2) \<Rightarrow>
                  (if backend = Backend_caller \<and> loop = None then (Inl e, w2)
                   else (Inl e, w2\<lparr>w_stage := finish_admission admission (w_stage w2)\<rparr>))
              | (Inr _, w2) \<Rightarrow>
                  (if \<not> should_cancel then (Inr i, w2)
                   else case cancel_handle (en_closed en) i w2 of
                          (Inl e, w3) \<Rightarrow> (Inl e, w3) | (Inr _, w3) \<Rightarrow> (Inr i, w3))))"

text \<open>\<open>go\<close> by task class: a \<open>StageFunction\<close> is called, a generator becomes a stream, the rest is scalar.\<close>

datatype 'e go_route = Route_stage_function | Route_stream task_class | Route_scalar | Route_raise "'e exc"

definition go_route :: "nat \<Rightarrow> (nat \<Rightarrow> py_object) \<Rightarrow> nat \<Rightarrow> 'e go_route" where
  "go_route depth heap task =
     (case classify_task depth heap task of
        Inl e \<Rightarrow> Route_raise e
      | Inr None \<Rightarrow> Route_raise TypeError
      | Inr (Some k) \<Rightarrow>
          (if k = Stage_func then Route_stage_function
           else if k = Async_gen_func \<or> k = Async_gen \<or> k = Gen_func \<or> k = Gen then Route_stream k
           else Route_scalar))"

section \<open>The end of a body and the callbacks\<close>

text \<open>\<open>_start_callback_drain_from_owner\<close>; \<open>drain\<close> names the coroutine function \<open>handle._drain_callbacks\<close>.\<close>

definition start_callback_drain_from_owner ::
  "env \<Rightarrow> 'e \<Rightarrow> 'e option \<Rightarrow> callable_ref \<Rightarrow> nat \<Rightarrow> ('v, 'e) world \<Rightarrow> ('e exc + unit) \<times> ('v, 'e) world" where
  "start_callback_drain_from_owner en unavailable failure drain i w =
     (case w_handles w i of
        None \<Rightarrow> (Inr (), w)
      | Some h \<Rightarrow>
          (if h_backend_kind h = Backend_stage
           then (case settlement_context (cl_execution (en_caller en)) of
                   Inl e \<Rightarrow> (Inl e, w)
                 | Inr ec \<Rightarrow>
                     (let t = w_next_task w in
                      case task_factory (Some ec) (ec_generation ec) t h (w_carrier w) of
                        Inl e \<Rightarrow> (Inl e, w)
                      | Inr (h1, _, c) \<Rightarrow>
                          (Inr (), (put_handle i h1 w)\<lparr>w_carrier := c, w_next_task := Suc t\<rparr>)))
           else case h_owner_loop h of
                  None \<Rightarrow> (Inr (), put_handle i (record_settlement_error unavailable h) w)
                | Some l \<Rightarrow> schedule_caller_runner en failure l
                    \<lparr>rj_handle = i, rj_runner = drain, rj_owner = False, rj_admission = None\<rparr> w))"

datatype ('v, 'e) outcome = Returned 'v | Threw 'e | Got_cancelled 'e

definition set_body_outcome ::
  "bool \<Rightarrow> ('v, 'e) outcome \<Rightarrow> ('v, 'e) handle \<Rightarrow> ('v, 'e) handle \<times> bool \<times> callable_ref list" where
  "set_body_outcome ignored out h =
     (case out of Returned v \<Rightarrow> set_body_result v h
      | Threw e \<Rightarrow> set_body_exception e ignored h
      | Got_cancelled e \<Rightarrow> set_body_cancelled e h)"

text \<open>\<open>body\<close> of \<open>go\<close> after \<open>_execute_scalar\<close> has ended with the given outcome.\<close>

definition body_finished ::
  "env \<Rightarrow> 'e \<Rightarrow> 'e option \<Rightarrow> callable_ref \<Rightarrow> bool \<Rightarrow> admission_ref option \<Rightarrow> ('v, 'e) outcome \<Rightarrow> nat
   \<Rightarrow> ('v, 'e) world \<Rightarrow> ('e exc + unit) \<times> ('v, 'e) world" where
  "body_finished en unavailable failure drain ignored admission out i w =
     (case complete_body en i (set_body_outcome ignored out) w of
        (should_start, w1) \<Rightarrow>
          (case (if should_start then start_callback_drain_from_owner en unavailable failure drain i w1 else (Inr (), w1)) of
             (r, w2) \<Rightarrow>
               (case r of Inl e \<Rightarrow> Inl e
                | Inr _ \<Rightarrow> (case out of Got_cancelled e \<Rightarrow> Inl CancelledError | _ \<Rightarrow> Inr ()),
                w2\<lparr>w_stage := finish_admission admission (w_stage w2)\<rparr>)))"

text \<open>
  \<open>_run_submission\<close> up to its runner, in task \<open>current\<close> of the generation's loop: an owner submission
  takes the task (which an earlier cancel request then reaches), and the runner executes under the
  lineage that is returned.
\<close>

definition run_submission ::
  "loop_ref \<Rightarrow> task_ref option \<Rightarrow> nat \<Rightarrow> submission \<Rightarrow> ('v, 'e) world
   \<Rightarrow> ('e exc + execution_context) \<times> ('v, 'e) world" where
  "run_submission loop current gen sm w =
     (case current of
        None \<Rightarrow> (Inl StageLifecycleError, w)
      | Some t \<Rightarrow>
          (Inr \<lparr>ec_generation = gen, ec_handle = sm_handle sm, ec_phase = sm_phase sm, ec_blocked = sm_blocked sm\<rparr>,
           case w_handles w (sm_handle sm) of
             None \<Rightarrow> w
           | Some h \<Rightarrow>
               (if \<not> sm_owner sm then w
                else case set_owner_task loop t h of (h1, should_cancel) \<Rightarrow>
                       (put_handle (sm_handle sm) h1 w)\<lparr>w_task_cancels :=
                          w_task_cancels w @ (if should_cancel then [t] else [])\<rparr>)))"

text \<open>The \<open>finally\<close> clauses after a runner: of \<open>retained_runner\<close>, and of \<open>_run_submission\<close>.\<close>

definition caller_runner_ended :: "nat \<Rightarrow> ('v, 'e) world \<Rightarrow> ('e exc + unit) \<times> ('v, 'e) world" where
  "caller_runner_ended i w = release_handle_work i w"

definition stage_runner_ended :: "nat \<Rightarrow> nat \<Rightarrow> ('v, 'e) world \<Rightarrow> ('e exc + unit) \<times> ('v, 'e) world" where
  "stage_runner_ended gen i w =
     (case release_reservation gen (w_carrier w) of
        Inl e \<Rightarrow> (Inl e, w)
      | Inr c \<Rightarrow> release_handle_work i (w\<lparr>w_carrier := c\<rparr>))"

text \<open>\<open>_submit_callback_drain_locked\<close>: the scope is bound again for the drain of a late callback.\<close>

definition bind_for_drain ::
  "env \<Rightarrow> ('v, 'e) handle \<Rightarrow> ('v, 'e) world \<Rightarrow> ('e exc + unit) \<times> ('v, 'e) world" where
  "bind_for_drain en h w =
     (let st = w_stage w; kind = h_backend_kind h; loop = h_owner_loop h in
      case st_active_backend st of
        None \<Rightarrow>
          (if kind = Backend_caller
           then (if usable en loop
                 then (Inr (), w\<lparr>w_stage := st\<lparr>st_active_backend := Some Backend_caller,
                                   st_active_loop := loop, st_blocked_generation_ids := {}\<rparr>\<rparr>)
                 else (Inl StageLifecycleError, w))
           else let st1 = st\<lparr>st_active_backend := Some Backend_stage, st_active_loop := None\<rparr> in
             case carrier_acquire_lease False (en_caller en) (w_carrier w) of
               (Inl e, c) \<Rightarrow> (Inl e, w\<lparr>w_carrier := c, w_stage := st1\<rparr>)
             | (Inr g, c) \<Rightarrow>
                 (Inr (), w\<lparr>w_carrier := c, w_stage := st1\<lparr>st_generation_lease := Some g,
                    st_blocked_generation_ids :=
                      blocked_generation_ids_for_submission g False (en_caller en)\<rparr>\<rparr>))
      | Some b \<Rightarrow>
          (if b \<noteq> kind \<or> (b = Backend_caller \<and> st_active_loop st \<noteq> loop)
           then (Inl StageLifecycleError, w) else (Inr (), w)))"

definition submit_callback_drain ::
  "env \<Rightarrow> 'e option \<Rightarrow> callable_ref \<Rightarrow> nat \<Rightarrow> ('v, 'e) world \<Rightarrow> ('e exc + unit) \<times> ('v, 'e) world" where
  "submit_callback_drain en failure drain i w =
     (case w_handles w i of
        None \<Rightarrow> (Inr (), w)
      | Some h \<Rightarrow>
          (case bind_for_drain en h w of
             (Inl e, w1) \<Rightarrow> (Inl e, w1)
           | (Inr _, w1) \<Rightarrow>
               (let loop = h_owner_loop h;
                    w2 = w1\<lparr>w_stage := (w_stage w1)\<lparr>st_active_handles :=
                           List.insert i (st_active_handles (w_stage w1))\<rparr>\<rparr>
                in if h_backend_kind h = Backend_caller
                   then (if usable en loop
                         then schedule_caller_runner en failure (the loop)
                                \<lparr>rj_handle = i, rj_runner = drain, rj_owner = False, rj_admission = None\<rparr> w2
                         else (Inl StageLifecycleError, w2))
                   else submit_handle en \<lparr>sm_handle = i, sm_runner = drain, sm_owner = False, sm_context = 0,
                          sm_phase = Phase_settlement,
                          sm_blocked = st_blocked_generation_ids (w_stage w2)\<rparr>
                          (st_generation_lease (w_stage w2)) w2)))"

text \<open>\<open>_register_callback\<close>, with the rollback when the drain cannot be submitted.\<close>

definition register_callback ::
  "env \<Rightarrow> 'e option \<Rightarrow> callable_ref \<Rightarrow> callback_kind \<Rightarrow> callable_ref \<Rightarrow> nat \<Rightarrow> nat \<Rightarrow> ('v, 'e) world
   \<Rightarrow> ('e exc + unit) \<times> ('v, 'e) world" where
  "register_callback en failure drain kind f ctx i w =
     (if \<not> callback_registration_allowed en (w_stage w) then (Inl StageClosedError, w)
      else case w_handles w i of
             None \<Rightarrow> (Inr (), w)
           | Some h \<Rightarrow>
               (case register_callback_locked kind f ctx h of (h1, should_start) \<Rightarrow>
                  (let w1 = put_handle i h1 w in
                   if \<not> should_start then (Inr (), w1)
                   else case submit_callback_drain en failure drain i w1 of
                          (Inr _, w2) \<Rightarrow> (Inr (), w2)
                        | (Inl e, w2) \<Rightarrow>
                            (Inl e, case w_handles w2 i of None \<Rightarrow> w2
                                    | Some h2 \<Rightarrow> put_handle i (register_callback_rollback h2) w2))))"

section \<open>Adopted tasks\<close>

text \<open>The rejection of a task that does not belong to the selected backend.\<close>

definition refuse_backend :: "('v, 'e) world \<Rightarrow> ('e exc + 'a) \<times> ('v, 'e) world" where
  "refuse_backend w =
     (case release_backend_if_quiescent (w_stage w) of
        (lease, st) \<Rightarrow>
          (case return_lease lease (w\<lparr>w_stage := st\<rparr>) of
             (Inl e, w1) \<Rightarrow> (Inl e, w1) | (Inr _, w1) \<Rightarrow> (Inl StageLifecycleError, w1)))"

definition adopt ::
  "env \<Rightarrow> task_ref \<Rightarrow> loop_ref \<Rightarrow> string \<Rightarrow> ('v, 'e) world \<Rightarrow> ('e exc + unit) \<times> ('v, 'e) world" where
  "adopt en task loop origin w =
     (if st_sealed (w_stage w) \<and> en_active_stage en \<noteq> Some (st_ref (w_stage w)) then (Inl StageClosedError, w)
      else case map_of (st_adopted_tasks (w_stage w)) task of
             Some existing \<Rightarrow> (if existing \<noteq> origin then (Inl StageLifecycleError, w) else (Inr (), w))
           | None \<Rightarrow>
               (case resolve_backend en w of
                  (Inl e, w1) \<Rightarrow> (Inl e, w1)
                | (Inr (backend, selected), w1) \<Rightarrow>
                    (if backend \<noteq> Backend_caller \<or> selected \<noteq> Some loop then refuse_backend w1
                     else let st = w_stage w1;
                              st1 = touch (en_now en) (st\<lparr>st_adopted_tasks := st_adopted_tasks st @ [(task, origin)]\<rparr>)
                          in (Inr (), w1\<lparr>w_stage := st1,
                               w_task_cancels := w_task_cancels w1 @ (if st_cancelling st1 then [task] else [])\<rparr>))))"

text \<open>\<open>create_task\<close>: \<open>failure\<close> is what \<open>loop.create_task\<close> raises, if it does.\<close>

definition create_task ::
  "env \<Rightarrow> bool \<Rightarrow> 'e option \<Rightarrow> string \<Rightarrow> ('v, 'e) world \<Rightarrow> ('e exc + task_ref) \<times> ('v, 'e) world" where
  "create_task en is_coroutine failure origin w =
     (if \<not> is_coroutine then (Inl TypeError, w)
      else case cl_running_loop (en_caller en) of
        None \<Rightarrow> (Inl RuntimeError, w)
      | Some loop \<Rightarrow>
          (if st_sealed (w_stage w) \<and> en_active_stage en \<noteq> Some (st_ref (w_stage w)) then (Inl StageClosedError, w)
           else case resolve_backend en w of
             (Inl e, w1) \<Rightarrow> (Inl e, w1)
           | (Inr (backend, selected), w1) \<Rightarrow>
               (if backend \<noteq> Backend_caller \<or> selected \<noteq> Some loop then refuse_backend w1
                else case failure of
                       Some error \<Rightarrow> (Inl (Raised error), w1)
                     | None \<Rightarrow>
                         (let t = w_next_task w1; w2 = w1\<lparr>w_next_task := Suc t\<rparr> in
                          case adopt en t loop origin w2 of
                            (Inr _, w3) \<Rightarrow> (Inr t, w3)
                          | (Inl e, w3) \<Rightarrow> (Inl e, w3\<lparr>w_task_cancels := w_task_cancels w3 @ [t]\<rparr>)))))"

text \<open>\<open>_adopted_task_done\<close>; the boolean says whether the completion observer is called.\<close>

definition adopted_task_done ::
  "env \<Rightarrow> task_ref \<Rightarrow> ('v, 'e) world \<Rightarrow> ('e exc + bool) \<times> ('v, 'e) world" where
  "adopted_task_done en task w =
     (let st = w_stage w in
      case map_of (st_adopted_tasks st) task of
        None \<Rightarrow> (Inr False, w)
      | Some origin \<Rightarrow>
          (let st1 = touch (en_now en) (st\<lparr>st_adopted_tasks := filter (\<lambda>p. fst p \<noteq> task) (st_adopted_tasks st)\<rparr>);
               (lease, st2) = (if has_active_work st1 then (None, st1) else release_backend_if_quiescent st1)
           in case return_lease lease (w\<lparr>w_stage := st2\<rparr>) of
                (Inl e, w1) \<Rightarrow> (Inl e, w1) | (Inr _, w1) \<Rightarrow> (Inr (st_on_adopted_done st \<noteq> None), w1)))"

definition adopted_count :: "('v, 'e) world \<Rightarrow> nat" where
  "adopted_count w = length (st_adopted_tasks (w_stage w))"

definition origin_for_adopted :: "task_ref \<Rightarrow> ('v, 'e) world \<Rightarrow> string option" where
  "origin_for_adopted task w = map_of (st_adopted_tasks (w_stage w)) task"

section \<open>Cancelling a scope\<close>

text \<open>What follows the locked section of \<open>_idle_deadline_reached\<close> and of \<open>cancel_and_wait_settled\<close>.\<close>

fun cancel_all ::
  "(loop_ref \<Rightarrow> bool) \<Rightarrow> (task_ref \<Rightarrow> bool) \<Rightarrow> nat list \<Rightarrow> task_ref list \<Rightarrow> ('v, 'e) world
   \<Rightarrow> ('e exc + unit) \<times> ('v, 'e) world" where
  "cancel_all loop_closed task_done [] tasks w =
     (Inr (), w\<lparr>w_task_cancels := w_task_cancels w @ filter (\<lambda>t. \<not> task_done t) tasks\<rparr>)"
| "cancel_all loop_closed task_done (i # handles) tasks w =
     (case cancel_handle loop_closed i w of
        (Inl e, w1) \<Rightarrow> (Inl e, w1)
      | (Inr _, w1) \<Rightarrow> cancel_all loop_closed task_done handles tasks w1)"

definition idle_timer_fires ::
  "(loop_ref \<Rightarrow> bool) \<Rightarrow> (task_ref \<Rightarrow> bool) \<Rightarrow> clock \<Rightarrow> nat \<Rightarrow> ('v, 'e) world
   \<Rightarrow> ('e exc + unit) \<times> ('v, 'e) world" where
  "idle_timer_fires loop_closed task_done now token w =
     (case idle_deadline_reached (origin_in w) now token (w_stage w) of
        (st, handles, tasks) \<Rightarrow> cancel_all loop_closed task_done handles tasks (w\<lparr>w_stage := st\<rparr>))"

text \<open>\<open>cancel_and_wait_settled\<close>; \<open>waited\<close> is what its final \<open>wait_settled\<close> returns or raises.\<close>

definition cancel_and_wait_settled ::
  "env \<Rightarrow> (task_ref \<Rightarrow> bool) \<Rightarrow> ('e exc + unit) \<Rightarrow> ('v, 'e) world \<Rightarrow> ('e exc + bool) \<times> ('v, 'e) world" where
  "cancel_and_wait_settled en task_done waited w =
     (case cancel_scope en (w_stage w) of
        (Inl e, st) \<Rightarrow> (Inl e, w\<lparr>w_stage := st\<rparr>)
      | (Inr None, st) \<Rightarrow> (Inr False, w\<lparr>w_stage := st\<rparr>)
      | (Inr (Some (handles, tasks)), st) \<Rightarrow>
          (case cancel_all (en_closed en) task_done handles tasks (w\<lparr>w_stage := st\<rparr>) of
             (Inl e, w1) \<Rightarrow> (Inl e, w1)
           | (Inr _, w1) \<Rightarrow> (case waited of Inl e \<Rightarrow> Inl e | Inr _ \<Rightarrow> Inr True, w1)))"

end
