(* ===== verification/Stream_Model.thy ===== *)
theory Stream_Model
  imports Scope_World Tunnel_Facts
begin

text \<open>
  Streams: the source consumers of \<open>Stage._go_stream\<close> and \<open>StageStream.py\<close>. A source is what
  iterating it gives: a list of items and the way it ends. \<open>stop k\<close> says whether the stop event
  is set when the consumer looks at it for the \<open>k\<close>-th time; \<open>close_error\<close> is what closing the
  source raises, if anything. The tunnel is private to the stream, so nothing else publishes.
\<close>

section \<open>The channel behind a stream\<close>

text \<open>
  What the consumers need of a channel: while it is open it accepts an item, stays open and has
  that item as its newest.
\<close>

fun feed :: "('a \<Rightarrow> 't \<Rightarrow> 'x + 't) \<Rightarrow> 'a list \<Rightarrow> 't \<Rightarrow> 'x + 't" where
  "feed acc [] t = Inr t"
| "feed acc (x # xs) t = (case acc x t of Inl e \<Rightarrow> Inl e | Inr t' \<Rightarrow> feed acc xs t')"

locale replay_channel =
  fixes accept :: "'a \<Rightarrow> 't \<Rightarrow> 'x + 't"
    and contents :: "'t \<Rightarrow> 'a list"
    and is_open :: "'t \<Rightarrow> bool"
  assumes accept_open: "is_open t \<Longrightarrow> \<exists>t'. accept x t = Inr t' \<and> is_open t' \<and> contents t' = contents t @ [x]"
begin

lemma feed_keeps_everything:
  "is_open t \<Longrightarrow> \<exists>t'. feed accept xs t = Inr t' \<and> is_open t' \<and> contents t' = contents t @ xs"
proof (induction xs arbitrary: t)
  case (Cons x xs)
  from accept_open [OF Cons.prems, of x] obtain t1 where
    "accept x t = Inr t1" "is_open t1" "contents t1 = contents t @ [x]" by blast
  with Cons.IH [of t1] show ?case by auto
qed simp

end

definition complete_open :: "('a, 'e) tunnel \<Rightarrow> bool" where
  "complete_open t \<longleftrightarrow> \<not> tun_terminal t \<and> tun_max_history t = None"

definition publish_item :: "(loop_ref \<Rightarrow> bool) \<Rightarrow> 'a \<Rightarrow> ('a, 'e) tunnel \<Rightarrow> 'e exc + ('a, 'e) tunnel" where
  "publish_item lc x t = map_sum id fst (put lc x t)"

interpretation channel: replay_channel "publish_item lc" tun_items complete_open
proof
  fix t :: "('a, 'e) tunnel" and x
  assume "complete_open t"
  then show "\<exists>t'. publish_item lc x t = Inr t' \<and> complete_open t' \<and> tun_items t' = tun_items t @ [x]"
    by (simp add: publish_item_def put_def complete_open_def tun_terminal_def)
       (simp add: append_item_def Let_def)
qed

section \<open>Consuming a source\<close>

datatype 'e source_end = Exhausted | Source_raises 'e | Source_cancelled

text \<open>
  The loop of \<open>consume_sync_source\<close>: \<open>None\<close> when it leaves normally, otherwise the exception, after
  \<open>tunnel.fail\<close>. An exception of the tunnel itself finds the tunnel already ended.
\<close>

fun sync_loop ::
  "(loop_ref \<Rightarrow> bool) \<Rightarrow> (nat \<Rightarrow> bool) \<Rightarrow> nat \<Rightarrow> 'a list \<Rightarrow> 'e source_end \<Rightarrow> 'e \<Rightarrow> ('a, 'e) tunnel
   \<Rightarrow> 'e exc option \<times> ('a, 'e) tunnel" where
  "sync_loop lc stop k [] ending cancel_error t =
     (if stop k then (None, t)
      else case ending of
             Exhausted \<Rightarrow> (None, t)
           | Source_raises e \<Rightarrow> (Some (Raised e), fst (tunnel_fail lc e t))
           | Source_cancelled \<Rightarrow> (Some CancelledError, fst (tunnel_fail lc cancel_error t)))"
| "sync_loop lc stop k (x # xs) ending cancel_error t =
     (if stop k then (None, t)
      else case publish_item lc x t of
             Inl e \<Rightarrow> (Some e, t)
           | Inr t' \<Rightarrow> sync_loop lc stop (Suc k) xs ending cancel_error t')"

text \<open>The \<open>async for\<close> of \<open>consume_async_source\<close>: the stop event is looked at after each item.\<close>

fun async_loop ::
  "(loop_ref \<Rightarrow> bool) \<Rightarrow> (nat \<Rightarrow> bool) \<Rightarrow> nat \<Rightarrow> 'a list \<Rightarrow> 'e source_end \<Rightarrow> ('a, 'e) tunnel
   \<Rightarrow> 'e exc option \<times> ('a, 'e) tunnel" where
  "async_loop lc stop k [] ending t =
     (case ending of
        Exhausted \<Rightarrow> (None, t)
      | Source_raises e \<Rightarrow> (Some (Raised e), fst (tunnel_fail lc e t))
      | Source_cancelled \<Rightarrow> (Some CancelledError, fst (tunnel_close lc t)))"
| "async_loop lc stop k (x # xs) ending t =
     (if stop k then (None, t)
      else case publish_item lc x t of
             Inl e \<Rightarrow> (Some e, t)
           | Inr t' \<Rightarrow> async_loop lc stop (Suc k) xs ending t')"

text \<open>The \<open>finally\<close> clause, and what follows it when nothing was raised.\<close>

definition finish_source ::
  "(loop_ref \<Rightarrow> bool) \<Rightarrow> 'e option \<Rightarrow> 'e exc option \<times> ('a, 'e) tunnel \<Rightarrow> ('e exc + 'a list) \<times> ('a, 'e) tunnel" where
  "finish_source lc close_error r =
     (case r of (raised, t) \<Rightarrow>
        (case close_error of
           Some e \<Rightarrow> (Inl (Raised e), fst (tunnel_fail lc e t))
         | None \<Rightarrow>
             (case raised of
                Some x \<Rightarrow> (Inl x, t)
              | None \<Rightarrow> (let t' = fst (tunnel_close lc t) in (retained_items_reference t', t')))))"

definition consume_sync_source ::
  "(loop_ref \<Rightarrow> bool) \<Rightarrow> (nat \<Rightarrow> bool) \<Rightarrow> 'a list \<Rightarrow> 'e source_end \<Rightarrow> 'e \<Rightarrow> 'e option \<Rightarrow> ('a, 'e) tunnel
   \<Rightarrow> ('e exc + 'a list) \<times> ('a, 'e) tunnel" where
  "consume_sync_source lc stop items ending cancel_error close_error t =
     (if stop 0 then finish_source lc close_error (None, fst (tunnel_close lc t))
      else finish_source lc close_error (sync_loop lc stop 1 items ending cancel_error t))"

definition consume_async_source ::
  "(loop_ref \<Rightarrow> bool) \<Rightarrow> (nat \<Rightarrow> bool) \<Rightarrow> 'a list \<Rightarrow> 'e source_end \<Rightarrow> 'e option \<Rightarrow> ('a, 'e) tunnel
   \<Rightarrow> ('e exc + 'a list) \<times> ('a, 'e) tunnel" where
  "consume_async_source lc stop items ending close_error t =
     (if stop 0 then finish_source lc close_error (None, fst (tunnel_close lc t))
      else finish_source lc close_error (async_loop lc stop 1 items ending t))"

section \<open>\<open>StageStream\<close>\<close>

record stage_stream =
  ss_handle :: "nat option"
  ss_closed :: bool
  ss_stop_requested :: bool
  ss_pending_callbacks :: "(callback_kind \<times> callable_ref \<times> nat) list"

definition stream_init :: stage_stream where
  "stream_init = \<lparr>ss_handle = None, ss_closed = False, ss_stop_requested = False, ss_pending_callbacks = []\<rparr>"

text \<open>The pending callbacks go to the handle in order; one that raises ends the loop.\<close>

fun register_pending ::
  "env \<Rightarrow> callable_ref \<Rightarrow> nat \<Rightarrow> (callback_kind \<times> callable_ref \<times> nat) list \<Rightarrow> ('v, 'e) world
   \<Rightarrow> ('e exc + unit) \<times> ('v, 'e) world" where
  "register_pending en drain i [] w = (Inr (), w)"
| "register_pending en drain i ((kind, f, ctx) # cbs) w =
     (case register_callback en None drain kind f ctx i w of
        (Inl e, w1) \<Rightarrow> (Inl e, w1)
      | (Inr _, w1) \<Rightarrow> register_pending en drain i cbs w1)"

definition ensure_started ::
  "env \<Rightarrow> callable_ref \<Rightarrow> go_args \<Rightarrow> stage_stream \<Rightarrow> ('v, 'e) world
   \<Rightarrow> ('e exc + nat) \<times> stage_stream \<times> ('v, 'e) world" where
  "ensure_started en drain a ss w =
     (case ss_handle ss of
        Some i \<Rightarrow> (Inr i, ss, w)
      | None \<Rightarrow>
          (case go_scalar en None a w of
             (Inl e, w1) \<Rightarrow> (Inl e, ss, w1)
           | (Inr i, w1) \<Rightarrow>
               (case register_pending en drain i (ss_pending_callbacks ss) w1 of
                  (Inl e, w2) \<Rightarrow> (Inl e, ss, w2)
                | (Inr _, w2) \<Rightarrow> (Inr i, ss\<lparr>ss_pending_callbacks := [], ss_handle := Some i\<rparr>, w2))))"

definition stream_register_callback ::
  "env \<Rightarrow> callable_ref \<Rightarrow> callback_kind \<Rightarrow> callable_ref \<Rightarrow> nat \<Rightarrow> stage_stream \<Rightarrow> ('v, 'e) world
   \<Rightarrow> ('e exc + unit) \<times> stage_stream \<times> ('v, 'e) world" where
  "stream_register_callback en drain kind f ctx ss w =
     (case ss_handle ss of
        None \<Rightarrow> (Inr (), ss\<lparr>ss_pending_callbacks := ss_pending_callbacks ss @ [(kind, f, ctx)]\<rparr>, w)
      | Some i \<Rightarrow> (case register_callback en None drain kind f ctx i w of (r, w1) \<Rightarrow> (r, ss, w1)))"

text \<open>\<open>close\<close> up to its final wait: the first request stops the source and cancels the handle.\<close>

definition stream_close ::
  "env \<Rightarrow> callable_ref \<Rightarrow> go_args \<Rightarrow> stage_stream \<Rightarrow> ('v, 'e) world
   \<Rightarrow> ('e exc + nat) \<times> stage_stream \<times> ('v, 'e) world" where
  "stream_close en drain a ss w =
     (let first = \<not> ss_closed ss;
          ss1 = (if first then ss\<lparr>ss_closed := True, ss_stop_requested := True\<rparr> else ss)
      in case ensure_started en drain a ss1 w of
           (Inl e, ss2, w1) \<Rightarrow> (Inl e, ss2, w1)
         | (Inr i, ss2, w1) \<Rightarrow>
             (if \<not> first then (Inr i, ss2, w1)
              else case cancel_handle (en_closed en) i w1 of
                     (Inl e, w2) \<Rightarrow> (Inl e, ss2, w2) | (Inr _, w2) \<Rightarrow> (Inr i, ss2, w2)))"

definition stream_is_ready :: "stage_stream \<Rightarrow> ('v, 'e) world \<Rightarrow> bool" where
  "stream_is_ready ss w =
     (case ss_handle ss of None \<Rightarrow> False
      | Some i \<Rightarrow> (case w_handles w i of None \<Rightarrow> False | Some h \<Rightarrow> body_done h))"

text \<open>
  \<open>get\<close> starts the stream and copies the list its handle gives; \<open>final\<close> is the body future when
  the wait ends. Synchronous iteration starts the stream, is refused on the loop that produces it,
  and then subscribes to the tunnel.
\<close>

definition stream_get ::
  "('e \<Rightarrow> bool) \<Rightarrow> env \<Rightarrow> callable_ref \<Rightarrow> go_args \<Rightarrow> ('v, 'e) body_future \<Rightarrow> stage_stream \<Rightarrow> ('v, 'e) world
   \<Rightarrow> ('e exc + 'v option) \<times> stage_stream \<times> ('v, 'e) world" where
  "stream_get is_timeout en drain a final ss w =
     (case ensure_started en drain a ss w of
        (Inl e, ss1, w1) \<Rightarrow> (Inl e, ss1, w1)
      | (Inr i, ss1, w1) \<Rightarrow>
          (case w_handles w1 i of
             None \<Rightarrow> (Inl StageLifecycleError, ss1, w1)
           | Some h \<Rightarrow> (handle_get is_timeout (cl_running_loop (en_caller en)) final h, ss1, w1)))"

definition stream_iter ::
  "env \<Rightarrow> callable_ref \<Rightarrow> go_args \<Rightarrow> ('a, 'e) tunnel \<Rightarrow> stage_stream \<Rightarrow> ('v, 'e) world
   \<Rightarrow> ('e exc + subscription) \<times> stage_stream \<times> ('v, 'e) world" where
  "stream_iter en drain a t ss w =
     (case ensure_started en drain a ss w of
        (Inl e, ss1, w1) \<Rightarrow> (Inl e, ss1, w1)
      | (Inr i, ss1, w1) \<Rightarrow>
          (case w_handles w1 i of
             None \<Rightarrow> (Inl StageLifecycleError, ss1, w1)
           | Some h \<Rightarrow>
               (case ensure_not_owner_loop_sync_wait (cl_running_loop (en_caller en)) (body_done h) h of
                  Inl e \<Rightarrow> (Inl e, ss1, w1)
                | Inr _ \<Rightarrow> (tunnel_iter t, ss1, w1))))"

definition stream_aiter ::
  "env \<Rightarrow> callable_ref \<Rightarrow> go_args \<Rightarrow> ('a, 'e) tunnel \<Rightarrow> stage_stream \<Rightarrow> ('v, 'e) world
   \<Rightarrow> ('e exc + subscription) \<times> stage_stream \<times> ('v, 'e) world" where
  "stream_aiter en drain a t ss w =
     (case ensure_started en drain a ss w of
        (Inl e, ss1, w1) \<Rightarrow> (Inl e, ss1, w1) | (Inr i, ss1, w1) \<Rightarrow> (tunnel_iter t, ss1, w1))"

definition stream_wait_settled ::
  "bool \<Rightarrow> env \<Rightarrow> callable_ref \<Rightarrow> go_args \<Rightarrow> ('v, 'e) handle \<Rightarrow> stage_stream \<Rightarrow> ('v, 'e) world
   \<Rightarrow> ('e exc + unit) \<times> stage_stream \<times> ('v, 'e) world" where
  "stream_wait_settled in_time en drain a h' ss w =
     (case ensure_started en drain a ss w of
        (Inl e, ss1, w1) \<Rightarrow> (Inl e, ss1, w1)
      | (Inr i, ss1, w1) \<Rightarrow>
          (case w_handles w1 i of
             None \<Rightarrow> (Inl StageLifecycleError, ss1, w1)
           | Some h \<Rightarrow> (handle_wait_settled (cl_running_loop (en_caller en)) in_time h h', ss1, w1)))"

definition stream_cancel ::
  "env \<Rightarrow> callable_ref \<Rightarrow> go_args \<Rightarrow> stage_stream \<Rightarrow> ('v, 'e) world
   \<Rightarrow> ('e exc + nat) \<times> stage_stream \<times> ('v, 'e) world" where
  "stream_cancel en drain a ss w =
     (case ensure_started en drain a ss w of
        (Inl e, ss1, w1) \<Rightarrow> (Inl e, ss1, w1)
      | (Inr i, ss1, w1) \<Rightarrow>
          (case cancel_handle (en_closed en) i w1 of
             (Inl e, w2) \<Rightarrow> (Inl e, ss1, w2) | (Inr _, w2) \<Rightarrow> (Inr i, ss1, w2)))"

text \<open>\<open>close\<close> and \<open>async_close\<close> to the end of their waits; \<open>h'\<close> is the handle when the wait ends.\<close>

definition stream_close_settled ::
  "bool \<Rightarrow> env \<Rightarrow> callable_ref \<Rightarrow> go_args \<Rightarrow> ('v, 'e) handle \<Rightarrow> stage_stream \<Rightarrow> ('v, 'e) world
   \<Rightarrow> ('e exc + unit) \<times> stage_stream \<times> ('v, 'e) world" where
  "stream_close_settled in_time en drain a h' ss w =
     (case stream_close en drain a ss w of
        (Inl e, ss1, w1) \<Rightarrow> (Inl e, ss1, w1)
      | (Inr i, ss1, w1) \<Rightarrow>
          (case w_handles w1 i of
             None \<Rightarrow> (Inl StageLifecycleError, ss1, w1)
           | Some h \<Rightarrow> (handle_wait_settled (cl_running_loop (en_caller en)) in_time h h', ss1, w1)))"

definition stream_async_close ::
  "bool \<Rightarrow> env \<Rightarrow> callable_ref \<Rightarrow> go_args \<Rightarrow> ('v, 'e) handle \<Rightarrow> stage_stream \<Rightarrow> ('v, 'e) world
   \<Rightarrow> ('e exc + unit) \<times> stage_stream \<times> ('v, 'e) world" where
  "stream_async_close in_time en drain a h' ss w =
     (case stream_close en drain a ss w of
        (Inl e, ss1, w1) \<Rightarrow> (Inl e, ss1, w1)
      | (Inr i, ss1, w1) \<Rightarrow> (handle_async_wait_settled in_time h', ss1, w1))"

text \<open>The two closes differ only where waiting would block the loop that runs the source.\<close>

lemma stream_closes_agree:
  assumes "cl_running_loop (en_caller en) = None" "\<And>i ss1 w1. stream_close en drain a ss w = (Inr i, ss1, w1) \<Longrightarrow> w_handles w1 i \<noteq> None"
  shows "stream_async_close in_time en drain a h' ss w = stream_close_settled in_time en drain a h' ss w"
  using assms
  by (auto simp: stream_async_close_def stream_close_settled_def handle_wait_settled_def handle_async_wait_settled_def
      ensure_not_owner_loop_sync_wait_def split: prod.splits sum.splits option.splits)

end
