(* ===== verification/Admission_Facts.thy ===== *)
theory Admission_Facts
  imports Scope_Model
begin

text \<open>
  Root admission: the bound on concurrently admitted roots, first-in-first-out hand-over of
  permits, and the bound on waiting roots, for every sequence of admissions and completions
  of admitted roots.
\<close>

section \<open>Well-formed queues\<close>

definition waiting :: "'e stage \<Rightarrow> nat \<Rightarrow> bool" where
  "waiting st i \<longleftrightarrow> st_admissions st i = Some \<lparr>ad_gate_done = False, ad_granted = False\<rparr>"

definition roots_ok :: "'e stage \<Rightarrow> bool" where
  "roots_ok st \<longleftrightarrow> distinct (st_pending_admissions st)
     \<and> (\<forall>i\<in>set (st_pending_admissions st). i < st_admission_counter st \<and> waiting st i)
     \<and> (\<forall>i ad. st_admissions st i = Some ad \<longrightarrow> i < st_admission_counter st)
     \<and> (st_pending_admissions st \<noteq> [] \<longrightarrow> st_max_concurrency st \<noteq> None)
     \<and> (\<forall>m. st_max_concurrency st = Some m \<longrightarrow> 0 < m \<and> st_active_root_count st \<le> m
            \<and> (st_pending_admissions st \<noteq> [] \<longrightarrow> st_active_root_count st = m))
     \<and> (\<forall>p. st_max_pending st = Some p \<longrightarrow> int (length (st_pending_admissions st)) \<le> p)"

lemma grant_next_empty [simp]: "st_pending_admissions st = [] \<Longrightarrow> grant_next st = st"
  by (simp add: grant_next.simps)

lemma grant_next_waiting:
  "st_pending_admissions st = i # q \<Longrightarrow> waiting st i \<Longrightarrow>
   grant_next st = st\<lparr>st_pending_admissions := q,
     st_admissions := (st_admissions st)(i \<mapsto> \<lparr>ad_gate_done = True, ad_granted = True\<rparr>),
     st_active_root_count := st_active_root_count st + 1\<rparr>"
  by (subst grant_next.simps) (simp add: waiting_def Let_def)

text \<open>A completed root hands its permit to the root that has waited longest.\<close>

lemma finish_granted:
  assumes "roots_ok st" "admission_granted st r"
  shows "finish_admission (Some r) st =
    (case st_pending_admissions st of
       [] \<Rightarrow> st\<lparr>st_active_root_count := st_active_root_count st - 1\<rparr>
     | i # q \<Rightarrow> st\<lparr>st_pending_admissions := q,
         st_admissions := (st_admissions st)(i \<mapsto> \<lparr>ad_gate_done = True, ad_granted = True\<rparr>)\<rparr>)"
proof (cases "st_pending_admissions st")
  case Nil
  with assms show ?thesis by (simp add: finish_admission_def)
next
  case (Cons i q)
  let ?st = "st\<lparr>st_active_root_count := st_active_root_count st - 1\<rparr>"
  have "waiting ?st i" using assms(1) Cons by (simp add: roots_ok_def waiting_def)
  with grant_next_waiting [of ?st i q] Cons assms(2) show ?thesis
    by (simp add: finish_admission_def)
qed

lemma finish_granted_ok:
  assumes "roots_ok st" "admission_granted st r"
  shows "roots_ok (finish_admission (Some r) st)"
proof (cases "st_pending_admissions st")
  case Nil
  with assms show ?thesis by (auto simp: finish_granted roots_ok_def)
next
  case (Cons i q)
  with assms(1) show ?thesis
    by (auto simp: finish_granted [OF assms] roots_ok_def waiting_def)
qed

lemma queue_root_ok:
  assumes "roots_ok st" "st_max_concurrency st = Some m" "\<not> st_active_root_count st < m"
    "st_max_pending st = None \<or> int (length (st_pending_admissions st)) < the (st_max_pending st)"
  shows "roots_ok (st\<lparr>st_admission_counter := Suc (st_admission_counter st),
         st_admissions := (st_admissions st)(st_admission_counter st \<mapsto> \<lparr>ad_gate_done = False, ad_granted = False\<rparr>),
         st_pending_admissions := st_pending_admissions st @ [st_admission_counter st]\<rparr>)"
  using assms by (auto simp: roots_ok_def waiting_def less_Suc_eq)

lemma admit_ok:
  assumes ok: "roots_ok st" and admit: "admit_root en st = (r, st')"
  shows "roots_ok st'"
proof (cases "st_max_concurrency st = None \<or> st_active_root_count st < the (st_max_concurrency st)")
  case True
  then have "st' = st \<or> st' = st\<lparr>st_active_root_count := st_active_root_count st + 1\<rparr>"
    using admit by (auto simp: admit_root_def split: if_splits)
  moreover have "roots_ok (st\<lparr>st_active_root_count := st_active_root_count st + 1\<rparr>)"
    using ok True by (auto simp: roots_ok_def waiting_def)
  ultimately show ?thesis using ok by blast
next
  case False
  then obtain m where m: "st_max_concurrency st = Some m" "\<not> st_active_root_count st < m" by auto
  show ?thesis
  proof (cases "st_max_pending st \<noteq> None \<and> the (st_max_pending st) \<le> int (length (st_pending_admissions st))")
    case True
    with m admit ok show ?thesis by (auto simp: admit_root_def split: if_splits)
  next
    case False
    with queue_root_ok [OF ok m] m admit ok show ?thesis
      by (auto simp: admit_root_def Let_def split: if_splits)
  qed
qed

section \<open>Every sequence of roots\<close>

text \<open>
  The ghost list \<open>rs_running\<close> holds the admissions of the roots that have been admitted and have
  not completed. A root admitted at once joins it with \<open>go\<close>; a queued root joins it when its
  gate opens; each leaves it by completing.
\<close>

record 'e root_system =
  rs_stage :: "'e stage"
  rs_running :: "admission_ref list"

definition granted_by :: "'e stage \<Rightarrow> 'e stage \<Rightarrow> admission_ref list" where
  "granted_by st st' = map Queued_admission
     (filter (\<lambda>i. i \<notin> set (st_pending_admissions st')) (st_pending_admissions st))"

inductive root_step :: "'e root_system \<Rightarrow> 'e root_system \<Rightarrow> bool" where
  root_admitted: "admit_root en (rs_stage s) = (Inr (Some Immediate_admission), st) \<Longrightarrow>
    root_step s \<lparr>rs_stage = st, rs_running = rs_running s @ [Immediate_admission]\<rparr>"
| root_queued: "admit_root en (rs_stage s) = (Inr (Some (Queued_admission i)), st) \<Longrightarrow>
    root_step s (s\<lparr>rs_stage := st\<rparr>)"
| root_nested: "admit_root en (rs_stage s) = (Inr None, st) \<Longrightarrow> root_step s (s\<lparr>rs_stage := st\<rparr>)"
| root_refused: "admit_root en (rs_stage s) = (Inl e, st) \<Longrightarrow> root_step s (s\<lparr>rs_stage := st\<rparr>)"
| root_completed: "r \<in> set (rs_running s) \<Longrightarrow> st = finish_admission (Some r) (rs_stage s) \<Longrightarrow>
    root_step s \<lparr>rs_stage = st, rs_running = remove1 r (rs_running s) @ granted_by (rs_stage s) st\<rparr>"

definition root_start :: "'e root_system \<Rightarrow> bool" where
  "root_start s \<longleftrightarrow> (\<exists>ref now a. stage_init ref now a = Inr (rs_stage s)) \<and> rs_running s = []"

definition root_inv :: "'e root_system \<Rightarrow> bool" where
  "root_inv s \<longleftrightarrow> roots_ok (rs_stage s)
     \<and> (\<forall>r\<in>set (rs_running s). admission_granted (rs_stage s) r)
     \<and> st_active_root_count (rs_stage s) = int (length (rs_running s))"

lemma stage_init_Inr:
  "stage_init ref now a = Inr st \<longleftrightarrow>
     \<not> (sa_max_concurrency a \<noteq> None \<and> the (sa_max_concurrency a) \<le> 0)
     \<and> \<not> (sa_max_pending a \<noteq> None \<and> the (sa_max_pending a) < 0)
     \<and> \<not> (sa_max_pending a \<noteq> None \<and> sa_max_concurrency a = None)
     \<and> \<not> (sa_idle_timeout a \<noteq> None \<and> the (sa_idle_timeout a) \<le> 0)
     \<and> \<not> (sa_executor a \<and> sa_max_workers a \<noteq> None)
     \<and> \<not> (sa_max_workers a \<noteq> None \<and> the (sa_max_workers a) \<le> 0)
     \<and> (case sa_loop a of Arg_auto \<Rightarrow> st = fresh_stage ref now a Mode_auto None
        | Arg_stage \<Rightarrow> st = fresh_stage ref now a Mode_stage None
        | Arg_loop l is_closed \<Rightarrow> \<not> is_closed \<and> st = fresh_stage ref now a Mode_caller (Some l)
        | _ \<Rightarrow> False)"
  unfolding stage_init_def by (cases "sa_loop a") auto

lemma stage_init_fresh:
  "stage_init ref now a = Inr st \<Longrightarrow> \<exists>mode loop. st = fresh_stage ref now a mode loop"
  by (auto simp: stage_init_Inr split: loop_arg.splits)

lemma stage_init_roots_ok:
  assumes "stage_init ref now a = Inr st"
  shows "roots_ok st \<and> st_active_root_count st = 0"
proof -
  obtain mode loop where st: "st = fresh_stage ref now a mode loop" using stage_init_fresh [OF assms] by blast
  have m: "0 < m" if "sa_max_concurrency a = Some m" for m using assms that by (simp add: stage_init_Inr)
  have p: "0 \<le> p" if "sa_max_pending a = Some p" for p using assms that by (simp add: stage_init_Inr)
  from m p show ?thesis by (simp add: st roots_ok_def fresh_stage_def) fastforce
qed

lemma granted_mono:
  "admission_granted st r \<Longrightarrow> st_admissions st' = (st_admissions st)(i \<mapsto> ad) \<Longrightarrow>
   ad_granted ad \<or> \<not> admission_granted st (Queued_admission i) \<Longrightarrow> admission_granted st' r"
  by (auto simp: admission_granted_def split: admission_ref.splits option.splits)

lemma admit_running:
  assumes ok: "roots_ok st" and "admit_root en st = (r, st')" "admission_granted st x"
  shows "admission_granted st' x"
proof -
  have "st_admissions st (st_admission_counter st) = None"
    using ok by (cases "st_admissions st (st_admission_counter st)") (auto simp: roots_ok_def)
  then have "\<not> admission_granted st (Queued_admission (st_admission_counter st))"
    by (simp add: admission_granted_def)
  with assms(2,3) show ?thesis
    by (auto simp: admit_root_def Let_def admission_granted_def split: if_splits admission_ref.splits option.splits)
qed

lemma admit_count:
  "admit_root en st = (r, st') \<Longrightarrow>
   st_active_root_count st' = st_active_root_count st + (if r = Inr (Some Immediate_admission) then 1 else 0)"
  by (auto simp: admit_root_def Let_def split: if_splits)

lemma completed_inv:
  assumes inv: "root_inv s" and r: "r \<in> set (rs_running s)"
  shows "root_inv \<lparr>rs_stage = finish_admission (Some r) (rs_stage s),
    rs_running = remove1 r (rs_running s) @ granted_by (rs_stage s) (finish_admission (Some r) (rs_stage s))\<rparr>"
proof -
  let ?st = "rs_stage s" and ?st' = "finish_admission (Some r) (rs_stage s)"
  have ok: "roots_ok ?st" and g: "admission_granted ?st r"
    and cnt: "st_active_root_count ?st = int (length (rs_running s))"
    and all: "\<forall>x\<in>set (rs_running s). admission_granted ?st x"
    using inv r by (auto simp: root_inv_def)
  note fin = finish_granted [OF ok g]
  have len: "length (rs_running s) = Suc (length (remove1 r (rs_running s)))"
    using r by (simp add: length_remove1) (metis Suc_pred length_pos_if_in_set)
  have run: "admission_granted ?st' x" if "x \<in> set (remove1 r (rs_running s))" for x
  proof -
    have "admission_granted ?st x" using all that set_remove1_subset by fastforce
    then show ?thesis
      by (auto simp: fin admission_granted_def split: list.splits admission_ref.splits option.splits)
  qed
  show ?thesis
  proof (cases "st_pending_admissions ?st")
    case Nil
    then show ?thesis
      using finish_granted_ok [OF ok g] run cnt len by (simp add: root_inv_def fin granted_by_def)
  next
    case (Cons i q)
    have "i \<notin> set q" using ok Cons by (auto simp: roots_ok_def)
    then have "granted_by ?st ?st' = [Queued_admission i]"
      by (auto simp: fin granted_by_def Cons filter_empty_conv)
    then show ?thesis
      using finish_granted_ok [OF ok g] run cnt len
      by (simp add: root_inv_def) (simp add: fin Cons admission_granted_def)
  qed
qed

lemma admit_inv:
  assumes "root_inv s" "admit_root en (rs_stage s) = (r, st)"
  shows "root_inv \<lparr>rs_stage = st, rs_running = rs_running s
    @ (if r = Inr (Some Immediate_admission) then [Immediate_admission] else [])\<rparr>"
proof -
  have ok: "roots_ok (rs_stage s)" using assms(1) by (simp add: root_inv_def)
  have "\<forall>x\<in>set (rs_running s). admission_granted st x"
    using assms(1) admit_running [OF ok assms(2)] by (auto simp: root_inv_def)
  with assms admit_ok [OF ok assms(2)] admit_count [OF assms(2)] show ?thesis
    by (auto simp: root_inv_def admission_granted_def)
qed

interpretation roots: inductive_invariant root_start root_step root_inv
proof
  show "root_inv s" if "root_start s" for s :: "'e root_system"
    using that stage_init_roots_ok by (fastforce simp: root_start_def root_inv_def)
  show "root_inv t" if "root_inv s" "root_step s t" for s t :: "'e root_system"
    using that(2)
  proof cases
    case (root_completed r st)
    with completed_inv [OF that(1)] show ?thesis by simp
  qed (use admit_inv [OF that(1)] in \<open>fastforce simp: root_inv_def\<close>)+
qed

end
