(* ===== verification/Idle_Facts.thy ===== *)
theory Idle_Facts
  imports Admission_Facts
begin

text \<open>
  Idle timing: whenever a scope with an idle limit has work that \<open>go\<close> or \<open>adopt\<close> registered,
  its timer is armed and due no later than the limit after the last activity; the scope is
  timed out only after a full limit without activity, and then reports its unresolved work.
\<close>

record 'e idle_system =
  id_stage :: "'e stage"
  id_now :: clock

definition armed :: "'e stage \<Rightarrow> bool" where
  "armed st \<longleftrightarrow> (case st_idle_timeout st of None \<Rightarrow> True
     | Some l \<Rightarrow> has_active_work st \<and> \<not> st_sealed st \<longrightarrow>
         (case st_idle_timer st of None \<Rightarrow> False
          | Some tm \<Rightarrow> tm_due tm \<le> st_last_activity st + l \<and> tm_token tm = st_idle_timer_token st))"

definition quiet :: "'e stage \<Rightarrow> bool" where
  "quiet st \<longleftrightarrow> (st_idle_timer st \<noteq> None \<longrightarrow> st_idle_timeout st \<noteq> None \<and> \<not> st_sealed st \<and> has_active_work st)
     \<and> (st_idle_timeout_error st \<noteq> None \<longrightarrow> st_sealed st)"

definition idle_ok :: "clock \<Rightarrow> 'e stage \<Rightarrow> bool" where
  "idle_ok now st \<longleftrightarrow> st_last_activity st \<le> now \<and> (\<forall>l. st_idle_timeout st = Some l \<longrightarrow> 0 < l) \<and> armed st \<and> quiet st"

definition idle_inv :: "'e idle_system \<Rightarrow> bool" where
  "idle_inv s \<longleftrightarrow> idle_ok (id_now s) (id_stage s)"

lemma idle_inv_stage: "idle_inv (s\<lparr>id_stage := st\<rparr>) = idle_ok (id_now s) st"
  by (simp add: idle_inv_def)

lemma idle_ok_later: "idle_ok now st \<Longrightarrow> now \<le> now' \<Longrightarrow> idle_ok now' st"
  by (simp add: idle_ok_def)

text \<open>Touching a scope arms the timer whatever work has just been added.\<close>

lemma touch_new_work:
  assumes "idle_ok now st" "has_active_work st'" "st_idle_timeout st' = st_idle_timeout st"
    "st_sealed st' = st_sealed st" "st_idle_timer st' = st_idle_timer st"
    "st_idle_timer_token st' = st_idle_timer_token st" "st_idle_timeout_error st' = st_idle_timeout_error st"
  shows "idle_ok now (touch now st')"
proof (cases "st_idle_timeout st")
  case None
  with assms show ?thesis
    by (simp add: idle_ok_def armed_def quiet_def touch_def has_active_work_def)
next
  case (Some l)
  show ?thesis
  proof (cases "st_idle_timer st")
    case None
    with Some assms show ?thesis
      by (auto simp: idle_ok_def armed_def quiet_def touch_def schedule_idle_timer_def has_active_work_def Let_def)
  next
    case (Some tm)
    with \<open>st_idle_timeout st = Some l\<close> assms show ?thesis
      by (auto simp: idle_ok_def armed_def quiet_def touch_def has_active_work_def)
  qed
qed

lemma touch_ok: "idle_ok now st \<Longrightarrow> idle_ok now (touch now st)"
  by (cases "has_active_work st")
     (simp_all add: touch_new_work, auto simp: idle_ok_def armed_def quiet_def touch_def has_active_work_def
       split: option.splits)

lemma tick_ok: "idle_ok now st \<Longrightarrow> idle_ok now (tick now st)"
  by (simp add: tick_def touch_ok)

lemma seal_ok: "idle_ok now st \<Longrightarrow> idle_ok now (seal st)"
  by (simp add: idle_ok_def armed_def quiet_def seal_def has_active_work_def split: option.splits)

lemma deadline_ok:
  assumes "idle_ok now st" "idle_deadline_reached origin now token st = (st', hs, ts)"
  shows "idle_ok now st'"
proof (cases "st_idle_timeout st")
  case None
  with assms show ?thesis by (simp add: idle_deadline_reached_def)
next
  case (Some l)
  show ?thesis
  proof (cases "token \<noteq> st_idle_timer_token st \<or> st_sealed st \<or> \<not> has_active_work st")
    case True
    with Some assms show ?thesis by (auto simp: idle_deadline_reached_def)
  next
    case False
    show ?thesis
    proof (cases "now - st_last_activity st < l")
      case True
      with Some False assms have "st' = schedule_idle_timer now (l - (now - st_last_activity st)) token (st\<lparr>st_idle_timer := None\<rparr>)"
        by (auto simp: idle_deadline_reached_def Let_def)
      with Some False assms(1) show ?thesis
        by (simp add: idle_ok_def armed_def quiet_def schedule_idle_timer_def has_active_work_def)
    next
      case False
      with \<open>\<not> (token \<noteq> _ \<or> _)\<close> Some assms(2)
      have "st' = st\<lparr>st_idle_timer := None, st_idle_timeout_error := Some (l, active_origins origin (st\<lparr>st_idle_timer := None\<rparr>)),
          st_sealed := True, st_cancelling := True\<rparr>"
        by (auto simp: idle_deadline_reached_def Let_def)
      with Some assms(1) show ?thesis by (simp add: idle_ok_def armed_def quiet_def has_active_work_def)
    qed
  qed
qed

text \<open>
  The scope under its clock. Any timer thread may call \<open>_idle_deadline_reached\<close> at any moment
  with any token, also one whose timer was cancelled too late.
\<close>

inductive idle_step :: "'e idle_system \<Rightarrow> 'e idle_system \<Rightarrow> bool" where
  idle_time: "id_now s \<le> now \<Longrightarrow> idle_step s (s\<lparr>id_now := now\<rparr>)"
| idle_go: "id_stage s = st \<Longrightarrow>
    idle_step s (s\<lparr>id_stage := touch (id_now s) (st\<lparr>st_active_handles := List.insert i (st_active_handles st)\<rparr>)\<rparr>)"
| idle_adopt: "id_stage s = st \<Longrightarrow>
    idle_step s (s\<lparr>id_stage := touch (id_now s) (st\<lparr>st_adopted_tasks := st_adopted_tasks st @ [(t, origin)]\<rparr>)\<rparr>)"
| idle_activity: "idle_step s (s\<lparr>id_stage := owned_activity (id_now s) (id_stage s)\<rparr>)"
| idle_tick: "idle_step s (s\<lparr>id_stage := tick (id_now s) (id_stage s)\<rparr>)"
| idle_handle_done: "st = (id_stage s)\<lparr>st_active_handles := removeAll i (st_active_handles (id_stage s))\<rparr> \<Longrightarrow>
    idle_step s (s\<lparr>id_stage := (if has_active_work st then st else snd (release_backend_if_quiescent st))\<rparr>)"
| idle_task_done: "st = touch (id_now s) ((id_stage s)\<lparr>st_adopted_tasks := filter (\<lambda>p. fst p \<noteq> t) (st_adopted_tasks (id_stage s))\<rparr>) \<Longrightarrow>
    idle_step s (s\<lparr>id_stage := (if has_active_work st then st else snd (release_backend_if_quiescent st))\<rparr>)"
| idle_fires: "idle_deadline_reached origin (id_now s) token (id_stage s) = (st, hs, ts) \<Longrightarrow>
    idle_step s (s\<lparr>id_stage := st\<rparr>)"
| idle_seal: "idle_step s (s\<lparr>id_stage := seal (id_stage s)\<rparr>)"

definition idle_start :: "'e idle_system \<Rightarrow> bool" where
  "idle_start s \<longleftrightarrow> (\<exists>ref a. stage_init ref (id_now s) a = Inr (id_stage s))"

lemma touch_active [simp]: "has_active_work (touch now st) = has_active_work st"
  by (simp add: touch_def has_active_work_def schedule_idle_timer_def Let_def split: option.splits)

lemma released_ok:
  assumes "idle_ok now st" "\<not> has_active_work st'" "st_last_activity st' \<le> now"
    "st_idle_timeout st' = st_idle_timeout st" "st_sealed st' = st_sealed st"
    "st_idle_timeout_error st' = st_idle_timeout_error st"
  shows "idle_ok now (snd (release_backend_if_quiescent st'))"
  using assms
  by (simp add: idle_ok_def armed_def quiet_def release_backend_if_quiescent_def has_active_work_def split: option.splits)

lemma handle_done_ok:
  assumes "idle_ok now st" and st'_def: "st' = st\<lparr>st_active_handles := removeAll i (st_active_handles st)\<rparr>"
  shows "idle_ok now (if has_active_work st' then st' else snd (release_backend_if_quiescent st'))"
proof (cases "has_active_work st'")
  case True
  then have "has_active_work st" by (auto simp: st'_def has_active_work_def)
  with True assms(1) show ?thesis
    by (cases "st_idle_timeout st"; cases "st_idle_timer st") (simp_all add: st'_def idle_ok_def armed_def quiet_def has_active_work_def)
next
  case False
  with released_ok [OF assms(1) False] assms(1) show ?thesis by (simp add: st'_def idle_ok_def)
qed

lemma touch_fields [simp]:
  "st_last_activity (touch now st) = now" "st_idle_timeout (touch now st) = st_idle_timeout st"
  "st_sealed (touch now st) = st_sealed st" "st_idle_timeout_error (touch now st) = st_idle_timeout_error st"
  "st_active_handles (touch now st) = st_active_handles st" "st_adopted_tasks (touch now st) = st_adopted_tasks st"
  "st_ref (touch now st) = st_ref st" "st_active_backend (touch now st) = st_active_backend st"
  "st_active_loop (touch now st) = st_active_loop st" "st_generation_lease (touch now st) = st_generation_lease st"
  "st_cancelling (touch now st) = st_cancelling st" "st_active_root_count (touch now st) = st_active_root_count st"
  "st_pending_admissions (touch now st) = st_pending_admissions st"
  "st_scope_settlement_errors (touch now st) = st_scope_settlement_errors st"
  "st_blocked_generation_ids (touch now st) = st_blocked_generation_ids st"
  "st_admissions (touch now st) = st_admissions st" "st_max_concurrency (touch now st) = st_max_concurrency st"
  by (simp_all add: touch_def schedule_idle_timer_def Let_def split: option.splits)

lemma task_done_ok:
  assumes "idle_ok now st" and st'_def: "st' = touch now (st\<lparr>st_adopted_tasks := filter P (st_adopted_tasks st)\<rparr>)"
  shows "idle_ok now (if has_active_work st' then st' else snd (release_backend_if_quiescent st'))"
proof (cases "has_active_work st'")
  case True
  with touch_new_work [OF assms(1), of "st\<lparr>st_adopted_tasks := filter P (st_adopted_tasks st)\<rparr>"] show ?thesis
    by (simp add: st'_def)
next
  case False
  with released_ok [OF assms(1) False] show ?thesis by (simp add: st'_def)
qed

lemma stage_init_idle_ok:
  assumes "stage_init ref now a = Inr st"
  shows "idle_ok now st"
proof -
  obtain mode loop where st: "st = fresh_stage ref now a mode loop" using stage_init_fresh [OF assms] by blast
  have l: "0 < l" if "sa_idle_timeout a = Some l" for l using assms that by (simp add: stage_init_Inr)
  show ?thesis
    by (cases "sa_idle_timeout a")
       (simp_all add: l st idle_ok_def armed_def quiet_def fresh_stage_def has_active_work_def)
qed

interpretation idling: inductive_invariant idle_start idle_step idle_inv
proof
  show "idle_inv s" if "idle_start s" for s :: "'e idle_system"
    using that stage_init_idle_ok by (auto simp: idle_start_def idle_inv_def)
  show "idle_inv t" if "idle_inv s" "idle_step s t" for s t :: "'e idle_system"
  proof -
    have ok: "idle_ok (id_now s) (id_stage s)" using that(1) by (simp add: idle_inv_def)
    from that(2) show ?thesis
    proof cases
      case (idle_time now)
      with ok show ?thesis by (simp add: idle_inv_def idle_ok_later)
    next
      case (idle_go st i)
      then show ?thesis
        by (simp add: idle_inv_stage) (rule touch_new_work [OF ok], auto simp: has_active_work_def List.insert_def)
    next
      case (idle_adopt st t origin)
      then show ?thesis
        by (simp add: idle_inv_stage) (rule touch_new_work [OF ok], auto simp: has_active_work_def)
    next
      case (idle_handle_done st i)
      show ?thesis unfolding idle_handle_done(1) idle_inv_stage by (rule handle_done_ok [OF ok idle_handle_done(2)])
    next
      case (idle_task_done st t)
      show ?thesis unfolding idle_task_done(1) idle_inv_stage by (rule task_done_ok [OF ok idle_task_done(2)])
    next
      case (idle_fires origin token st hs ts)
      with deadline_ok [OF ok] show ?thesis by (simp add: idle_inv_stage)
    qed (simp_all add: idle_inv_stage owned_activity_def ok touch_ok tick_ok seal_ok)
  qed
qed

section \<open>A scope only grows older\<close>

text \<open>Sealing is final and decides whether the scope timed out with which report, the configured limit is fixed, and neither the
  clock, the last activity nor the timer token goes back.\<close>

definition scope_ages :: "'e stage \<Rightarrow> 'e stage \<Rightarrow> bool" where
  "scope_ages st st' \<longleftrightarrow> (st_sealed st \<longrightarrow> st_sealed st' \<and> st_idle_timeout_error st' = st_idle_timeout_error st)
     \<and> st_idle_timeout st' = st_idle_timeout st \<and> st_last_activity st \<le> st_last_activity st'
     \<and> st_idle_timer_token st \<le> st_idle_timer_token st'"

definition idle_ages :: "'e idle_system \<Rightarrow> 'e idle_system \<Rightarrow> bool" where
  "idle_ages s t \<longleftrightarrow> id_now s \<le> id_now t \<and> scope_ages (id_stage s) (id_stage t)"

lemma scope_ages_refl [simp]: "scope_ages st st"
  by (simp add: scope_ages_def)

lemma scope_ages_trans: "scope_ages a b \<Longrightarrow> scope_ages b c \<Longrightarrow> scope_ages a c"
  by (auto simp: scope_ages_def)

lemma touch_token: "st_idle_timer_token st \<le> st_idle_timer_token (touch now st)"
  by (simp add: touch_def schedule_idle_timer_def Let_def split: option.splits)

lemma touch_ages:
  "st_last_activity st \<le> now \<Longrightarrow> scope_ages st st' \<Longrightarrow> st_last_activity st' \<le> now \<Longrightarrow> scope_ages st (touch now st')"
  using touch_token [of st' now] by (auto simp: scope_ages_def)

lemma release_ages: "scope_ages st st' \<Longrightarrow> scope_ages st (snd (release_backend_if_quiescent st'))"
  by (auto simp: scope_ages_def release_backend_if_quiescent_def)

lemma deadline_ages:
  assumes "quiet st" "idle_deadline_reached origin now token st = (st', hs, ts)"
  shows "scope_ages st st'"
  using assms
  by (auto simp: scope_ages_def quiet_def idle_deadline_reached_def schedule_idle_timer_def Let_def
      split: option.splits if_splits)

interpretation aging: monotone_system idle_start idle_step idle_inv idle_ages
proof
  show "idle_ages s t" if "idle_inv s" "idle_step s t" for s t :: "'e idle_system"
  proof -
    have q: "quiet (id_stage s)" and l: "st_last_activity (id_stage s) \<le> id_now s"
      using that(1) by (simp_all add: idle_inv_def idle_ok_def)
    have same: "scope_ages (id_stage s) ((id_stage s)\<lparr>st_active_handles := hs\<rparr>)"
      "scope_ages (id_stage s) ((id_stage s)\<lparr>st_adopted_tasks := as\<rparr>)" for hs as
      by (simp_all add: scope_ages_def)
    have touched: "scope_ages (id_stage s) (touch (id_now s) ((id_stage s)\<lparr>st_active_handles := hs\<rparr>))"
      "scope_ages (id_stage s) (touch (id_now s) ((id_stage s)\<lparr>st_adopted_tasks := as\<rparr>))"
      "scope_ages (id_stage s) (touch (id_now s) (id_stage s))" for hs as
      by (rule touch_ages [OF l], simp_all add: same l)+
    from that(2) show ?thesis
    proof cases
      case (idle_fires origin token st hs ts)
      with deadline_ages [OF q] show ?thesis by (simp add: idle_ages_def)
    next
      case idle_seal
      then show ?thesis by (simp add: idle_ages_def scope_ages_def seal_def)
    qed (auto simp: idle_ages_def owned_activity_def tick_def intro: touched same release_ages)
  qed
  show "idle_ages s u" if "idle_ages s t" "idle_ages t u" for s t u :: "'e idle_system"
    using that by (auto simp: idle_ages_def intro: scope_ages_trans)
qed (simp add: idle_ages_def)

end
