(* ===== verification/Carrier_Facts.thy ===== *)
theory Carrier_Facts
  imports Carrier_Model
begin

text \<open>
  Correctness of the carrier: the invariant of generations and slots under every
  interleaving of leases, submissions, releases and the control threads, and what lane
  selection guarantees.
\<close>

section \<open>Generations\<close>

text \<open>
  Which reservation counts each state allows, and whether the loop is running in it. A
  generation that was sealed before its loop started may be leased again.
\<close>

fun state_ok :: "generation_state \<Rightarrow> int \<Rightarrow> bool \<Rightarrow> bool" where
  "state_ok QUEUED r started \<longleftrightarrow> 0 < r \<and> \<not> started"
| "state_ok STARTING r started \<longleftrightarrow> False"
| "state_ok OPEN r started \<longleftrightarrow> 0 < r \<and> started"
| "state_ok SEALING r started \<longleftrightarrow> 0 \<le> r \<and> (started \<longrightarrow> r = 0)"
| "state_ok DRAINING r started \<longleftrightarrow> r = 0 \<and> started"
| "state_ok CLOSED r started \<longleftrightarrow> r = 0 \<and> \<not> started"

definition seal_requested :: "generation \<Rightarrow> bool" where
  "seal_requested g \<longleftrightarrow> Set_seal_event \<in> set (gen_ready g) \<or> gen_seal_event g = Some True"

definition gen_ok :: "generation \<Rightarrow> bool" where
  "gen_ok g \<longleftrightarrow> state_ok (gen_state g) (gen_reservations g) (gen_loop g \<noteq> None)
     \<and> (gen_seal_event g = None \<longleftrightarrow> gen_loop g = None)
     \<and> (gen_loop g \<noteq> None \<longrightarrow> (seal_requested g \<longleftrightarrow> gen_state g = SEALING \<or> gen_state g = DRAINING))"

text \<open>What a change of one generation must keep for its slot.\<close>

definition gen_compat :: "generation \<Rightarrow> generation \<Rightarrow> bool" where
  "gen_compat g g' \<longleftrightarrow> gen_id g' = gen_id g \<and> gen_slot_id g' = gen_slot_id g
     \<and> (gen_loop g' = None \<longleftrightarrow> gen_loop g = None)
     \<and> (gen_state g' = CLOSED \<longleftrightarrow> gen_state g = CLOSED)"

lemma reserve_gen_ok:
  "gen_ok g \<Longrightarrow> reservable (gen_state g) \<or> (gen_loop g = None \<and> gen_state g \<noteq> CLOSED) \<Longrightarrow>
   gen_ok (g\<lparr>gen_reservations := gen_reservations g + 1\<rparr>)"
  by (cases "gen_state g") (simp_all add: gen_ok_def reservable_def seal_requested_def)

lemma reserve_gen_compat [simp]: "gen_compat g (g\<lparr>gen_reservations := n\<rparr>)"
  by (simp add: gen_compat_def)

lemma release_gen_fields:
  assumes "release_gen g = Inr g'" "gen_seal_event g = None \<longleftrightarrow> gen_loop g = None"
  shows "0 < gen_reservations g" "gen_id g' = gen_id g" "gen_slot_id g' = gen_slot_id g"
    "gen_reservations g' = gen_reservations g - 1" "gen_loop g' = gen_loop g"
    "gen_seal_event g' = gen_seal_event g"
    "gen_state g' = (if gen_reservations g = 1 \<and> reservable (gen_state g) then SEALING else gen_state g)"
    "gen_ready g' = (if gen_reservations g = 1 \<and> gen_loop g \<noteq> None
       then gen_ready g @ [Set_seal_event] else gen_ready g)"
  using assms by (auto simp: release_gen_def Let_def split: if_splits)

lemma release_gen_ok:
  assumes "gen_ok g" "release_gen g = Inr g'"
  shows "gen_ok g' \<and> gen_compat g g' \<and> gen_reservations g' = gen_reservations g - 1"
proof -
  have "gen_seal_event g = None \<longleftrightarrow> gen_loop g = None" using assms(1) by (simp add: gen_ok_def)
  note f = release_gen_fields [OF assms(2) this]
  have "gen_ok g'"
  proof (cases "gen_state g")
    case SEALING
    with f assms(1) show ?thesis by (auto simp: gen_ok_def seal_requested_def reservable_def)
  next
    case OPEN
    with f assms(1) show ?thesis
      by (cases "gen_reservations g = 1") (simp_all add: gen_ok_def seal_requested_def reservable_def)
  next
    case QUEUED
    with f assms(1) show ?thesis
      by (cases "gen_reservations g = 1") (simp_all add: gen_ok_def seal_requested_def reservable_def)
  qed (use f assms(1) in \<open>simp_all add: gen_ok_def\<close>)
  moreover have "gen_compat g g'" using f by (auto simp: gen_compat_def reservable_def)
  ultimately show ?thesis using f(4) by simp
qed

interpretation reservations: counted_reservation gen_reservations
  "\<lambda>g. g\<lparr>gen_reservations := gen_reservations g + 1\<rparr>" release_gen "\<lambda>_. True"
proof
  fix g :: generation
  show "\<exists>e. release_gen g = Inl e" if "gen_reservations g \<le> 0"
    using that by (simp add: release_gen_def)
  show "\<exists>g'. release_gen g = Inr g' \<and> gen_reservations g' = gen_reservations g - 1 \<and> True"
    if "0 < gen_reservations g"
    using that by (cases "gen_reservations g = 1") (auto simp: release_gen_def Let_def)
qed simp_all

lemma enqueue_ok: "gen_ok g \<Longrightarrow> gen_ok (enqueue_submission sm g) \<and> gen_compat g (enqueue_submission sm g)"
  by (cases "gen_loop g")
     (simp_all add: enqueue_submission_def gen_ok_def gen_compat_def seal_requested_def)

lemma loop_job_ok:
  assumes "gen_ok g" "gen_loop g \<noteq> None" "loop_takes_job g = Some (j, g')"
  shows "gen_ok g' \<and> gen_compat g g'"
proof (cases "gen_ready g")
  case (Cons j' js)
  with assms show ?thesis
  proof (cases j')
    case Set_seal_event
    with Cons assms(3) have "g' = g\<lparr>gen_ready := js, gen_seal_event := Some True\<rparr>"
      by (simp add: loop_takes_job_def)
    with Cons Set_seal_event assms(1,2) show ?thesis
      by (simp add: gen_ok_def gen_compat_def seal_requested_def)
  next
    case (Start_submission sm)
    with Cons assms(3) have "g' = g\<lparr>gen_ready := js\<rparr>"
      by (simp add: loop_takes_job_def)
    with Cons Start_submission assms(1,2) show ?thesis
      by (cases "gen_loop g") (simp_all add: gen_ok_def gen_compat_def seal_requested_def)
  qed
qed (use assms in \<open>simp add: loop_takes_job_def\<close>)

lemma drain_gen_ok:
  assumes "gen_ok g" "gen_loop g \<noteq> None" "gen_seal_event g = Some True"
  shows "gen_ok (g\<lparr>gen_state := DRAINING\<rparr>) \<and> gen_compat g (g\<lparr>gen_state := DRAINING\<rparr>)"
proof -
  have "gen_state g = SEALING \<or> gen_state g = DRAINING"
    using assms by (simp add: gen_ok_def seal_requested_def)
  with assms show ?thesis
    by (elim disjE) (simp_all add: gen_ok_def gen_compat_def seal_requested_def)
qed

lemma start_gen_frame [simp]:
  "gen_id (start_gen l g) = gen_id g" "gen_slot_id (start_gen l g) = gen_slot_id g"
  "gen_loop (start_gen l g) = Some l" "gen_state (start_gen l g) \<noteq> CLOSED"
  "gen_reservations (start_gen l g) = gen_reservations g"
  by (simp_all add: start_gen_def)

lemma close_gen_frame [simp]:
  "gen_id (close_gen g) = gen_id g" "gen_slot_id (close_gen g) = gen_slot_id g"
  "gen_state (close_gen g) = CLOSED"
  by (simp_all add: close_gen_def)

lemma start_gen_ok: "gen_ok g \<Longrightarrow> gen_loop g = None \<Longrightarrow> gen_ok (start_gen l g)"
  by (cases "gen_state g"; cases "gen_reservations g = 0")
     (auto simp: gen_ok_def start_gen_def seal_requested_def)

lemma close_gen_ok: "gen_ok g \<Longrightarrow> gen_state g = DRAINING \<Longrightarrow> gen_ok (close_gen g)"
  by (simp add: gen_ok_def close_gen_def)

section \<open>Slots and the pool\<close>

definition opt_list :: "'a option \<Rightarrow> 'a list" where
  "opt_list x = (case x of None \<Rightarrow> [] | Some a \<Rightarrow> [a])"

definition owned_gen :: "carrier \<Rightarrow> slot \<Rightarrow> nat \<Rightarrow> bool \<Rightarrow> bool" where
  "owned_gen c s i started \<longleftrightarrow> (\<exists>g. car_gens c i = Some g \<and> gen_slot_id g = slot_id s
     \<and> gen_state g \<noteq> CLOSED \<and> (gen_loop g \<noteq> None \<longleftrightarrow> started))"

definition slot_ok :: "carrier \<Rightarrow> slot \<Rightarrow> bool" where
  "slot_ok c s \<longleftrightarrow> slot_executor_open s
     \<and> (\<forall>i. slot_current s = Some i \<longrightarrow> owned_gen c s i (slot_worker s \<noteq> None))
     \<and> (\<forall>j. slot_next s = Some j \<longrightarrow> owned_gen c s j False)
     \<and> (slot_current s = None \<longrightarrow> slot_next s = None)
     \<and> (slot_current s \<noteq> None \<longrightarrow> slot_current s \<noteq> slot_next s)
     \<and> (case slot_worker s of
          None \<Rightarrow> slot_control_queue s = opt_list (slot_current s) @ opt_list (slot_next s)
        | Some i \<Rightarrow> slot_current s = Some i \<and> slot_control_queue s = opt_list (slot_next s))"

definition gens_ok :: "carrier \<Rightarrow> bool" where
  "gens_ok c \<longleftrightarrow> (\<forall>i g. car_gens c i = Some g \<longrightarrow> gen_id g = i \<and> i \<le> car_generation_counter c \<and> gen_ok g)"

definition pool_ok :: "carrier \<Rightarrow> bool" where
  "pool_ok c \<longleftrightarrow> distinct (map slot_id (all_slots c))
     \<and> (\<forall>s\<in>set (all_slots c). slot_id s \<le> car_slot_counter c)
     \<and> 0 < length (car_slots c) \<and> length (car_slots c) = car_loop_count c
     \<and> car_selection_cursor c < length (car_slots c)"

definition holds :: "slot \<Rightarrow> nat \<Rightarrow> bool" where
  "holds s i \<longleftrightarrow> slot_current s = Some i \<or> slot_next s = Some i"

text \<open>Every generation that is not closed is held by its slot, which is still in the pool.\<close>

definition covered :: "carrier \<Rightarrow> bool" where
  "covered c \<longleftrightarrow> (\<forall>i g. car_gens c i = Some g \<longrightarrow> gen_state g \<noteq> CLOSED \<longrightarrow>
     (\<exists>s\<in>set (all_slots c). slot_id s = gen_slot_id g \<and> holds s i))"

definition carrier_ok :: "carrier \<Rightarrow> bool" where
  "carrier_ok c \<longleftrightarrow> gens_ok c \<and> pool_ok c \<and> (\<forall>s\<in>set (all_slots c). slot_ok c s) \<and> covered c
     \<and> (car_settings_frozen c \<or> car_gens c = Map.empty)"

lemma carrier_okD:
  assumes "carrier_ok c"
  shows "gens_ok c" "pool_ok c" "s \<in> set (all_slots c) \<Longrightarrow> slot_ok c s"
  using assms by (auto simp: carrier_ok_def)

lemma put_gen_frame [simp]:
  "car_slots (put_gen g c) = car_slots c" "car_escape_slots (put_gen g c) = car_escape_slots c"
  "car_generation_counter (put_gen g c) = car_generation_counter c"
  "car_slot_counter (put_gen g c) = car_slot_counter c" "car_loop_count (put_gen g c) = car_loop_count c"
  "car_selection_cursor (put_gen g c) = car_selection_cursor c"
  "car_settings_frozen (put_gen g c) = car_settings_frozen c"
  "car_gens (put_gen g c) = (car_gens c)(gen_id g \<mapsto> g)"
  "all_slots (put_gen g c) = all_slots c" "pool_ok (put_gen g c) = pool_ok c"
  by (simp_all add: put_gen_def all_slots_def pool_ok_def)

lemma put_gen_gens_ok:
  "gens_ok c \<Longrightarrow> car_gens c i = Some g \<Longrightarrow> gen_id g' = i \<Longrightarrow> gen_ok g' \<Longrightarrow> gens_ok (put_gen g' c)"
  by (auto simp: gens_ok_def)

lemma put_slot_frame [simp]:
  "car_gens (put_slot s c) = car_gens c"
  "car_generation_counter (put_slot s c) = car_generation_counter c"
  "car_slot_counter (put_slot s c) = car_slot_counter c" "car_loop_count (put_slot s c) = car_loop_count c"
  "car_selection_cursor (put_slot s c) = car_selection_cursor c"
  "length (car_slots (put_slot s c)) = length (car_slots c)"
  by (simp_all add: put_slot_def)

lemma put_slot_all [simp]:
  "all_slots (put_slot s c) = map (\<lambda>s'. if slot_id s' = slot_id s then s else s') (all_slots c)"
  by (simp add: put_slot_def all_slots_def)

lemma find_slot_Some:
  "find_slot i c = Some s \<Longrightarrow> s \<in> set (all_slots c) \<and> slot_id s = i"
  by (auto simp: find_slot_def find_Some_iff)

lemma find_slot_mem:
  assumes "pool_ok c" "s \<in> set (all_slots c)"
  shows "find_slot (slot_id s) c = Some s"
proof -
  obtain s' where s': "find_slot (slot_id s) c = Some s'"
    using assms(2) by (cases "find_slot (slot_id s) c") (auto simp: find_slot_def find_None_iff)
  with find_slot_Some [OF s'] assms show ?thesis
    by (metis distinct_map inj_onD pool_ok_def)
qed

lemma coveredD:
  "carrier_ok c \<Longrightarrow> car_gens c i = Some g \<Longrightarrow> gen_state g \<noteq> CLOSED \<Longrightarrow>
   \<exists>s\<in>set (all_slots c). slot_id s = gen_slot_id g \<and> holds s i"
  by (simp add: carrier_ok_def covered_def)

lemma held_by_slot:
  assumes "carrier_ok c" "s \<in> set (all_slots c)" "car_gens c i = Some g" "gen_slot_id g = slot_id s"
    "gen_state g \<noteq> CLOSED"
  shows "holds s i"
  using coveredD [OF assms(1,3,5)] find_slot_mem [of c] assms
  by (metis carrier_okD(2) option.inject)

lemma put_gen_ok:
  assumes c: "carrier_ok c" and g: "car_gens c i = Some g" and g': "gen_ok g'" "gen_compat g g'"
  shows "carrier_ok (put_gen g' c)"
proof -
  have id: "gen_id g' = i" "i \<le> car_generation_counter c"
    using c g g'(2) by (auto simp: carrier_ok_def gens_ok_def gen_compat_def)
  have owned: "owned_gen (put_gen g' c) s j st" if "owned_gen c s j st" for s j st
    using that g g'(2) id by (auto simp: owned_gen_def gen_compat_def)
  have "slot_ok (put_gen g' c) s" if "slot_ok c s" for s
    using that owned by (auto simp: slot_ok_def)
  moreover have "gens_ok (put_gen g' c)"
    using c id g'(1) by (auto simp: carrier_ok_def gens_ok_def)
  moreover have "covered (put_gen g' c)"
    using c g g'(2) id unfolding carrier_ok_def covered_def gen_compat_def
    by (metis map_upd_Some_unfold put_gen_frame(8,9))
  ultimately show ?thesis
    using c g by (auto simp: carrier_ok_def)
qed

lemma slot_ok_other:
  assumes "slot_ok c r"
    and "\<And>j g. car_gens c j = Some g \<Longrightarrow> gen_slot_id g = slot_id r \<Longrightarrow> car_gens c' j = Some g"
  shows "slot_ok c' r"
proof -
  have "owned_gen c' r j st" if "owned_gen c r j st" for j st
    using that assms(2) unfolding owned_gen_def by blast
  with assms(1) show ?thesis by (auto simp: slot_ok_def)
qed

text \<open>
  The shape of every section under a slot's admission lock: one slot changes, and with it
  only generations of that slot.
\<close>

lemma slot_update_ok:
  assumes c: "carrier_ok c" and s: "s \<in> set (all_slots c)" "slot_id s' = slot_id s"
    and frame: "car_slots c' = car_slots c" "car_escape_slots c' = car_escape_slots c"
      "car_slot_counter c' = car_slot_counter c" "car_loop_count c' = car_loop_count c"
      "car_selection_cursor c' = car_selection_cursor c"
    and frozen: "car_settings_frozen c'"
    and gens: "gens_ok c'"
    and new: "slot_ok c' s'"
    and same: "\<And>j g. gen_slot_id g \<noteq> slot_id s \<Longrightarrow> car_gens c' j = Some g \<longleftrightarrow> car_gens c j = Some g"
    and cover: "\<And>j g. car_gens c' j = Some g \<Longrightarrow> gen_slot_id g = slot_id s \<Longrightarrow> gen_state g \<noteq> CLOSED \<Longrightarrow>
      holds s' j"
  shows "carrier_ok (put_slot s' c')"
proof -
  have all: "all_slots c' = all_slots c" by (simp add: all_slots_def frame)
  have ids: "map slot_id (all_slots (put_slot s' c')) = map slot_id (all_slots c)"
    using s(2) by (simp add: all comp_def)
  have "slot_ok (put_slot s' c') r" if "r \<in> set (all_slots (put_slot s' c'))" for r
  proof -
    from that s(2) consider "r = s'" | "r \<in> set (all_slots c)" "slot_id r \<noteq> slot_id s"
      by (auto simp: all split: if_splits)
    then have "slot_ok c' r"
    proof cases
      case 2
      then show ?thesis using slot_ok_other [of c r c'] same carrier_okD(3) [OF c] by auto
    qed (simp add: new)
    then show ?thesis by (simp add: slot_ok_def owned_gen_def)
  qed
  moreover have "pool_ok (put_slot s' c')"
  proof -
    have "\<forall>r\<in>set (all_slots (put_slot s' c')). slot_id r \<le> car_slot_counter c"
      using c s ids by (auto simp: carrier_ok_def pool_ok_def all split: if_splits)
    then show ?thesis
      using c ids by (simp add: carrier_ok_def pool_ok_def frame del: put_slot_all)
  qed
  moreover have "covered (put_slot s' c')"
  proof -
    have "\<exists>r\<in>set (all_slots (put_slot s' c')). slot_id r = gen_slot_id g \<and> holds r i"
      if g: "car_gens c' i = Some g" "gen_state g \<noteq> CLOSED" for i g
    proof (cases "gen_slot_id g = slot_id s")
      case True
      moreover have "s' \<in> set (all_slots (put_slot s' c'))" using s by (auto simp: all)
      ultimately show ?thesis using cover g s(2) by metis
    next
      case False
      with same g have "car_gens c i = Some g" by simp
      then obtain r where "r \<in> set (all_slots c)" "slot_id r = gen_slot_id g" "holds r i"
        using coveredD [OF c _ g(2)] by blast
      with False s show ?thesis by (auto simp: all intro!: bexI [of _ r])
    qed
    then show ?thesis by (simp add: covered_def del: put_slot_all)
  qed
  ultimately show ?thesis
    using gens frozen by (simp add: carrier_ok_def gens_ok_def put_slot_def del: put_slot_all)
qed

section \<open>Leases\<close>

lemma create_reserve_ok:
  assumes c: "carrier_ok c" "car_settings_frozen c" and s: "s \<in> set (all_slots c)"
    and free: "if as_next then slot_current s \<noteq> None \<and> slot_next s = None else slot_current s = None"
    and create: "create_generation_locked as_next s c = (r, c1)"
  shows "r = Inr (Suc (car_generation_counter c)) \<and> carrier_ok (bump_reservations (Suc (car_generation_counter c)) c1)"
proof -
  let ?i = "Suc (car_generation_counter c)"
  let ?g = "(new_generation ?i (slot_id s))\<lparr>gen_reservations := 1\<rparr>"
  let ?s = "(if as_next then s\<lparr>slot_next := Some ?i\<rparr> else s\<lparr>slot_current := Some ?i\<rparr>)
              \<lparr>slot_control_queue := slot_control_queue s @ [?i]\<rparr>"
  let ?c = "put_gen ?g (c\<lparr>car_generation_counter := ?i\<rparr>)"
  have ok: "slot_ok c s" using carrier_okD(3) [OF c(1) s] .
  have fresh: "i \<le> car_generation_counter c" if "car_gens c i = Some g" for i g
    using that c(1) by (auto simp: carrier_ok_def gens_ok_def)
  have fresh': "car_gens c ?i = None" using fresh by (cases "car_gens c ?i") force+
  have old: "owned_gen ?c s j st" if "owned_gen c s j st" for j st
    using that fresh' by (auto simp: owned_gen_def new_generation_def)
  have new: "owned_gen ?c s ?i False"
    by (simp add: owned_gen_def new_generation_def)
  have neq: "slot_current s \<noteq> Some ?i"
    using ok fresh' by (auto simp: slot_ok_def owned_gen_def)
  have "slot_ok ?c ?s"
    using ok free old new neq
    by (auto simp: slot_ok_def owned_gen_def opt_list_def split: option.splits if_splits)
  moreover have "gens_ok ?c"
    using c(1) fresh by (auto simp: carrier_ok_def gens_ok_def new_generation_def gen_ok_def seal_requested_def
        intro: le_SucI)
  moreover have "holds ?s j"
    if "car_gens ?c j = Some g" "gen_slot_id g = slot_id s" "gen_state g \<noteq> CLOSED" for j g
  proof (cases "j = ?i")
    case False
    with that have "car_gens c j = Some g" by (simp add: new_generation_def split: if_splits)
    then have "holds s j" using held_by_slot [OF c(1) s] that by blast
    with free ok show ?thesis by (auto simp: holds_def slot_ok_def)
  qed (simp add: holds_def)
  ultimately have "carrier_ok (put_slot ?s ?c)"
    using c s fresh' by (intro slot_update_ok [of c s]) (auto simp: new_generation_def put_gen_def)
  moreover have "bump_reservations ?i c1 = put_slot ?s ?c" "r = Inr ?i"
    using create ok
    by (auto simp: create_generation_locked_def bump_reservations_def slot_ok_def Let_def new_generation_def
        put_gen_def put_slot_def split: if_splits)
  ultimately show ?thesis by simp
qed

lemma gensD:
  "carrier_ok c \<Longrightarrow> car_gens c i = Some g \<Longrightarrow> gen_ok g \<and> gen_id g = i \<and> i \<le> car_generation_counter c"
  by (simp add: carrier_ok_def gens_ok_def)

lemma bump_ok:
  assumes "carrier_ok c" "car_gens c i = Some g"
    "reservable (gen_state g) \<or> (gen_loop g = None \<and> gen_state g \<noteq> CLOSED)"
  shows "carrier_ok (bump_reservations i c)"
  using assms put_gen_ok [OF assms(1,2) reserve_gen_ok] gensD [OF assms(1,2)]
  by (auto simp: bump_reservations_def)

lemma bump_frame [simp]:
  "all_slots (bump_reservations i c) = all_slots c"
  "car_settings_frozen (bump_reservations i c) = car_settings_frozen c"
  "car_slots (bump_reservations i c) = car_slots c"
  by (simp_all add: bump_reservations_def split: option.splits)

lemma reservable_known: "reservable (gen_state_of c i) \<Longrightarrow> \<exists>g. car_gens c i = Some g \<and> reservable (gen_state g)"
  by (auto simp: gen_state_of_def reservable_def split: option.splits)

text \<open>A lease: the pool stays well formed and the leased generation is held by the slot asked for.\<close>

lemma reserve_ok:
  assumes c: "carrier_ok c" "car_settings_frozen c" and s: "s \<in> set (all_slots c)"
    and r: "reserve_locked preferred s c = (r, c')"
  shows "carrier_ok c'"
proof (cases preferred)
  case (Some p)
  with r show ?thesis
    using c bump_ok [OF c(1)] reservable_known [of c p]
    by (auto simp: reserve_locked_def split: if_splits)
next
  case None
  show ?thesis
  proof (cases "slot_current s")
    case None
    with \<open>preferred = None\<close> r show ?thesis
      using create_reserve_ok [OF c s, of False]
      by (auto simp: reserve_locked_def split: prod.splits sum.splits)
  next
    case (Some i)
    note cur = this
    show ?thesis
    proof (cases "reservable (gen_state_of c i)")
      case True
      with cur \<open>preferred = None\<close> r show ?thesis
        using bump_ok [OF c(1)] reservable_known [of c i] by (auto simp: reserve_locked_def)
    next
      case False
      show ?thesis
      proof (cases "slot_next s")
        case None
        with cur False \<open>preferred = None\<close> r show ?thesis
          using create_reserve_ok [OF c s, of True]
          by (auto simp: reserve_locked_def split: prod.splits sum.splits)
      next
        case (Some j)
        with carrier_okD(3) [OF c(1) s] obtain g where "car_gens c j = Some g"
          "gen_loop g = None" "gen_state g \<noteq> CLOSED"
          by (auto simp: slot_ok_def owned_gen_def)
        with Some cur False \<open>preferred = None\<close> r show ?thesis
          using bump_ok [OF c(1)] by (auto simp: reserve_locked_def)
      qed
    qed
  qed
qed

lemma slot_acquire_ok:
  "carrier_ok c \<Longrightarrow> car_settings_frozen c \<Longrightarrow> slot_acquire_lease preferred sid c = (r, c') \<Longrightarrow> carrier_ok c'"
  using reserve_ok find_slot_Some [of sid c]
  by (auto simp: slot_acquire_lease_def split: option.splits)

lemma retain_reservation_ok:
  assumes "carrier_ok c" "retain_reservation i c = Inr c'"
  shows "carrier_ok c'"
proof -
  from assms(2) obtain g where g: "car_gens c i = Some g" "gen_state g = STARTING \<or> gen_state g = OPEN"
    "c' = put_gen (g\<lparr>gen_reservations := gen_reservations g + 1\<rparr>) c"
    by (auto simp: retain_reservation_def split: option.splits if_splits)
  then have "reservable (gen_state g)" by (auto simp: reservable_def)
  with g gensD [OF assms(1) g(1)] show ?thesis
    using put_gen_ok [OF assms(1) g(1) reserve_gen_ok] by simp
qed

lemma release_reservation_ok:
  assumes "carrier_ok c" "release_reservation i c = (Inr c' :: 'e exc + carrier)"
  shows "carrier_ok c'"
proof -
  from assms(2) obtain g g' where g: "car_gens c i = Some g" "release_gen g = (Inr g' :: 'e exc + generation)"
    "c' = put_gen g' c"
    by (auto simp: release_reservation_def split: option.splits sum.splits)
  with gensD [OF assms(1) g(1)] release_gen_ok [OF _ g(2)] show ?thesis
    using put_gen_ok [OF assms(1) g(1)] by simp
qed

lemma freeze_ok [simp]: "carrier_ok c \<Longrightarrow> carrier_ok (freeze_settings c)"
  by (simp add: carrier_ok_def freeze_settings_def gens_ok_def pool_ok_def all_slots_def slot_ok_def
      owned_gen_def covered_def)

lemma freeze_frame [simp]:
  "car_gens (freeze_settings c) = car_gens c" "all_slots (freeze_settings c) = all_slots c"
  "car_settings_frozen (freeze_settings c)" "car_slots (freeze_settings c) = car_slots c"
  by (simp_all add: freeze_settings_def all_slots_def)

lemma slot_ok_cong:
  "car_gens c' = car_gens c \<Longrightarrow> slot_ok c' s = slot_ok c s"
  by (simp add: slot_ok_def owned_gen_def)

lemma slot_ok_fresh:
  "slot_ok c \<lparr>slot_id = i, slot_current = None, slot_next = None, slot_on_idle = b,
     slot_executor_open = True, slot_control_queue = [], slot_worker = None\<rparr>"
  by (simp add: slot_ok_def opt_list_def)

lemma new_escape_ok:
  assumes c: "carrier_ok c" and new: "new_slot_locked True c = (s, c')"
  shows "carrier_ok c' \<and> s \<in> set (all_slots c') \<and> slot_current s = None
    \<and> car_gens c' = car_gens c \<and> car_settings_frozen c' = car_settings_frozen c"
proof -
  let ?s = "\<lparr>slot_id = Suc (car_slot_counter c), slot_current = None, slot_next = None, slot_on_idle = True,
               slot_executor_open = True, slot_control_queue = [], slot_worker = None\<rparr>"
  have c': "c' = c\<lparr>car_slot_counter := Suc (car_slot_counter c), car_escape_slots := car_escape_slots c @ [?s]\<rparr>"
    and s: "s = ?s"
    using new by (auto simp: new_slot_locked_def Let_def)
  have all: "all_slots c' = all_slots c @ [?s]" by (simp add: c' all_slots_def)
  have gens: "car_gens c' = car_gens c" by (simp add: c')
  have below: "\<forall>r\<in>set (all_slots c). slot_id r \<le> car_slot_counter c"
    using c by (simp add: carrier_ok_def pool_ok_def)
  then have "pool_ok c'"
    using c unfolding pool_ok_def all carrier_ok_def by (auto simp: c' intro: le_SucI)
  moreover have "slot_ok c' r" if "r \<in> set (all_slots c')" for r
    using that carrier_okD(3) [OF c] slot_ok_fresh slot_ok_cong [OF gens] by (auto simp: all)
  moreover have "covered c'" using c unfolding carrier_ok_def covered_def gens all by auto
  moreover have "gens_ok c'" using c by (simp add: carrier_ok_def gens_ok_def c')
  ultimately show ?thesis using c by (simp add: carrier_ok_def c' s all_slots_def)
qed

lemma cursor_ok:
  "carrier_ok c \<Longrightarrow> n < length (car_slots c) \<Longrightarrow> carrier_ok (c\<lparr>car_selection_cursor := n\<rparr>)"
  by (simp add: carrier_ok_def gens_ok_def pool_ok_def all_slots_def slot_ok_def owned_gen_def covered_def)

lemma select_slot_ok:
  assumes c: "carrier_ok c" and sel: "select_slot avoid running blocked c = (s, c')"
  shows "carrier_ok c' \<and> car_settings_frozen c' \<and> s \<in> set (all_slots c') \<and> car_gens c' = car_gens c"
proof (cases "first_min (slot_rank (freeze_settings c))
    (filter (\<lambda>(i, s). slot_candidate (freeze_settings c) avoid running blocked s)
      (List.enumerate 0 (car_slots (freeze_settings c))))")
  case None
  then have "new_slot_locked True (freeze_settings c) = (s, c')"
    using sel by (simp add: select_slot_def del: first_min_None)
  from new_escape_ok [OF freeze_ok [OF c] this] show ?thesis by simp
next
  case (Some p)
  obtain i s0 where p: "p = (i, s0)" by (cases p)
  have "(i, s0) \<in> set (List.enumerate 0 (car_slots c))"
    using first_min_Some [OF Some] by (simp add: p)
  then have i: "i < length (car_slots c)" "s0 = car_slots c ! i"
    by (auto simp: in_set_enumerate_eq)
  have "s = s0" "c' = (freeze_settings c)\<lparr>car_selection_cursor := Suc i mod length (car_slots c)\<rparr>"
    using sel Some by (auto simp: select_slot_def p)
  moreover have "carrier_ok ((freeze_settings c)\<lparr>car_selection_cursor := Suc i mod length (car_slots c)\<rparr>)"
    using i(1) by (intro cursor_ok freeze_ok c) (simp add: mod_less_divisor [OF le_less_trans [OF le0 i(1)]])
  ultimately show ?thesis
    using i by (auto simp: all_slots_def freeze_settings_def)
qed

lemma selected_lease_ok:
  assumes "select_slot avoid running blocked c = (s, c1)" "carrier_ok c"
    "slot_acquire_lease None (slot_id s) c1 = (r, c')"
  shows "carrier_ok c'"
  using select_slot_ok [OF assms(2,1)] slot_acquire_ok [OF _ _ assms(3)] by simp

lemma acquire_lease_ok:
  assumes c: "carrier_ok c" and acq: "carrier_acquire_lease avoid cl c = (r, c')"
  shows "carrier_ok c'"
proof -
  note frozen = freeze_ok [OF c]
  have pinned: "carrier_ok c2"
    if "slot_acquire_lease pref sid (freeze_settings c) = (r0, c2)" for pref sid r0 c2
    using slot_acquire_ok [OF frozen _ that] by simp
  show ?thesis
    using acq unfolding carrier_acquire_lease_def Let_def
    by (auto split: option.splits if_splits sum.splits prod.splits
        intro: selected_lease_ok frozen pinned)
qed

lemma submit_ok:
  assumes c: "carrier_ok c" and sub: "carrier_submit sm preferred cl h c = (r, h', q, c')"
  shows "carrier_ok c'"
proof -
  have enq: "carrier_ok (put_gen (enqueue_submission sm g) c1)"
    if "carrier_ok c1" "car_gens c1 i = Some g" for c1 i g
    using put_gen_ok [OF that] enqueue_ok gensD [OF that] by blast
  have slot: "carrier_ok c2"
    if "carrier_ok c1" "car_settings_frozen c1" "slot_submit sid sm pref h c1 = (r1, h1, q1, c2)"
    for c1 sid pref r1 h1 q1 c2
    using that(3) slot_acquire_ok [OF that(1,2)] enq
    by (auto simp: slot_submit_def Let_def split: prod.splits sum.splits option.splits)
  show ?thesis
  proof (cases preferred)
    case None
    obtain s c1 where s: "select_slot False (cl_running_loop cl) (sm_blocked sm) c = (s, c1)" by fastforce
    with None sub have "slot_submit (slot_id s) sm None h c1 = (r, h', q, c')"
      by (simp add: carrier_submit_def)
    with select_slot_ok [OF c s] slot show ?thesis by blast
  next
    case (Some p)
    have "car_settings_frozen c" if "car_gens c p = Some g" for g
      using that c by (auto simp: carrier_ok_def)
    with Some sub c show ?thesis
      using slot [OF c] by (auto simp: carrier_submit_def split: option.splits sum.splits)
  qed
qed

section \<open>The control threads\<close>

lemma put_gen_slot_commute: "put_gen g (put_slot s c) = put_slot s (put_gen g c)"
  by (simp add: put_gen_def put_slot_def)

lemma queue_head:
  assumes "slot_ok c s" "slot_worker s = None" "slot_control_queue s = i # q"
  shows "slot_current s = Some i" "q = opt_list (slot_next s)" "owned_gen c s i False"
  using assms by (auto simp: slot_ok_def opt_list_def split: option.splits)

lemma generation_start_ok:
  assumes c: "carrier_ok c" and s: "s \<in> set (all_slots c)" "slot_worker s = None"
  shows "carrier_ok (generation_start l s c)"
proof (cases "slot_control_queue s")
  case (Cons i q)
  note ok = carrier_okD(3) [OF c s(1)]
  note hd = queue_head [OF ok s(2) Cons]
  from hd(3) obtain g where g: "car_gens c i = Some g" "gen_slot_id g = slot_id s" "gen_state g \<noteq> CLOSED"
    "gen_loop g = None" by (auto simp: owned_gen_def)
  note g' = gensD [OF c g(1)]
  let ?s = "s\<lparr>slot_control_queue := q, slot_worker := Some i\<rparr>"
  let ?c = "put_gen (start_gen l g) c"
  have gens: "car_gens ?c = (car_gens c)(i \<mapsto> start_gen l g)" using g' by simp
  have "carrier_ok (put_slot ?s ?c)"
  proof (rule slot_update_ok [OF c s(1)])
    show "gens_ok ?c"
      using start_gen_ok g' g(4) by (intro put_gen_gens_ok [OF carrier_okD(1) [OF c] g(1)]) auto
    show "slot_ok ?c ?s"
      using ok hd g g' by (auto simp: slot_ok_def owned_gen_def gens split: option.splits)
    show "car_gens ?c j = Some k \<longleftrightarrow> car_gens c j = Some k" if "gen_slot_id k \<noteq> slot_id s" for j k
      using that g g' by (auto simp: gens)
    show "holds ?s j" if "car_gens ?c j = Some k" "gen_slot_id k = slot_id s" "gen_state k \<noteq> CLOSED" for j k
      using that held_by_slot [OF c s(1), of j k] hd(1) g' by (auto simp: gens holds_def split: if_splits)
  qed (use c g in \<open>auto simp: put_gen_def carrier_ok_def\<close>)
  then show ?thesis by (simp add: generation_start_def Cons g(1) put_gen_slot_commute)
qed (simp add: generation_start_def c)

lemma loop_job_carrier_ok:
  "carrier_ok c \<Longrightarrow> car_gens c i = Some g \<Longrightarrow> gen_loop g \<noteq> None \<Longrightarrow> loop_takes_job g = Some (j, g') \<Longrightarrow>
   carrier_ok (put_gen g' c)"
  using put_gen_ok [of c i g g'] loop_job_ok [of g j g'] gensD [of c i g] by blast

lemma generation_drain_ok:
  assumes "carrier_ok c" "car_gens c i = Some g" "gen_seal_event g = Some True"
  shows "carrier_ok (generation_drain i c)"
proof -
  have "gen_loop g \<noteq> None" using gensD [OF assms(1,2)] assms(3) by (auto simp: gen_ok_def)
  then show ?thesis
    using put_gen_ok [OF assms(1,2)] drain_gen_ok [OF _ _ assms(3)] gensD [OF assms(1,2)]
    by (simp add: generation_drain_def assms(2))
qed

lemma escape_idle_ok:
  assumes c: "carrier_ok c" and s: "s \<in> set (all_slots c)" "slot_current s = None"
  shows "carrier_ok (escape_slot_idle (slot_id s) c)"
proof -
  let ?c = "escape_slot_idle (slot_id s) c"
  have sub: "set (all_slots ?c) \<subseteq> set (all_slots c)"
    by (auto simp: escape_slot_idle_def all_slots_def)
  have keep: "r \<in> set (all_slots ?c)" if "r \<in> set (all_slots c)" "slot_id r \<noteq> slot_id s" for r
    using that by (auto simp: escape_slot_idle_def all_slots_def)
  have idle: "\<not> holds s i" for i
    using carrier_okD(3) [OF c s(1)] s(2) by (auto simp: holds_def slot_ok_def)
  have "covered ?c"
    unfolding covered_def
  proof (intro allI impI)
    fix i g assume "car_gens ?c i = Some g" and open_gen: "gen_state g \<noteq> CLOSED"
    then have g: "car_gens c i = Some g" by (simp add: escape_slot_idle_def)
    then obtain r where r: "r \<in> set (all_slots c)" "slot_id r = gen_slot_id g" "holds r i"
      using coveredD [OF c _ open_gen] by blast
    have "slot_id r \<noteq> slot_id s" using held_by_slot [OF c s(1) g _ open_gen] idle r(2) by auto
    with r keep show "\<exists>r\<in>set (all_slots ?c). slot_id r = gen_slot_id g \<and> holds r i" by blast
  qed
  moreover have "pool_ok ?c"
    using carrier_okD(2) [OF c] distinct_map_filter [of slot_id "car_escape_slots c"]
    by (auto simp: pool_ok_def escape_slot_idle_def all_slots_def)
  moreover have "slot_ok ?c r" if "r \<in> set (all_slots ?c)" for r
    using that sub carrier_okD(3) [OF c] by (auto simp: slot_ok_def owned_gen_def escape_slot_idle_def)
  ultimately show ?thesis
    using c by (simp add: carrier_ok_def gens_ok_def escape_slot_idle_def)
qed

lemma generation_close_ok:
  assumes c: "carrier_ok c" and s: "s \<in> set (all_slots c)" "slot_worker s = Some i"
    and g: "car_gens c i = Some g" "gen_state g = DRAINING"
  shows "carrier_ok (generation_close i s c)"
proof -
  note ok = carrier_okD(3) [OF c s(1)]
  have cur: "slot_current s = Some i" "slot_control_queue s = opt_list (slot_next s)"
    using ok s(2) by (auto simp: slot_ok_def)
  then have gid: "gen_slot_id g = slot_id s" using ok g(1) by (auto simp: slot_ok_def owned_gen_def)
  note g' = gensD [OF c g(1)]
  let ?s = "s\<lparr>slot_current := slot_next s, slot_next := None, slot_worker := None\<rparr>"
  let ?c = "put_gen (close_gen g) c"
  have gens: "car_gens ?c = (car_gens c)(i \<mapsto> close_gen g)" using g' by simp
  have closed: "carrier_ok (put_slot ?s ?c)"
  proof (rule slot_update_ok [OF c s(1)])
    show "gens_ok ?c"
      using close_gen_ok g' g(2) by (intro put_gen_gens_ok [OF carrier_okD(1) [OF c] g(1)]) auto
    show "slot_ok ?c ?s"
      using ok cur g' by (auto simp: slot_ok_def owned_gen_def opt_list_def split: option.splits)
    show "car_gens ?c j = Some k \<longleftrightarrow> car_gens c j = Some k" if "gen_slot_id k \<noteq> slot_id s" for j k
      using that g gid g' by (auto simp: gens)
    show "holds ?s j" if "car_gens ?c j = Some k" "gen_slot_id k = slot_id s" "gen_state k \<noteq> CLOSED" for j k
      using that held_by_slot [OF c s(1), of j k] cur(1) g' by (auto simp: gens holds_def split: if_splits)
  qed (use c g in \<open>auto simp: put_gen_def carrier_ok_def\<close>)
  moreover have "?s \<in> set (all_slots (put_slot ?s ?c))" using s(1) by auto
  ultimately have "carrier_ok (escape_slot_idle (slot_id s) (put_slot ?s ?c))" if "slot_next s = None"
    using that escape_idle_ok [of "put_slot ?s ?c" ?s] by simp
  with closed show ?thesis by (simp add: generation_close_def g(1) cur(1) Let_def)
qed

section \<open>Settings\<close>

lemma add_slots_ok:
  "distinct (map slot_id (all_slots c)) \<Longrightarrow> \<forall>s\<in>set (all_slots c). slot_id s \<le> car_slot_counter c \<and> slot_ok c s \<Longrightarrow>
   distinct (map slot_id (all_slots (add_slots n c)))
   \<and> (\<forall>s\<in>set (all_slots (add_slots n c)). slot_id s \<le> car_slot_counter (add_slots n c) \<and> slot_ok c s)
   \<and> length (car_slots (add_slots n c)) = length (car_slots c) + n
   \<and> car_gens (add_slots n c) = car_gens c \<and> car_escape_slots (add_slots n c) = car_escape_slots c
   \<and> car_generation_counter (add_slots n c) = car_generation_counter c"
proof (induction n arbitrary: c)
  case (Suc n)
  let ?s = "\<lparr>slot_id = Suc (car_slot_counter c), slot_current = None, slot_next = None, slot_on_idle = False,
               slot_executor_open = True, slot_control_queue = [], slot_worker = None\<rparr>"
  let ?c = "c\<lparr>car_slot_counter := Suc (car_slot_counter c), car_slots := car_slots c @ [?s]\<rparr>"
  have "Suc (car_slot_counter c) \<notin> slot_id ` set (all_slots c)"
    using Suc.prems(2) by fastforce
  then have "distinct (map slot_id (all_slots ?c))"
    using Suc.prems(1) by (auto simp: all_slots_def)
  moreover have cong: "slot_ok ?c s = slot_ok c s" for s by (rule slot_ok_cong) simp
  then have "\<forall>s\<in>set (all_slots ?c). slot_id s \<le> car_slot_counter ?c \<and> slot_ok ?c s"
    using Suc.prems slot_ok_fresh by (auto simp: all_slots_def intro: le_SucI)
  ultimately show ?case
    using Suc.IH [of ?c] cong by (simp add: new_slot_locked_def Let_def)
qed simp

lemma set_carrier_loop_count_ok:
  assumes c: "carrier_ok c" and n: "0 < n" and set: "set_carrier_loop_count n c = Inr c'"
  shows "carrier_ok c'"
proof (cases "car_settings_frozen c")
  case True
  with set c show ?thesis by (auto simp: set_carrier_loop_count_def split: if_splits)
next
  case False
  let ?a = "add_slots (n - length (car_slots c)) c"
  have pre: "distinct (map slot_id (all_slots c))"
    "\<forall>s\<in>set (all_slots c). slot_id s \<le> car_slot_counter c \<and> slot_ok c s"
    using c by (auto simp: carrier_ok_def pool_ok_def)
  note a = add_slots_ok [OF pre, of "n - length (car_slots c)"]
  have c': "c' = ?a\<lparr>car_slots := take n (car_slots ?a), car_loop_count := n,
      car_selection_cursor := car_selection_cursor ?a mod n\<rparr>"
    using set False by (simp add: set_carrier_loop_count_def Let_def)
  have empty: "car_gens c' = Map.empty" using False c a by (simp add: c' carrier_ok_def)
  have sub: "set (all_slots c') \<subseteq> set (all_slots ?a)"
    by (auto simp: c' all_slots_def dest: in_set_takeD)
  have "distinct (map slot_id (all_slots c'))"
    using distinct_map_take [of slot_id "car_slots ?a" "car_escape_slots ?a" n] conjunct1 [OF a]
    unfolding c' all_slots_def by simp
  then have "pool_ok c'"
    using a sub n by (auto simp: pool_ok_def c')
  moreover have "slot_ok c' s" if "s \<in> set (all_slots c')" for s
    using that sub a False c slot_ok_cong [of c' c s] empty by (auto simp: carrier_ok_def)
  ultimately show ?thesis
    using empty by (simp add: carrier_ok_def gens_ok_def covered_def)
qed

section \<open>Every interleaving\<close>

text \<open>
  The pool as a step relation: callers on any thread, the control threads of all slots and
  the loops interleave at the lock sections. A handle does not influence the pool's part of
  a submission, so the step for \<open>submit\<close> ranges over handles of one fixed type.
\<close>

inductive carrier_step :: "carrier \<Rightarrow> carrier \<Rightarrow> bool" where
  step_acquire: "carrier_acquire_lease avoid cl c = (r :: unit exc + nat, c') \<Longrightarrow> carrier_step c c'"
| step_submit: "carrier_submit sm preferred cl (h :: (unit, unit) handle) c = (r, h', q, c') \<Longrightarrow> carrier_step c c'"
| step_retain: "retain_reservation i c = (Inr c' :: unit exc + carrier) \<Longrightarrow> carrier_step c c'"
| step_release: "release_reservation i c = (Inr c' :: unit exc + carrier) \<Longrightarrow> carrier_step c c'"
| step_start: "s \<in> set (all_slots c) \<Longrightarrow> slot_worker s = None \<Longrightarrow> carrier_step c (generation_start l s c)"
| step_job: "car_gens c i = Some g \<Longrightarrow> gen_loop g \<noteq> None \<Longrightarrow> loop_takes_job g = Some (j, g') \<Longrightarrow>
    carrier_step c (put_gen g' c)"
| step_drain: "car_gens c i = Some g \<Longrightarrow> gen_seal_event g = Some True \<Longrightarrow> carrier_step c (generation_drain i c)"
| step_close: "s \<in> set (all_slots c) \<Longrightarrow> slot_worker s = Some i \<Longrightarrow> car_gens c i = Some g \<Longrightarrow>
    gen_state g = DRAINING \<Longrightarrow> carrier_step c (generation_close i s c)"
| step_settings: "0 < n \<Longrightarrow> set_carrier_loop_count n c = (Inr c' :: unit exc + carrier) \<Longrightarrow> carrier_step c c'"

definition carrier_start :: "carrier \<Rightarrow> bool" where
  "carrier_start c \<longleftrightarrow> c = carrier_init"

lemma carrier_init_ok: "carrier_ok carrier_init"
  by (simp add: carrier_init_def new_slot_locked_def carrier_ok_def gens_ok_def pool_ok_def covered_def
      all_slots_def slot_ok_def opt_list_def)

interpretation pool: inductive_invariant carrier_start carrier_step carrier_ok
proof
  show "carrier_ok c" if "carrier_start c" for c
    using that by (simp add: carrier_start_def carrier_init_ok)
  show "carrier_ok c'" if "carrier_ok c" "carrier_step c c'" for c c'
    using that(2,1)
    by cases (blast intro: acquire_lease_ok submit_ok retain_reservation_ok release_reservation_ok
        generation_start_ok loop_job_carrier_ok generation_drain_ok generation_close_ok
        set_carrier_loop_count_ok)+
qed

section \<open>What a lease gives\<close>

text \<open>The generations a slot may lease to a caller that must keep off the given ids and loop.\<close>

definition lease_allowed :: "bool \<Rightarrow> loop_ref option \<Rightarrow> nat set \<Rightarrow> carrier \<Rightarrow> nat \<Rightarrow> bool" where
  "lease_allowed avoid running blocked c i \<longleftrightarrow> i \<notin> blocked
     \<and> (\<exists>g. car_gens c i = Some g \<and> 0 < gen_reservations g
          \<and> (avoid \<and> running \<noteq> None \<longrightarrow> gen_loop g \<noteq> running))"

lemma slot_gens_iff: "g \<in> set (slot_gens c s) \<longleftrightarrow> (\<exists>i. holds s i \<and> car_gens c i = Some g)"
  by (auto simp: slot_gens_def holds_def map_filter_def split: option.splits)

lemma candidate_gen:
  assumes "slot_candidate c avoid running blocked s" "holds s i" "car_gens c i = Some g"
    "gen_id g = i" "gen_state g \<noteq> CLOSED"
  shows "i \<notin> blocked \<and> (avoid \<and> running \<noteq> None \<longrightarrow> gen_loop g \<noteq> running)"
proof -
  have "g \<in> set (slot_gens c s)" using assms(2,3) slot_gens_iff by blast
  with assms(1,4,5) show ?thesis
    by (auto simp: slot_candidate_def owns_any_generation_id_def owns_loop_def split: option.splits)
qed

lemma bump_allowed:
  assumes "carrier_ok c" "car_gens c i = Some g" "i \<notin> blocked" "avoid \<and> running \<noteq> None \<longrightarrow> gen_loop g \<noteq> running"
    "gen_state g \<noteq> CLOSED"
  shows "lease_allowed avoid running blocked (bump_reservations i c) i"
proof -
  have "0 \<le> gen_reservations g" "gen_id g = i"
    using gensD [OF assms(1,2)] by (cases "gen_state g"; simp add: gen_ok_def)+
  with assms show ?thesis by (auto simp: lease_allowed_def bump_reservations_def)
qed

lemma created_allowed:
  assumes "carrier_ok c" "s \<in> set (all_slots c)" "\<forall>b\<in>blocked. b \<le> car_generation_counter c"
    and "create_generation_locked as_next s c = (r, c1)"
  shows "r = Inr (Suc (car_generation_counter c))
    \<and> lease_allowed avoid running blocked (bump_reservations (Suc (car_generation_counter c)) c1)
        (Suc (car_generation_counter c))"
proof -
  have "slot_executor_open s" using carrier_okD(3) [OF assms(1,2)] by (simp add: slot_ok_def)
  with assms(3,4) show ?thesis
    by (auto simp: create_generation_locked_def Let_def lease_allowed_def bump_reservations_def
        new_generation_def put_gen_def)
qed

lemma reserve_allowed:
  assumes c: "carrier_ok c" and s: "s \<in> set (all_slots c)"
    and cand: "slot_candidate c avoid running blocked s"
    and known: "\<forall>b\<in>blocked. b \<le> car_generation_counter c"
  shows "\<exists>i c'. reserve_locked None s c = (Inr i :: 'e exc + nat, c') \<and> lease_allowed avoid running blocked c' i"
proof -
  note ok = carrier_okD(3) [OF c s]
  have old: "lease_allowed avoid running blocked (bump_reservations i c) i" if "holds s i" for i
  proof -
    from that ok obtain g where g: "car_gens c i = Some g" "gen_state g \<noteq> CLOSED"
      by (auto simp: holds_def slot_ok_def owned_gen_def)
    then have "gen_id g = i" using gensD [OF c] by blast
    from candidate_gen [OF cand that g(1) this g(2)] show ?thesis
      using bump_allowed [OF c g(1) _ _ g(2)] by simp
  qed
  have new: "\<exists>i c'. (case create_generation_locked b s c of (Inl e, c') \<Rightarrow> (Inl e, c')
      | (Inr i, c') \<Rightarrow> (Inr i, bump_reservations i c')) = (Inr i :: 'e exc + nat, c') \<and> lease_allowed avoid running blocked c' i"
    for b
  proof -
    obtain r :: "'e exc + nat" and c1 where r: "create_generation_locked b s c = (r, c1)" by fastforce
    from created_allowed [OF c s known r] r show ?thesis by simp
  qed
  show ?thesis
  proof (cases "slot_current s")
    case None
    with new [of False] show ?thesis by (simp add: reserve_locked_def)
  next
    case (Some i)
    note cur = this
    show ?thesis
    proof (cases "reservable (gen_state_of c i) \<or> slot_next s \<noteq> None")
      case True
      with cur old [of i] old show ?thesis by (auto simp: reserve_locked_def holds_def)
    next
      case False
      with cur new [of True] show ?thesis by (simp add: reserve_locked_def)
    qed
  qed
qed

lemma fresh_candidate: "slot_current s = None \<Longrightarrow> slot_next s = None \<Longrightarrow> slot_candidate c avoid running blocked s"
  by (auto simp: slot_candidate_def owns_any_generation_id_def owns_loop_def slot_gens_iff holds_def
      split: option.splits)

lemma slot_candidate_cong:
  assumes "car_gens c' = car_gens c"
  shows "slot_candidate c' avoid running blocked s = slot_candidate c avoid running blocked s"
proof -
  have "slot_gens c' s = slot_gens c s" by (simp only: slot_gens_def assms)
  then show ?thesis by (simp only: slot_candidate_def owns_any_generation_id_def owns_loop_def)
qed

lemma new_slot_counter [simp]:
  "car_generation_counter (snd (new_slot_locked b c)) = car_generation_counter c"
  "car_generation_counter (freeze_settings c) = car_generation_counter c"
  by (simp_all add: new_slot_locked_def Let_def freeze_settings_def)

lemma select_slot_candidate:
  assumes c: "carrier_ok c" and sel: "select_slot avoid running blocked c = (s, c')"
  shows "slot_candidate c' avoid running blocked s \<and> car_generation_counter c' = car_generation_counter c"
proof (cases "first_min (slot_rank (freeze_settings c))
    (filter (\<lambda>(i, s). slot_candidate (freeze_settings c) avoid running blocked s)
      (List.enumerate 0 (car_slots (freeze_settings c))))")
  case None
  then have new: "new_slot_locked True (freeze_settings c) = (s, c')"
    using sel by (simp add: select_slot_def del: first_min_None)
  then have "slot_current s = None" "slot_next s = None"
    by (auto simp: new_slot_locked_def Let_def)
  moreover have "car_generation_counter c' = car_generation_counter c"
    using new_slot_counter(1) [of True "freeze_settings c"] new by simp
  ultimately show ?thesis using fresh_candidate by simp
next
  case (Some p)
  obtain i s0 where p: "p = (i, s0)" by (cases p)
  have "slot_candidate (freeze_settings c) avoid running blocked s0"
    using first_min_Some [OF Some] by (simp add: p)
  moreover have "s = s0" "c' = (freeze_settings c)\<lparr>car_selection_cursor := Suc i mod length (car_slots c)\<rparr>"
    using sel Some by (auto simp: select_slot_def p)
  ultimately show ?thesis
    using slot_candidate_cong [of c' "freeze_settings c"] by simp
qed

lemma selected_allowed:
  assumes c: "carrier_ok c" and known: "\<forall>b\<in>blocked. b \<le> car_generation_counter c"
  shows "\<exists>i c'. (case select_slot avoid running blocked c of
            (s, c1) \<Rightarrow> slot_acquire_lease None (slot_id s) c1) = (Inr i :: 'e exc + nat, c')
          \<and> lease_allowed avoid running blocked c' i"
proof -
  obtain s c1 where s: "select_slot avoid running blocked c = (s, c1)" by fastforce
  note ok = select_slot_ok [OF c s] and cand = select_slot_candidate [OF c s]
  have "find_slot (slot_id s) c1 = Some s" using find_slot_mem carrier_okD(2) ok by blast
  with reserve_allowed [of c1 s avoid running blocked] ok cand known s show ?thesis
    by (simp add: slot_acquire_lease_def)
qed

text \<open>A pinned acquisition that fails leaves the pool as it was.\<close>

lemma pinned_lease:
  "slot_acquire_lease (Some p) sid c =
     (case find_slot sid c of
        None \<Rightarrow> (Inl StageLifecycleError, c)
      | Some s \<Rightarrow> (if holds s p \<and> reservable (gen_state_of c p) then (Inr p, bump_reservations p c)
                  else (Inl StageLifecycleError, c)))"
  by (auto simp: slot_acquire_lease_def reserve_locked_def holds_def split: option.splits)

lemma acquire_lease_allowed:
  fixes cl :: caller
  defines "blocked \<equiv> (case cl_execution cl of None \<Rightarrow> {} | Some ec \<Rightarrow> ec_blocked ec)"
  assumes c: "carrier_ok c" and known: "\<forall>b\<in>blocked. b \<le> car_generation_counter c"
  shows "\<exists>i c'. carrier_acquire_lease avoid cl c = (Inr i :: 'e exc + nat, c')
           \<and> lease_allowed avoid (cl_running_loop cl) blocked c' i"
proof -
  let ?f = "freeze_settings c"
  have fallback: "\<exists>i c'. (case select_slot avoid (cl_running_loop cl) blocked ?f of
            (s, c1) \<Rightarrow> slot_acquire_lease None (slot_id s) c1) = (Inr i :: 'e exc + nat, c')
          \<and> lease_allowed avoid (cl_running_loop cl) blocked c' i"
    using selected_allowed [OF freeze_ok [OF c]] known by simp
  have direct: "lease_allowed avoid (cl_running_loop cl) blocked (bump_reservations (gen_id g) ?f) (gen_id g)"
    if "car_gens c j = Some g" "gen_id g \<notin> blocked" "\<not> generation_is_current_loop avoid (cl_running_loop cl) g"
      "reservable (gen_state_of ?f (gen_id g))" for j g
  proof (rule bump_allowed [OF freeze_ok [OF c], of _ g])
    show "car_gens ?f (gen_id g) = Some g" using that(1) gensD [OF c that(1)] by simp
    with that(4) show "gen_state g \<noteq> CLOSED" by (auto simp: gen_state_of_def reservable_def)
  qed (use that in \<open>auto simp: generation_is_current_loop_def\<close>)
  show ?thesis
  proof (cases "cl_execution cl")
    case None
    with fallback show ?thesis by (simp add: carrier_acquire_lease_def blocked_def)
  next
    case (Some ec)
    then have b: "ec_blocked ec = blocked" by (simp add: blocked_def)
    show ?thesis
      unfolding carrier_acquire_lease_def Let_def
      using fallback direct
      by (simp add: Some b pinned_lease split: option.split sum.split)
  qed
qed

end
