(* ===== verification/Carrier_Lifecycle.thy ===== *)
theory Carrier_Lifecycle
  imports Carrier_Facts
begin

text \<open>
  The life of a generation, from the queue to the closed loop: under every interleaving of the
  pool it only moves forward, its loop is started once, and generations are never forgotten or
  renumbered.
\<close>

section \<open>The order of the states\<close>

instantiation generation_state :: linorder
begin

primrec state_index :: "generation_state \<Rightarrow> nat" where
  "state_index QUEUED = 0"
| "state_index STARTING = 1"
| "state_index OPEN = 2"
| "state_index SEALING = 3"
| "state_index DRAINING = 4"
| "state_index CLOSED = 5"

definition less_eq_generation_state :: "generation_state \<Rightarrow> generation_state \<Rightarrow> bool" where
  "less_eq_generation_state a b \<longleftrightarrow> state_index a \<le> state_index b"

definition less_generation_state :: "generation_state \<Rightarrow> generation_state \<Rightarrow> bool" where
  "less_generation_state a b \<longleftrightarrow> state_index a < state_index b"

instance
proof
  fix a b :: generation_state
  show "a = b" if "a \<le> b" "b \<le> a"
    using that by (cases a; cases b) (simp_all add: less_eq_generation_state_def)
qed (auto simp: less_eq_generation_state_def less_generation_state_def)

end

text \<open>
  A generation whose loop has not started is in the queue whatever its recorded state: releasing
  its last reservation marks it \<open>SEALING\<close>, and a later lease makes \<open>_run_generation\<close> open it.
\<close>

definition gen_phase :: "generation \<Rightarrow> generation_state" where
  "gen_phase g = (if gen_loop g = None \<and> gen_state g \<noteq> CLOSED then QUEUED else gen_state g)"

definition gen_advance :: "generation \<Rightarrow> generation \<Rightarrow> bool" where
  "gen_advance g g' \<longleftrightarrow> gen_id g' = gen_id g \<and> gen_slot_id g' = gen_slot_id g \<and> gen_phase g \<le> gen_phase g'
     \<and> (gen_loop g = None \<or> gen_loop g' = gen_loop g \<or> gen_phase g' = CLOSED)"

definition carrier_advance :: "carrier \<Rightarrow> carrier \<Rightarrow> bool" where
  "carrier_advance c c' \<longleftrightarrow> (\<forall>i g. car_gens c i = Some g \<longrightarrow> (\<exists>g'. car_gens c' i = Some g' \<and> gen_advance g g'))
     \<and> car_generation_counter c \<le> car_generation_counter c'
     \<and> (car_settings_frozen c \<longrightarrow> car_settings_frozen c' \<and> car_loop_count c' = car_loop_count c)"

lemma gen_advance_refl [simp]: "gen_advance g g"
  by (simp add: gen_advance_def)

lemma phase_closed [simp]: "CLOSED \<le> s \<longleftrightarrow> s = CLOSED" "QUEUED \<le> s" "s \<le> CLOSED"
  by (cases s; simp add: less_eq_generation_state_def)+

lemma gen_advance_trans:
  assumes "gen_advance g h" "gen_advance h k"
  shows "gen_advance g k"
proof -
  have "gen_phase g \<le> gen_phase k" using assms by (auto simp: gen_advance_def intro: order_trans)
  moreover have "gen_loop g = None \<or> gen_loop k = gen_loop g \<or> gen_phase k = CLOSED"
    using assms by (auto simp: gen_advance_def)
  ultimately show ?thesis using assms by (simp add: gen_advance_def)
qed

lemma carrier_advance_refl [simp]: "carrier_advance c c"
  by (simp add: carrier_advance_def)

lemma carrier_advance_trans:
  assumes "carrier_advance c d" "carrier_advance d e"
  shows "carrier_advance c e"
proof -
  have "\<exists>k. car_gens e i = Some k \<and> gen_advance g k" if "car_gens c i = Some g" for i g
    using that assms gen_advance_trans unfolding carrier_advance_def by metis
  with assms show ?thesis by (auto simp: carrier_advance_def)
qed

section \<open>Every operation moves forward\<close>

lemma advance_put_gen:
  "car_gens c i = Some g \<Longrightarrow> gen_id g = i \<Longrightarrow> gen_advance g g' \<Longrightarrow> carrier_advance c (put_gen g' c)"
  by (auto simp: carrier_advance_def gen_advance_def)

lemma advance_frame:
  "car_gens c' = car_gens c \<Longrightarrow> car_generation_counter c' = car_generation_counter c \<Longrightarrow>
   (car_settings_frozen c \<Longrightarrow> car_settings_frozen c' \<and> car_loop_count c' = car_loop_count c) \<Longrightarrow> carrier_advance c c'"
  by (auto simp: carrier_advance_def)

lemma put_slot_frozen [simp]: "car_settings_frozen (put_slot s c) = car_settings_frozen c"
  by (simp add: put_slot_def)

lemma advance_put_slot [simp]: "carrier_advance c (put_slot s c)"
  by (rule advance_frame) simp_all

lemma same_phase_advance:
  "gen_id g' = gen_id g \<Longrightarrow> gen_slot_id g' = gen_slot_id g \<Longrightarrow> gen_loop g' = gen_loop g \<Longrightarrow>
   (gen_loop g = None \<Longrightarrow> (gen_state g' = CLOSED \<longleftrightarrow> gen_state g = CLOSED)) \<Longrightarrow>
   (gen_loop g \<noteq> None \<Longrightarrow> gen_state g \<le> gen_state g') \<Longrightarrow> gen_advance g g'"
  by (cases "gen_loop g") (auto simp: gen_advance_def gen_phase_def)

lemma release_gen_advance:
  assumes "gen_ok g" "release_gen g = Inr g'"
  shows "gen_advance g g'"
proof -
  have "gen_seal_event g = None \<longleftrightarrow> gen_loop g = None" using assms(1) by (simp add: gen_ok_def)
  note f = release_gen_fields [OF assms(2) this]
  show ?thesis
    by (rule same_phase_advance)
       (use f in \<open>auto simp: reservable_def less_eq_generation_state_def split: if_splits\<close>)
qed

lemma bump_advance: "gens_ok c \<Longrightarrow> carrier_advance c (bump_reservations i c)"
  by (cases "car_gens c i")
     (auto simp: bump_reservations_def gens_ok_def intro!: advance_put_gen same_phase_advance)

lemma bump_created_advance:
  assumes "gens_ok c" "create_generation_locked as_next s c = (r, c1)"
  shows "carrier_advance c c1" "r = Inr i \<Longrightarrow> carrier_advance c (bump_reservations i c1)"
proof -
  let ?i = "Suc (car_generation_counter c)"
  have fresh: "car_gens c ?i = None"
    using assms(1) by (cases "car_gens c ?i") (force simp: gens_ok_def)+
  have c1: "car_gens c1 = (car_gens c)(?i \<mapsto> new_generation ?i (slot_id s))" "car_generation_counter c1 = ?i"
    "car_settings_frozen c1 = car_settings_frozen c" "car_loop_count c1 = car_loop_count c"
    using assms(2) by (auto simp: create_generation_locked_def Let_def new_generation_def split: if_splits)
  then show "carrier_advance c c1" using fresh by (auto simp: carrier_advance_def)
  have "carrier_advance c (bump_reservations ?i c1)"
    using fresh c1 by (auto simp: carrier_advance_def bump_reservations_def new_generation_def)
  then show "carrier_advance c (bump_reservations i c1)" if "r = Inr i"
    using that assms(2) by (auto simp: create_generation_locked_def Let_def split: if_splits)
qed

lemma reserve_advance:
  "gens_ok c \<Longrightarrow> reserve_locked preferred s c = (r, c') \<Longrightarrow> carrier_advance c c'"
  by (auto simp: reserve_locked_def bump_advance bump_created_advance
      split: option.splits if_splits sum.splits prod.splits)

lemma slot_acquire_advance:
  "gens_ok c \<Longrightarrow> slot_acquire_lease preferred sid c = (r, c') \<Longrightarrow> carrier_advance c c'"
  by (auto simp: slot_acquire_lease_def reserve_advance split: option.splits)

lemma freeze_advance [simp]: "carrier_advance c (freeze_settings c)"
  by (simp add: carrier_advance_def freeze_settings_def)

lemma select_slot_advance:
  assumes "select_slot avoid running blocked c = (s, c')"
  shows "carrier_advance c c'"
  using assms
  by (intro advance_frame)
     (auto simp: select_slot_def Let_def new_slot_locked_def freeze_settings_def split: option.splits)

lemma selected_lease_advance:
  assumes "select_slot avoid running blocked c = (s, c1)" "carrier_ok c"
    "slot_acquire_lease None (slot_id s) c1 = (r, c')"
  shows "carrier_advance c c'"
proof -
  have "gens_ok c1" using select_slot_ok [OF assms(2,1)] carrier_okD(1) by blast
  from carrier_advance_trans [OF select_slot_advance [OF assms(1)] slot_acquire_advance [OF this assms(3)]]
  show ?thesis .
qed

lemma acquire_lease_advance:
  assumes c: "carrier_ok c" and acq: "carrier_acquire_lease avoid cl c = (r, c')"
  shows "carrier_advance c c'"
proof -
  note frozen = freeze_ok [OF c]
  have pinned: "carrier_advance (freeze_settings c) c2" "carrier_ok c2"
    if "slot_acquire_lease pref sid (freeze_settings c) = (r0, c2)" for pref sid r0 c2
    using slot_acquire_advance [OF carrier_okD(1) [OF frozen] that] slot_acquire_ok [OF frozen _ that] by simp_all
  have "carrier_advance (freeze_settings c) c'"
    using acq unfolding carrier_acquire_lease_def Let_def
    by (auto split: option.splits if_splits sum.splits prod.splits
        intro: selected_lease_advance frozen pinned carrier_advance_trans [OF pinned(1) selected_lease_advance])
  then show ?thesis by (rule carrier_advance_trans [OF freeze_advance])
qed

lemma enqueue_advance: "gen_advance g (enqueue_submission sm g)"
  by (rule same_phase_advance) (simp_all add: enqueue_submission_def)

lemma acquire_enqueue_advance:
  assumes "carrier_ok c" "car_settings_frozen c" "slot_acquire_lease pref sid c = (r, c1)" "car_gens c1 i = Some g"
  shows "carrier_advance c (put_gen (enqueue_submission sm g) c1)"
  using gensD [OF slot_acquire_ok [OF assms(1-3)] assms(4)]
  by (intro carrier_advance_trans [OF slot_acquire_advance [OF carrier_okD(1) [OF assms(1)] assms(3)]]
      advance_put_gen [OF assms(4)] enqueue_advance) simp

lemma slot_submit_advance:
  assumes "carrier_ok c" "car_settings_frozen c" "slot_submit sid sm pref h c = (r, h', q, c')"
  shows "carrier_advance c c'"
  using assms(3) slot_acquire_advance [OF carrier_okD(1) [OF assms(1)]] acquire_enqueue_advance [OF assms(1,2)]
  by (auto simp: slot_submit_def Let_def split: prod.splits sum.splits option.splits)

lemma submit_advance:
  assumes c: "carrier_ok c" and sub: "carrier_submit sm preferred cl h c = (r, h', q, c')"
  shows "carrier_advance c c'"
proof (cases preferred)
  case None
  obtain s c1 where s: "select_slot False (cl_running_loop cl) (sm_blocked sm) c = (s, c1)" by fastforce
  with None sub have "slot_submit (slot_id s) sm None h c1 = (r, h', q, c')"
    by (simp add: carrier_submit_def)
  with select_slot_ok [OF c s] show ?thesis
    by (blast intro: carrier_advance_trans [OF select_slot_advance [OF s]] slot_submit_advance)
next
  case (Some p)
  have "car_settings_frozen c" if "car_gens c p = Some g" for g
    using that c by (auto simp: carrier_ok_def)
  with Some sub show ?thesis
    using slot_submit_advance [OF c] by (auto simp: carrier_submit_def split: option.splits sum.splits)
qed

lemma retain_reservation_advance:
  assumes "carrier_ok c" "retain_reservation i c = Inr c'"
  shows "carrier_advance c c'"
  using assms gensD [OF assms(1)]
  by (auto simp: retain_reservation_def split: option.splits if_splits
      intro!: advance_put_gen same_phase_advance)

lemma release_reservation_advance:
  assumes "carrier_ok c" "release_reservation i c = (Inr c' :: 'e exc + carrier)"
  shows "carrier_advance c c'"
proof -
  from assms(2) obtain g g' where g: "car_gens c i = Some g" "release_gen g = (Inr g' :: 'e exc + generation)"
    "c' = put_gen g' c"
    by (auto simp: release_reservation_def split: option.splits sum.splits)
  with gensD [OF assms(1) g(1)] show ?thesis
    by (auto intro: advance_put_gen release_gen_advance)
qed

lemma generation_start_advance:
  assumes c: "carrier_ok c" and s: "s \<in> set (all_slots c)" "slot_worker s = None"
  shows "carrier_advance c (generation_start l s c)"
proof (cases "slot_control_queue s")
  case (Cons i q)
  from queue_head(3) [OF carrier_okD(3) [OF c s(1)] s(2) Cons]
  obtain g where g: "car_gens c i = Some g" "gen_state g \<noteq> CLOSED" "gen_loop g = None"
    by (auto simp: owned_gen_def)
  let ?c = "put_slot (s\<lparr>slot_control_queue := q, slot_worker := Some i\<rparr>) c"
  have "car_gens ?c i = Some g" "gen_id g = i" using g(1) gensD [OF c g(1)] by simp_all
  moreover have "gen_advance g (start_gen l g)" using g by (simp add: gen_advance_def gen_phase_def)
  ultimately have "carrier_advance ?c (put_gen (start_gen l g) ?c)" by (rule advance_put_gen)
  then show ?thesis
    by (simp add: generation_start_def Cons g(1)) (rule carrier_advance_trans [OF advance_put_slot])
qed (simp add: generation_start_def)

lemma loop_job_advance:
  assumes "carrier_ok c" "car_gens c i = Some g" "loop_takes_job g = Some (j, g')"
  shows "carrier_advance c (put_gen g' c)"
proof -
  have "gen_advance g g'"
    using assms(3) by (intro same_phase_advance) (auto simp: loop_takes_job_def split: list.splits loop_job.splits)
  with gensD [OF assms(1,2)] assms(2) show ?thesis by (auto intro: advance_put_gen)
qed

lemma generation_drain_advance:
  assumes c: "carrier_ok c" and g: "car_gens c i = Some g" "gen_seal_event g = Some True"
  shows "carrier_advance c (generation_drain i c)"
proof -
  have ok: "gen_ok g" "gen_id g = i" using gensD [OF c g(1)] by simp_all
  then have l: "gen_loop g \<noteq> None" using g(2) by (auto simp: gen_ok_def)
  with ok g(2) have "gen_state g = SEALING \<or> gen_state g = DRAINING" by (simp add: gen_ok_def seal_requested_def)
  then have "gen_advance g (g\<lparr>gen_state := DRAINING\<rparr>)"
    using l by (intro same_phase_advance) (auto simp: less_eq_generation_state_def)
  with g ok show ?thesis by (auto simp: generation_drain_def intro: advance_put_gen)
qed

lemma generation_close_advance:
  assumes c: "carrier_ok c" and g: "car_gens c i = Some g"
  shows "carrier_advance c (generation_close i s c)"
proof -
  have "gen_advance g (close_gen g)" by (simp add: gen_advance_def gen_phase_def)
  with g gensD [OF c g] have "carrier_advance c (put_gen (close_gen g) c)" by (auto intro: advance_put_gen)
  then have put: "carrier_advance c (put_slot s' (put_gen (close_gen g) c))" for s'
    by (rule carrier_advance_trans) simp
  have "carrier_advance d (escape_slot_idle sid d)" for sid d
    by (rule advance_frame) (simp_all add: escape_slot_idle_def)
  with put show ?thesis
    by (auto simp: generation_close_def g Let_def intro: carrier_advance_trans)
qed

lemma settings_advance:
  assumes "carrier_ok c" "set_carrier_loop_count n c = Inr c'"
  shows "carrier_advance c c'"
proof (cases "car_settings_frozen c")
  case True
  with assms(2) show ?thesis by (auto simp: set_carrier_loop_count_def split: if_splits)
next
  case False
  let ?a = "add_slots (n - length (car_slots c)) c"
  have pre: "distinct (map slot_id (all_slots c))"
    "\<forall>s\<in>set (all_slots c). slot_id s \<le> car_slot_counter c \<and> slot_ok c s"
    using assms(1) by (auto simp: carrier_ok_def pool_ok_def)
  have "car_gens ?a = car_gens c" "car_generation_counter ?a = car_generation_counter c"
    using add_slots_ok [OF pre, of "n - length (car_slots c)"] by simp_all
  with assms(2) False show ?thesis
    by (auto simp: set_carrier_loop_count_def Let_def carrier_advance_def)
qed

section \<open>Every interleaving\<close>

interpretation lifecycle: monotone_system carrier_start carrier_step carrier_ok carrier_advance
proof
  show "carrier_advance c c'" if "carrier_ok c" "carrier_step c c'" for c c'
    using that(2,1)
    by cases (blast intro: acquire_lease_advance submit_advance retain_reservation_advance
        release_reservation_advance generation_start_advance loop_job_advance generation_drain_advance
        generation_close_advance settings_advance)+
qed (auto intro: carrier_advance_trans)

lemma phase_sealed: "SEALING \<le> s \<longleftrightarrow> s = SEALING \<or> s = DRAINING \<or> s = CLOSED"
  by (cases s) (simp_all add: less_eq_generation_state_def)

lemma gen_ok_started_sealed: "gen_ok g \<Longrightarrow> SEALING \<le> gen_phase g \<Longrightarrow> gen_reservations g = 0"
  by (cases "gen_state g") (auto simp: gen_ok_def gen_phase_def phase_sealed split: if_splits)

lemma advance_known:
  "carrier_advance c c' \<Longrightarrow> car_gens c i = Some g \<Longrightarrow> \<exists>g'. car_gens c' i = Some g' \<and> gen_advance g g'"
  by (simp add: carrier_advance_def)

end
