(* ===== verification/Carrier_Props.thy ===== *)
theory Carrier_Props
  imports Carrier_Lifecycle Handle_Facts
begin

text \<open>
  What the carrier promises its clients: a reserved generation is never torn down, its loop
  is told to stop exactly when the last reservation goes, a lease keeps off the lanes that
  would deadlock the caller, and lane selection balances the load.
\<close>

text \<open>C2. In every reachable state of the pool, under any interleaving of callers, control
  threads and loops, a generation's reservation count is never negative, and a generation that
  is still reserved is neither draining nor closed and is held by a slot of the pool.\<close>

theorem reserved_generation_stays_open:
  assumes "reachable carrier_start carrier_step c" "car_gens c i = Some g"
  shows "0 \<le> gen_reservations g
    \<and> (0 < gen_reservations g \<longrightarrow> gen_state g \<noteq> DRAINING \<and> gen_state g \<noteq> CLOSED
         \<and> (\<exists>s\<in>set (all_slots c). slot_id s = gen_slot_id g \<and> holds s i))"
proof -
  have ok: "carrier_ok c" using assms(1) by (rule pool.reachable_inv)
  have "0 \<le> gen_reservations g \<and> (0 < gen_reservations g \<longrightarrow> gen_state g \<noteq> DRAINING \<and> gen_state g \<noteq> CLOSED)"
    using gensD [OF ok assms(2)] by (cases "gen_state g") (simp_all add: gen_ok_def)
  with coveredD [OF ok assms(2)] show ?thesis by blast
qed

definition plain_caller :: caller where
  "plain_caller = \<lparr>cl_execution = None, cl_running_loop = None\<rparr>"

definition leased_pool :: carrier where
  "leased_pool = snd (carrier_acquire_lease False plain_caller carrier_init :: (unit exc + nat) \<times> carrier)"

lemma leased_pool_reachable: "reachable carrier_start carrier_step leased_pool"
  by (rule reach_step [OF reach_start], simp add: carrier_start_def,
      rule step_acquire [of False plain_caller _ "fst (carrier_acquire_lease False plain_caller carrier_init)"])
     (simp add: leased_pool_def)

lemmas pool_eval = Let_def plain_caller_def carrier_acquire_lease_def carrier_init_def new_slot_locked_def
  select_slot_def freeze_settings_def slot_candidate_def owns_any_generation_id_def slot_gens_def
  map_filter_def find_slot_def slot_acquire_lease_def all_slots_def reserve_locked_def
  create_generation_locked_def bump_reservations_def put_gen_def put_slot_def new_generation_def
  gen_state_of_def reservable_def generation_start_def start_gen_def release_reservation_def
  release_gen_def carrier_submit_def slot_submit_def slot_for_generation_def owns_generation_def

lemma leased_pool_value:
  "leased_pool = \<lparr>car_gens = [1 \<mapsto> (new_generation 1 1)\<lparr>gen_reservations := 1\<rparr>],
     car_generation_counter = 1, car_slot_counter = 1, car_selection_cursor = 0, car_loop_count = 1,
     car_settings_frozen = True,
     car_slots = [\<lparr>slot_id = 1, slot_current = Some 1, slot_next = None, slot_on_idle = False,
       slot_executor_open = True, slot_control_queue = [1], slot_worker = None\<rparr>],
     car_escape_slots = []\<rparr>"
  by (simp add: leased_pool_def pool_eval)

lemma leased_pool_gen:
  "car_gens leased_pool 1 = Some ((new_generation 1 1)\<lparr>gen_reservations := 1\<rparr>)"
  by (simp add: leased_pool_value)

theorem reserved_generation_stays_open_witness:
  "0 \<le> gen_reservations ((new_generation 1 1)\<lparr>gen_reservations := 1\<rparr>)
   \<and> (\<exists>s\<in>set (all_slots leased_pool). slot_id s = 1 \<and> holds s 1)"
  using reserved_generation_stays_open [OF leased_pool_reachable leased_pool_gen]
  by (simp add: new_generation_def)


definition running_pool :: carrier where
  "running_pool = generation_start 7 (hd (car_slots leased_pool)) leased_pool"

lemma running_pool_reachable: "reachable carrier_start carrier_step running_pool"
  unfolding running_pool_def
  by (rule reach_step [OF leased_pool_reachable step_start]) (simp_all add: leased_pool_value all_slots_def)

lemma running_pool_gen: "car_gens running_pool 1 = Some (start_gen 7 ((new_generation 1 1)\<lparr>gen_reservations := 1\<rparr>))"
  by (simp add: running_pool_def leased_pool_value pool_eval)


text \<open>C12. The life of a generation is one-way: whatever leases, submissions, releases and control threads do
  from a reachable pool, a generation is never forgotten, keeps its slot and only moves forward from
  the queue over its open loop to closing; its loop is never replaced, and once a running generation
  is sealing it has no reservation ever again, so the loop of a lease cannot be stopped.\<close>

theorem generation_life_is_one_way:
  assumes "reachable carrier_start carrier_step c" "carrier_step\<^sup>*\<^sup>* c c'" "car_gens c i = Some g"
  shows "\<exists>g'. car_gens c' i = Some g' \<and> gen_slot_id g' = gen_slot_id g \<and> gen_phase g \<le> gen_phase g'
    \<and> (\<forall>l. gen_loop g = Some l \<longrightarrow> gen_loop g' = Some l \<or> gen_loop g' = None \<and> gen_state g' = CLOSED)
    \<and> (SEALING \<le> gen_phase g \<longrightarrow> gen_reservations g' = 0)"
proof -
  have adv: "carrier_advance c c'" using assms(1,2) by (rule lifecycle.reachable_le)
  have "carrier_ok c'" using assms(1,2) by (blast intro: pool.steps_inv pool.reachable_inv)
  with advance_known [OF adv assms(3)] obtain g' where g': "car_gens c' i = Some g'" "gen_advance g g'" "gen_ok g'"
    by (blast dest: gensD)
  have "gen_loop g' = Some l \<or> gen_loop g' = None \<and> gen_state g' = CLOSED" if "gen_loop g = Some l" for l
    using that g'(2,3) by (cases "gen_state g'") (auto simp: gen_advance_def gen_phase_def gen_ok_def split: if_splits)
  moreover have "gen_reservations g' = 0" if "SEALING \<le> gen_phase g"
    using that g'(2) by (intro gen_ok_started_sealed [OF g'(3)]) (auto simp: gen_advance_def intro: order_trans)
  ultimately show ?thesis using g'(1,2) by (auto simp: gen_advance_def)
qed

definition released_pool :: carrier where
  "released_pool = put_gen ((start_gen 7 (new_generation 1 1))\<lparr>gen_state := SEALING\<rparr>) running_pool"

lemma released_pool_step: "carrier_step running_pool released_pool"
proof -
  have "release_reservation 1 running_pool = (Inr released_pool :: unit exc + carrier)"
    by (simp add: release_reservation_def release_gen_def released_pool_def running_pool_gen [unfolded One_nat_def]
        start_gen_def new_generation_def reservable_def Let_def)
  then show ?thesis by (rule step_release)
qed

theorem generation_life_is_one_way_witness:
  "\<exists>g'. car_gens released_pool 1 = Some g' \<and> OPEN \<le> gen_phase g'"
  using generation_life_is_one_way [OF running_pool_reachable r_into_rtranclp [where r = carrier_step, OF released_pool_step] running_pool_gen]
  by (auto simp: gen_phase_def start_gen_def new_generation_def)

text \<open>C8. A lease is always granted, and never on a lane that would deadlock the caller: whatever
  state the pool is in, \<open>acquire_lease\<close> returns a generation with a reservation that is none of
  the caller's blocked carrier ancestors and, when the caller must not share its loop, does not
  run on the loop the caller is on.\<close>

theorem lease_granted_off_blocked_lanes:
  assumes "reachable carrier_start carrier_step c"
    and "cl_execution cl = Some ec" "\<forall>b\<in>ec_blocked ec. b \<le> car_generation_counter c"
  shows "\<exists>i c' g. carrier_acquire_lease avoid cl c = (Inr i :: 'e exc + nat, c') \<and> car_gens c' i = Some g
    \<and> 0 < gen_reservations g \<and> i \<notin> ec_blocked ec
    \<and> (avoid \<and> cl_running_loop cl \<noteq> None \<longrightarrow> gen_loop g \<noteq> cl_running_loop cl)"
  using acquire_lease_allowed [OF pool.reachable_inv [OF assms(1)], of cl avoid] assms(2,3)
  by (auto simp: lease_allowed_def)

definition nested_caller :: caller where
  "nested_caller = \<lparr>cl_execution = Some \<lparr>ec_generation = 1, ec_handle = 0, ec_phase = Phase_body, ec_blocked = {1}\<rparr>,
     cl_running_loop = Some 7\<rparr>"

theorem lease_granted_off_blocked_lanes_witness:
  "\<exists>i c' g. carrier_acquire_lease True nested_caller running_pool = (Inr i :: unit exc + nat, c')
     \<and> car_gens c' i = Some g \<and> 0 < gen_reservations g \<and> i \<noteq> 1 \<and> gen_loop g \<noteq> Some 7"
  using lease_granted_off_blocked_lanes [OF running_pool_reachable, of nested_caller _ True, where 'e = unit]
  by (simp add: nested_caller_def running_pool_def leased_pool_value pool_eval)

text \<open>\<open>_select_slot\<close> returns a permanent slot that the caller may use and that carries the
  least number of reservations among all such slots; only when the caller may use none of them
  is a fresh escape slot created.\<close>

theorem select_slot_least_loaded:
  assumes "carrier_ok c" "select_slot avoid running blocked c = (s, c')"
  shows "(s \<in> set (car_slots c) \<and> slot_candidate c avoid running blocked s
            \<and> (\<forall>r\<in>set (car_slots c). slot_candidate c avoid running blocked r \<longrightarrow>
                 snd (snd (snd (slot_snapshot c s))) \<le> snd (snd (snd (slot_snapshot c r)))))
         \<or> ((\<forall>r\<in>set (car_slots c). \<not> slot_candidate c avoid running blocked r)
            \<and> s \<notin> set (all_slots c) \<and> car_escape_slots c' = car_escape_slots c @ [s])"
proof -
  let ?f = "freeze_settings c"
  let ?cs = "filter (\<lambda>(i, s). slot_candidate ?f avoid running blocked s) (List.enumerate 0 (car_slots ?f))"
  have cand: "slot_candidate ?f avoid running blocked r = slot_candidate c avoid running blocked r" for r
    by (rule slot_candidate_cong) simp
  have snap: "slot_snapshot ?f r = slot_snapshot c r" for r
    by (simp only: slot_snapshot_def slot_gens_def gen_state_of_def freeze_frame)
  show ?thesis
  proof (cases "first_min (slot_rank ?f) ?cs")
    case None
    then have "\<forall>r\<in>set (car_slots c). \<not> slot_candidate c avoid running blocked r"
      using enumerate_mem [of _ "car_slots c" 0] by (fastforce simp: filter_empty_conv cand)
    moreover have "new_slot_locked True ?f = (s, c')"
      using None assms(2) by (simp add: select_slot_def del: first_min_None)
    then have "slot_id s = Suc (car_slot_counter c)" "car_escape_slots c' = car_escape_slots c @ [s]"
      by (auto simp: new_slot_locked_def freeze_settings_def Let_def)
    ultimately show ?thesis
      using carrier_okD(2) [OF assms(1)] by (auto simp: pool_ok_def)
  next
    case (Some p)
    have min: "p \<in> set ?cs" "\<forall>q\<in>set ?cs. slot_rank ?f p \<le> slot_rank ?f q"
      using first_min_Some [OF Some] by auto
    have s: "s = snd p" using assms(2) Some by (auto simp: select_slot_def split: prod.splits)
    have "snd (snd (snd (slot_snapshot c s))) \<le> snd (snd (snd (slot_snapshot c r)))"
      if r: "r \<in> set (car_slots c)" "slot_candidate c avoid running blocked r" for r
    proof -
      obtain k where "(k, r) \<in> set (List.enumerate 0 (car_slots c))" using enumerate_mem [OF r(1)] by blast
      then have "(k, r) \<in> set ?cs" using r(2) by (auto simp: cand)
      with min(2) have "slot_rank ?f p \<le> slot_rank ?f (k, r)" by blast
      then show ?thesis by (auto simp: slot_rank_def snap s less_eq_prod_def)
    qed
    moreover have "s \<in> set (car_slots c)" "slot_candidate c avoid running blocked s"
      using min(1) by (auto simp: s cand in_set_enumerate_eq)
    ultimately show ?thesis by blast
  qed
qed

theorem select_slot_least_loaded_witness:
  "fst (select_slot False None {} leased_pool) \<in> set (car_slots leased_pool)"
  using select_slot_least_loaded [OF pool.reachable_inv [OF leased_pool_reachable],
      of False None "{}" "fst (select_slot False None {} leased_pool)" "snd (select_slot False None {} leased_pool)"]
  by (auto simp: leased_pool_value slot_candidate_def owns_any_generation_id_def)

text \<open>The carrier count is frozen by the first lease: once any generation exists,
  \<open>set_carrier_loop_count\<close> accepts only the count that is in force and leaves the pool as it is.\<close>

theorem settings_frozen_by_first_lease:
  assumes "reachable carrier_start carrier_step c" "car_gens c i = Some g"
  shows "set_carrier_loop_count n c = (if n = car_loop_count c then Inr c else Inl StageLifecycleError)"
  using pool.reachable_inv [OF assms(1)] assms(2)
  by (auto simp: carrier_ok_def set_carrier_loop_count_def)

theorem settings_frozen_by_first_lease_witness:
  "set_carrier_loop_count 4 leased_pool = (Inl StageLifecycleError :: unit exc + carrier)"
  using settings_frozen_by_first_lease [OF leased_pool_reachable leased_pool_gen, of 4]
  by (simp add: leased_pool_value)

text \<open>Reservations balance: any sequence of retains and releases that never asks for more
  releases than there are reservations succeeds and moves the count by the difference, and any
  other sequence is refused with the \<open>StageLifecycleError\<close> of the release at zero.\<close>

theorem reservations_balance:
  "(\<exists>g'. count_run (\<lambda>g. g\<lparr>gen_reservations := gen_reservations g + 1\<rparr>) release_gen ops g = (Inr g' :: 'e exc + generation)
       \<and> gen_reservations g' = gen_reservations g + count_delta ops)
   \<longleftrightarrow> never_below (gen_reservations g) ops"
  using reservations.run_succeeds [of g ops, where 'a = 'e] reservations.run_raises [of g ops, where 'a = 'e]
  by (cases "never_below (gen_reservations g) ops") auto

text \<open>A task created inside Stage work and its completion are a round trip: the task factory
  retains the generation and the handle, and \<open>_descendant_done\<close> gives both back, so the
  generation is exactly as before and the handle holds the same amount of work and no longer
  owns the task.\<close>

theorem descendant_round_trip:
  assumes "ec_generation ec = i" "car_gens c i = Some g" "gen_id g = i" "gen_state g = OPEN" "0 < gen_reservations g"
    "0 < h_pending_work h"
  shows "\<exists>h1 cancel c1 h2. task_factory (Some ec) i task h c = (Inr (h1, cancel, c1) :: 'e exc + _)
    \<and> descendant_done i task None h1 c1 = Inr (h2, False, c)
    \<and> h_pending_work h1 = h_pending_work h + 1 \<and> h_pending_work h2 = h_pending_work h
    \<and> task \<notin> set (h_owned_body_tasks h2) \<and> task \<notin> set (h_owned_settlement_tasks h2)"
proof -
  let ?g1 = "g\<lparr>gen_reservations := gen_reservations g + 1\<rparr>"
  have undo: "release_gen ?g1 = (Inr g :: 'e exc + generation)" using assms(5) by (simp add: release_gen_def Let_def)
  have c: "c\<lparr>car_gens := car_gens c\<rparr> = c" by simp
  obtain h1 b where h1: "register_owned_task task (ec_phase ec) (retain_work h) = (h1, b)" by fastforce
  then have work: "h_pending_work h1 = h_pending_work h + 1"
    by (auto simp: register_owned_task_def retain_work_def Let_def split: if_splits)
  have fac: "task_factory (Some ec) i task h c = Inr (h1, b, put_gen ?g1 c)"
    using assms(1-4) h1 by (simp add: task_factory_def retain_reservation_def)
  have rel: "release_reservation i (put_gen ?g1 c) = (Inr c :: 'e exc + carrier)"
    using assms(2,3) undo by (simp add: release_reservation_def put_gen_def fun_upd_idem)
  have "descendant_done i task None h1 (put_gen ?g1 c)
        = Inr ((unregister_owned_task task h1)\<lparr>h_pending_work := h_pending_work h\<rparr>, False, c)"
    using assms(6) work rel
    by (simp add: descendant_done_def submission_finished_def release_work_def unregister_owned_task_def Let_def)
  with fac work show ?thesis by (simp add: unregister_owned_task_def)
qed

theorem descendant_round_trip_witness:
  "\<exists>h1 cancel c1 h2.
     task_factory (Some \<lparr>ec_generation = 1, ec_handle = 0, ec_phase = Phase_body, ec_blocked = {}\<rparr>) 1 9
       ((handle_init ''job'' Backend_stage)\<lparr>h_pending_work := 1, h_settlement_done := False\<rparr> :: (nat, nat) handle)
       running_pool = (Inr (h1, cancel, c1) :: nat exc + _)
     \<and> descendant_done 1 9 None h1 c1 = Inr (h2, False, running_pool) \<and> h_pending_work h2 = 1"
  using descendant_round_trip [OF _ running_pool_gen, of "\<lparr>ec_generation = 1, ec_handle = 0, ec_phase = Phase_body, ec_blocked = {}\<rparr>"
      "(handle_init ''job'' Backend_stage)\<lparr>h_pending_work := 1, h_settlement_done := False\<rparr> :: (nat, nat) handle" 9]
  by (auto simp: start_gen_def new_generation_def handle_init_def)

text \<open>C36. A lease on the queued generation of a slot is not always usable. A caller that leased
  the queued generation and gave the lease back before its loop started has sealed it; the next
  lease is still granted on that generation, but the submission pinned to it is refused with
  \<open>StageLifecycleError\<close>.\<close>

theorem sealed_queued_generation_leased_unusable:
  "\<exists>c i c'. reachable carrier_start carrier_step c
     \<and> carrier_acquire_lease False plain_caller c = (Inr i :: unit exc + nat, c')
     \<and> (\<forall>sm origin. fst (carrier_submit sm (Some i) plain_caller (handle_init origin Backend_stage :: (unit, unit) handle) c')
          = Inl StageLifecycleError)"
proof -
  define c1 where "c1 = projr (release_reservation 1 running_pool :: unit exc + carrier)"
  have c1: "release_reservation 1 running_pool = (Inr c1 :: unit exc + carrier)"
    by (simp add: c1_def running_pool_def leased_pool_value pool_eval)
  have r1: "reachable carrier_start carrier_step c1"
    using running_pool_reachable step_release [OF c1] by (rule reach_step)
  define c2 where "c2 = snd (carrier_acquire_lease False plain_caller c1 :: (unit exc + nat) \<times> carrier)"
  have r2: "reachable carrier_start carrier_step c2"
    using r1 by (rule reach_step, intro step_acquire [of False plain_caller]) (simp add: c2_def prod_eq_iff)
  define c3 where "c3 = projr (release_reservation 2 c2 :: unit exc + carrier)"
  note eval = c3_def c2_def c1_def running_pool_def leased_pool_value pool_eval
  have c3: "release_reservation 2 c2 = (Inr c3 :: unit exc + carrier)"
    by (simp add: eval)
  have r3: "reachable carrier_start carrier_step c3"
    using r2 step_release [OF c3] by (rule reach_step)
  have "\<exists>c'. carrier_acquire_lease False plain_caller c3 = (Inr 2 :: unit exc + nat, c')
     \<and> (\<forall>sm origin. fst (carrier_submit sm (Some 2) plain_caller (handle_init origin Backend_stage :: (unit, unit) handle) c')
          = Inl StageLifecycleError)"
    by (simp add: eval release_work_def retain_work_def handle_init_def)
  with r3 show ?thesis by blast
qed

end
