(* ===== verification/Scope_Props.thy ===== *)
theory Scope_Props
  imports Idle_Facts Scope_World Carrier_Props
begin

text \<open>
  What a scope promises: bounded and fair admission, idle timeouts that are neither lost nor
  early, waits that end only at settlement, a close that is final and repeatable, and work
  that gives back everything it took.
\<close>

section \<open>Admission\<close>

text \<open>C4. Roots are bounded: for every sequence of \<open>go\<close> calls and completions of admitted roots,
  no more than \<open>max_concurrency\<close> roots run, the counter equals the number of running roots, a
  root waits only while all permits are taken, and no more than \<open>max_pending\<close> roots wait.\<close>

theorem admitted_roots_bounded:
  assumes "reachable root_start root_step s" "st_max_concurrency (rs_stage s) = Some m"
  shows "int (length (rs_running s)) \<le> m
    \<and> st_active_root_count (rs_stage s) = int (length (rs_running s))
    \<and> (st_pending_admissions (rs_stage s) \<noteq> [] \<longrightarrow> int (length (rs_running s)) = m)
    \<and> (\<forall>p. st_max_pending (rs_stage s) = Some p \<longrightarrow> int (length (st_pending_admissions (rs_stage s))) \<le> p)"
  using roots.reachable_inv [OF assms(1)] assms(2) by (auto simp: root_inv_def roots_ok_def)

definition one_root_args :: stage_args where
  "one_root_args = \<lparr>sa_loop = Arg_stage, sa_max_concurrency = Some 1, sa_max_pending = Some 2,
     sa_idle_timeout = None, sa_max_workers = None, sa_executor = False, sa_on_adopted_done = None\<rparr>"

definition outside :: env where
  "outside = \<lparr>en_active_stage = None, en_outer = (None, None), en_caller = plain_caller,
     en_execution_stage = None, en_current_task = None, en_running = (\<lambda>_. False), en_closed = (\<lambda>_. False), en_now = 0\<rparr>"

definition first_root :: "unit root_system" where
  "first_root = \<lparr>rs_stage = snd (admit_root outside (fresh_stage 0 0 one_root_args Mode_stage None)),
     rs_running = [Immediate_admission]\<rparr>"

definition two_waiting :: "unit root_system" where
  "two_waiting = first_root\<lparr>rs_stage := snd (admit_root outside (snd (admit_root outside (rs_stage first_root))))\<rparr>"

lemmas root_eval = first_root_def two_waiting_def outside_def fresh_stage_def one_root_args_def admit_root_def

lemma first_root_reachable: "reachable root_start root_step first_root"
proof -
  let ?s = "\<lparr>rs_stage = fresh_stage 0 0 one_root_args Mode_stage None, rs_running = []\<rparr> :: unit root_system"
  have "stage_init 0 0 one_root_args = (Inr (rs_stage ?s) :: unit exc + unit stage)"
    by (simp add: stage_init_Inr) (simp add: one_root_args_def)
  then have "root_start ?s" unfolding root_start_def by (metis root_system.select_convs(2))
  moreover have "root_step ?s first_root"
    using root_admitted [of outside ?s "rs_stage first_root"] by (simp add: root_eval)
  ultimately show ?thesis by (blast intro: reach_start reach_step)
qed

lemma two_waiting_reachable: "reachable root_start root_step two_waiting"
proof -
  let ?q = "first_root\<lparr>rs_stage := snd (admit_root outside (rs_stage first_root))\<rparr>"
  have "root_step first_root ?q"
    using root_queued [of outside first_root 0 "rs_stage ?q"] by (simp add: root_eval)
  moreover have "root_step ?q two_waiting"
    using root_queued [of outside ?q 1 "rs_stage two_waiting"] by (simp add: root_eval)
  ultimately show ?thesis by (blast intro: first_root_reachable reach_step)
qed

theorem admitted_roots_bounded_witness:
  "st_active_root_count (rs_stage two_waiting) = 1 \<and> length (st_pending_admissions (rs_stage two_waiting)) = 2"
  using admitted_roots_bounded [OF two_waiting_reachable, of 1] by (simp add: root_eval)

text \<open>C14. Permits are handed over first in, first out and none is lost: when a running root
  completes and roots are waiting, exactly the one that has waited longest is granted, the
  others keep their order, and the number of running roots stays the same; with no root
  waiting the permit becomes free.\<close>

theorem permit_handed_to_longest_waiting:
  assumes "reachable root_start root_step s" "r \<in> set (rs_running s)"
  shows "case st_pending_admissions (rs_stage s) of
      [] \<Rightarrow> st_active_root_count (finish_admission (Some r) (rs_stage s)) = st_active_root_count (rs_stage s) - 1
    | i # q \<Rightarrow> admission_granted (finish_admission (Some r) (rs_stage s)) (Queued_admission i)
        \<and> st_pending_admissions (finish_admission (Some r) (rs_stage s)) = q
        \<and> (\<forall>j\<in>set q. \<not> admission_granted (finish_admission (Some r) (rs_stage s)) (Queued_admission j))
        \<and> st_active_root_count (finish_admission (Some r) (rs_stage s)) = st_active_root_count (rs_stage s)"
proof -
  have ok: "roots_ok (rs_stage s)" "admission_granted (rs_stage s) r"
    using roots.reachable_inv [OF assms(1)] assms(2) by (auto simp: root_inv_def)
  show ?thesis
  proof (cases "st_pending_admissions (rs_stage s)")
    case Nil
    then show ?thesis by (simp add: finish_granted [OF ok])
  next
    case (Cons i q)
    with ok(1) have "\<forall>j\<in>set q. j \<noteq> i \<and> waiting (rs_stage s) j" by (auto simp: roots_ok_def)
    with Cons show ?thesis by (auto simp: finish_granted [OF ok] admission_granted_def waiting_def)
  qed
qed

theorem permit_handed_to_longest_waiting_witness:
  "admission_granted (finish_admission (Some Immediate_admission) (rs_stage two_waiting)) (Queued_admission 0)
   \<and> st_pending_admissions (finish_admission (Some Immediate_admission) (rs_stage two_waiting)) = [1]"
  using permit_handed_to_longest_waiting [OF two_waiting_reachable, of Immediate_admission]
  by (simp add: root_eval)

text \<open>C35. The bound does not survive the end of a root that is still waiting: when a waiting root
  ends (it was cancelled, or its handle could not be created), \<open>_finish_admission\<close> removes it from
  the queue and then still grants the next one although no permit was returned. A scope with
  \<open>max_concurrency=1\<close> reaches two running roots.\<close>

theorem ended_waiting_root_exceeds_bound:
  "\<exists>s :: unit root_system. reachable root_start root_step s \<and> st_max_concurrency (rs_stage s) = Some 1
     \<and> st_pending_admissions (rs_stage s) = [0, 1]
     \<and> st_active_root_count (finish_admission (Some (Queued_admission 0)) (rs_stage s)) = 2"
  by (rule exI [of _ two_waiting], simp add: two_waiting_reachable)
     (simp add: root_eval finish_admission_def admission_granted_def grant_next.simps)

section \<open>Idle timing\<close>


definition limited_args :: stage_args where
  "limited_args = \<lparr>sa_loop = Arg_stage, sa_max_concurrency = None, sa_max_pending = None,
     sa_idle_timeout = Some 5, sa_max_workers = None, sa_executor = False, sa_on_adopted_done = None\<rparr>"

definition limited_start :: "unit idle_system" where
  "limited_start = \<lparr>id_stage = fresh_stage 0 0 limited_args Mode_stage None, id_now = 0\<rparr>"

definition limited_busy :: "unit idle_system" where
  "limited_busy = limited_start\<lparr>id_stage := touch 0 ((id_stage limited_start)\<lparr>st_active_handles := [3]\<rparr>)\<rparr>"

lemmas idle_eval = limited_busy_def limited_start_def limited_args_def fresh_stage_def touch_def has_active_work_def
  schedule_idle_timer_def

lemma limited_busy_reachable: "reachable idle_start idle_step limited_busy"
proof -
  have "stage_init 0 0 limited_args = (Inr (fresh_stage 0 0 limited_args Mode_stage None) :: unit exc + unit stage)"
    by (simp add: stage_init_Inr) (simp add: limited_args_def)
  then have "idle_start limited_start"
    unfolding idle_start_def limited_start_def by auto
  moreover have "idle_step limited_start limited_busy"
    using idle_go [of limited_start "id_stage limited_start" 3] by (simp add: idle_eval)
  ultimately show ?thesis by (blast intro: reach_start reach_step)
qed


text \<open>Idle timeouts are exact: a call of \<open>_idle_deadline_reached\<close> with the current token times
  an unsealed busy scope out if and only if a full limit has passed since the last activity;
  it then seals the scope, stores the sorted origins of all unresolved work and hands every
  handle and adopted task to cancellation, and otherwise only rearms the timer for the exact
  remaining time.\<close>

theorem idle_deadline_exact:
  assumes "st_idle_timeout st = Some l" "has_active_work st" "\<not> st_sealed st" "st_idle_timeout_error st = None"
    and "idle_deadline_reached origin now (st_idle_timer_token st) st = (st', hs, ts)"
  shows "(st_sealed st' \<longleftrightarrow> l \<le> now - st_last_activity st)
    \<and> (if st_sealed st' then st_idle_timeout_error st' = Some (l, active_origins origin st) \<and> st_cancelling st'
         \<and> hs = st_active_handles st \<and> ts = map fst (st_adopted_tasks st)
         \<and> raise_scope_errors st' = Inl (StageIdleTimeoutError l (active_origins origin st))
       else hs = [] \<and> ts = [] \<and> st_idle_timeout_error st' = None
         \<and> st_idle_timer st' = Some \<lparr>tm_due = st_last_activity st + l, tm_token = st_idle_timer_token st\<rparr>)"
proof -
  have o: "active_origins origin (st\<lparr>st_idle_timer := None\<rparr>) = active_origins origin st"
    by (simp add: active_origins_def)
  show ?thesis
  proof (cases "now - st_last_activity st < l")
    case True
    with assms have "st' = schedule_idle_timer now (l - (now - st_last_activity st)) (st_idle_timer_token st) (st\<lparr>st_idle_timer := None\<rparr>)"
      "hs = []" "ts = []"
      by (auto simp: idle_deadline_reached_def Let_def)
    with True assms(3,4) show ?thesis by (simp add: schedule_idle_timer_def)
  next
    case False
    with assms have "st' = st\<lparr>st_idle_timer := None, st_idle_timeout_error := Some (l, active_origins origin st),
        st_sealed := True, st_cancelling := True\<rparr>" "hs = st_active_handles st" "ts = map fst (st_adopted_tasks st)"
      by (auto simp: idle_deadline_reached_def Let_def o)
    with False show ?thesis by (simp add: raise_scope_errors_def)
  qed
qed

theorem idle_deadline_exact_witness:
  "st_sealed (fst (idle_deadline_reached (\<lambda>_. ''go:job'') 6 1 (id_stage limited_busy)))"
proof -
  obtain st hs ts where r: "idle_deadline_reached (\<lambda>_. ''go:job'') 6 1 (id_stage limited_busy) = (st, hs, ts)"
    by (metis surj_pair)
  have "st_idle_timer_token (id_stage limited_busy) = 1" "st_idle_timeout (id_stage limited_busy) = Some 5"
    "has_active_work (id_stage limited_busy)" "\<not> st_sealed (id_stage limited_busy)"
    "st_idle_timeout_error (id_stage limited_busy) = None" "st_last_activity (id_stage limited_busy) = 0"
    by (simp_all add: idle_eval)
  with idle_deadline_exact [of "id_stage limited_busy" 5 "\<lambda>_. ''go:job''" 6 st hs ts] r show ?thesis by simp
qed

text \<open>A sealed scope never reopens: whatever work is still registered, completed or ticked afterwards,
  the scope stays sealed, no idle timer is armed any more, a timer that fires late with any token
  changes nothing and cancels nothing, and whether and how the scope timed out is decided.\<close>

theorem sealed_scope_never_reopens:
  assumes "reachable idle_start idle_step s" "idle_step\<^sup>*\<^sup>* s t" "st_sealed (id_stage s)"
  shows "st_sealed (id_stage t) \<and> st_idle_timer (id_stage t) = None
    \<and> idle_deadline_reached origin now token (id_stage t) = (id_stage t, [], [])
    \<and> st_idle_timeout_error (id_stage t) = st_idle_timeout_error (id_stage s)"
proof -
  have t: "st_sealed (id_stage t)" "st_idle_timeout_error (id_stage t) = st_idle_timeout_error (id_stage s)"
    using aging.reachable_le [OF assms(1,2)] assms(3) by (auto simp: idle_ages_def scope_ages_def)
  have "idle_inv t" using assms(1,2) by (blast intro: idling.steps_inv idling.reachable_inv)
  with t(1) have "st_idle_timer (id_stage t) = None" by (auto simp: idle_inv_def idle_ok_def quiet_def)
  with t show ?thesis by (simp add: idle_deadline_reached_def split: option.splits)
qed

definition sealed_busy :: "unit idle_system" where
  "sealed_busy = limited_busy\<lparr>id_stage := seal (id_stage limited_busy)\<rparr>"

theorem sealed_scope_never_reopens_witness:
  "idle_deadline_reached (\<lambda>_. ''go:job'') 99 1 (seal (touch 0 (id_stage sealed_busy)))
     = (seal (touch 0 (id_stage sealed_busy)), [], [])"
proof -
  have r: "reachable idle_start idle_step sealed_busy"
    unfolding sealed_busy_def by (rule reach_step [OF limited_busy_reachable idle_seal])
  let ?t = "sealed_busy\<lparr>id_stage := touch 0 (id_stage sealed_busy)\<rparr>"
  have "idle_step sealed_busy ?t"
    using idle_activity [of sealed_busy] by (simp add: owned_activity_def sealed_busy_def limited_busy_def limited_start_def)
  moreover have "idle_step ?t (?t\<lparr>id_stage := seal (id_stage ?t)\<rparr>)" by (rule idle_seal)
  ultimately have "idle_step\<^sup>*\<^sup>* sealed_busy (?t\<lparr>id_stage := seal (id_stage ?t)\<rparr>)" by simp
  moreover have "st_sealed (id_stage sealed_busy)" by (simp add: sealed_busy_def seal_def)
  ultimately show ?thesis
    using sealed_scope_never_reopens [OF r, of "?t\<lparr>id_stage := seal (id_stage ?t)\<rparr>" "\<lambda>_. ''go:job''" 99 1]
    by fastforce
qed

section \<open>Waiting and closing\<close>

text \<open>The wait of \<open>wait_settled\<close> ends at the first moment it holds the lock and the scope is
  settled or the deadline has passed: settled wins over the deadline, and a timeout reports the
  sorted origins of the work that is unresolved at that moment.\<close>

theorem wait_ends_at_first_settled_or_late_observation:
  "wait_loop origin deadline obs =
     (case dropWhile (\<lambda>(st, now). has_active_work st \<and> (case deadline of None \<Rightarrow> True | Some d \<Rightarrow> now < d)) obs of
        [] \<Rightarrow> None
      | (st, now) # _ \<Rightarrow> Some (if has_active_work st then Inl (TimeoutError (active_origins origin st)) else Inr ()))"
  by (induction origin deadline obs rule: wait_loop.induct) (auto split: option.splits)

text \<open>Work that belongs to a scope can never wait for it: from a task, thread or adopted task
  owned by the scope, \<open>wait_settled\<close>, \<open>cancel_and_wait_settled\<close> and \<open>close\<close> all raise
  \<open>StageLifecycleError\<close> at once and leave the scope as it is, and code that does not belong to
  the scope never gets this error from the self-wait check.\<close>

theorem owned_work_cannot_wait_for_its_scope:
  "ensure_not_owned_self_wait en st = (if owns_current_execution en st then Inl StageLifecycleError else Inr ())
   \<and> (owns_current_execution en st \<longrightarrow>
        wait_settled origin en timeout obs final st = Some (Inl StageLifecycleError)
        \<and> close origin en timeout obs final st = Some (Inl StageLifecycleError, st)
        \<and> cancel_scope en st = (Inl StageLifecycleError, st))"
proof -
  have "ensure_not_owned_self_wait en st = (if owns_current_execution en st then Inl StageLifecycleError else Inr ())"
    by (auto simp: ensure_not_owned_self_wait_def owns_current_execution_def split: option.splits)
  then show ?thesis by (simp add: wait_settled_def close_def cancel_scope_def)
qed

definition inside :: env where
  "inside = outside\<lparr>en_active_stage := Some 0\<rparr>"

theorem owned_work_cannot_wait_for_its_scope_witness:
  "close (\<lambda>_. '''') inside None [] (id_stage limited_busy) (id_stage limited_busy)
     = Some (Inl StageLifecycleError, id_stage limited_busy)"
proof -
  have "owns_current_execution inside (id_stage limited_busy)"
    by (simp add: owns_current_execution_def inside_def outside_def idle_eval)
  then show ?thesis using owned_work_cannot_wait_for_its_scope [of inside "id_stage limited_busy"] by blast
qed

lemma raise_scope_errors_terminal:
  "case raise_scope_errors st of Inr _ \<Rightarrow> True | Inl (StageIdleTimeoutError _ _) \<Rightarrow> True
     | Inl (StageSettlementError _) \<Rightarrow> True | Inl _ \<Rightarrow> False"
  by (simp add: raise_scope_errors_def split: option.splits)

lemma wait_loop_error: "wait_loop origin deadline obs = Some (Inl e) \<Longrightarrow> \<exists>os. e = TimeoutError os"
  by (induction origin deadline obs rule: wait_loop.induct) (auto split: if_splits option.splits)

lemma wait_settled_cases:
  assumes "wait_settled origin en timeout obs final st = Some r"
  shows "r = Inl StageLifecycleError \<or> (\<exists>os. r = Inl (TimeoutError os))
    \<or> (r = raise_scope_errors final \<and> (\<exists>x\<in>set obs. \<not> has_active_work (fst x)))"
proof -
  have idle: "\<exists>x\<in>set obs. \<not> has_active_work (fst x)"
    if "wait_loop origin d obs = Some (Inr u)" for d u
    using that by (induction origin d obs rule: wait_loop.induct) (auto split: if_splits option.splits)
  have guard: "ensure_not_owned_self_wait en st = Inl e \<Longrightarrow> e = StageLifecycleError"
    "ensure_not_same_caller_loop_sync_wait en st = Inl e \<Longrightarrow> e = StageLifecycleError" for e
    by (auto simp: ensure_not_owned_self_wait_def ensure_not_same_caller_loop_sync_wait_def split: if_splits option.splits)
  show ?thesis
    using assms idle guard wait_loop_error unfolding wait_settled_def
    by (fastforce split: sum.splits option.splits)
qed

lemma first_close:
  assumes "close origin en timeout obs final st = Some (r, st')" "\<not> st_close_completed st" "\<not> st_close_completed final"
    "st_close_completed st'"
  shows "r = raise_scope_errors final \<and> (\<exists>x\<in>set obs. \<not> has_active_work (fst x))
    \<and> st' = final\<lparr>st_private_executor := map_option (\<lambda>_. False) (st_private_executor final), st_close_completed := True\<rparr>"
proof -
  have guard: "ensure_not_owned_self_wait en st = Inr ()" "ensure_not_same_caller_loop_sync_wait en st = Inr ()"
    using assms by (auto simp: close_def split: sum.splits)
  then obtain r' where w: "wait_settled origin en timeout obs final (seal st) = Some r'"
    using assms(1,2) by (auto simp: close_def Let_def split: option.splits)
  then have r: "r' = r" using assms(1,2) guard by (auto simp: close_def Let_def split: if_splits)
  show ?thesis
    using wait_settled_cases [OF w] assms guard w
    by (auto simp: close_def r Let_def split: if_splits)
qed

text \<open>C27. Closing is final and repeatable: a close that completes has seen the scope without work,
  reports exactly the scope's recorded errors, shuts the private executor down, and every later
  close from outside returns or raises the same and changes nothing.\<close>

theorem close_final_and_repeatable:
  assumes "close origin en timeout obs final st = Some (r, st')" "\<not> st_close_completed st"
    "\<not> st_close_completed final" "st_close_completed st'"
    and "\<not> owns_current_execution en' st'" "ensure_not_same_caller_loop_sync_wait en' st' = Inr ()"
  shows "(\<exists>x\<in>set obs. \<not> has_active_work (fst x)) \<and> r = raise_scope_errors final
    \<and> st_private_executor st' \<noteq> Some True
    \<and> close origin en' timeout' obs' final' st' = Some (r, st')"
proof -
  note c = first_close [OF assms(1-4)]
  have "raise_scope_errors st' = raise_scope_errors final" using c by (auto simp: raise_scope_errors_def split: option.splits)
  moreover have "ensure_not_owned_self_wait en' st' = Inr ()"
    using assms(5) by (auto simp: ensure_not_owned_self_wait_def owns_current_execution_def split: option.splits)
  ultimately show ?thesis using c assms(4,6) by (auto simp: close_def)
qed

definition idle_scope :: "unit stage" where
  "idle_scope = fresh_stage 0 0 limited_args Mode_stage None"

theorem close_final_and_repeatable_witness:
  "close (\<lambda>_. '''') outside None [] idle_scope
     ((seal idle_scope)\<lparr>st_private_executor := None, st_close_completed := True\<rparr>)
   = Some (Inr (), (seal idle_scope)\<lparr>st_private_executor := None, st_close_completed := True\<rparr>)"
proof -
  let ?c = "(seal idle_scope)\<lparr>st_private_executor := None, st_close_completed := True\<rparr>"
  note eval = idle_scope_def limited_args_def fresh_stage_def seal_def outside_def plain_caller_def close_def
    ensure_not_owned_self_wait_def ensure_not_same_caller_loop_sync_wait_def wait_settled_def
    raise_scope_errors_def has_active_work_def
  have first: "close (\<lambda>_. '''') outside None [(seal idle_scope, 0)] (seal idle_scope) idle_scope = Some (Inr (), ?c)"
    by (simp add: eval)
  have "ensure_not_same_caller_loop_sync_wait outside ?c = Inr ()" "\<not> owns_current_execution outside ?c"
    by (simp_all add: eval owns_current_execution_def)
  moreover have "\<not> st_close_completed idle_scope" "\<not> st_close_completed (seal idle_scope)" by (simp_all add: eval)
  ultimately show ?thesis using close_final_and_repeatable [OF first] by simp
qed

section \<open>Work on a caller loop\<close>

text \<open>An idle scope that a call on the running loop \<open>l\<close> binds to that loop.\<close>

definition free_on :: "loop_ref \<Rightarrow> env \<Rightarrow> 'e stage \<Rightarrow> bool" where
  "free_on l en st \<longleftrightarrow> st_active_handles st = [] \<and> st_adopted_tasks st = [] \<and> st_active_backend st = None
     \<and> st_active_loop st = None \<and> st_generation_lease st = None \<and> \<not> st_sealed st \<and> \<not> st_cancelling st
     \<and> st_backend_mode st = Mode_auto \<and> st_context_mode st \<noteq> Some Mode_sync
     \<and> cl_running_loop (en_caller en) = Some l"

lemma resolve_free:
  "free_on l en (w_stage w) \<Longrightarrow> resolve_backend en w =
     (Inr (Backend_caller, Some l), w\<lparr>w_stage := (w_stage w)\<lparr>st_blocked_generation_ids := {},
        st_active_backend := Some Backend_caller, st_active_loop := Some l\<rparr>\<rparr>)"
  by (simp add: free_on_def resolve_backend_def choose_backend_def inherited_caller_loop_for_sync_def Let_def)

text \<open>Adopting a task and its completion are a round trip: \<open>adopt\<close> records the task under its
  origin and binds the scope to the running loop, adopting it again under the same origin is a
  no-op and under another origin an error, and when the task is done the scope is back to
  having no work and no backend, with nothing asked of the carrier.\<close>

theorem adopt_round_trip:
  assumes "free_on l en (w_stage w)" "origin' \<noteq> origin"
  shows "\<exists>w1. adopt en task l origin w = (Inr (), w1)
    \<and> origin_for_adopted task w1 = Some origin \<and> adopted_count w1 = 1
    \<and> st_active_loop (w_stage w1) = Some l \<and> w_carrier w1 = w_carrier w
    \<and> adopt en task l origin w1 = (Inr (), w1)
    \<and> adopt en task l origin' w1 = (Inl StageLifecycleError, w1)
    \<and> (\<exists>observed w2. adopted_task_done en task w1 = (Inr observed, w2)
         \<and> \<not> has_active_work (w_stage w2) \<and> st_active_backend (w_stage w2) = None
         \<and> st_active_loop (w_stage w2) = None \<and> st_idle_timer (w_stage w2) = None
         \<and> w_carrier w2 = w_carrier w \<and> w_handles w2 = w_handles w)"
proof -
  have f: "st_active_handles (w_stage w) = []" "st_adopted_tasks (w_stage w) = []" "\<not> st_sealed (w_stage w)"
    "\<not> st_cancelling (w_stage w)" "st_generation_lease (w_stage w) = None"
    using assms(1) by (simp_all add: free_on_def)
  define st1 where "st1 = touch (en_now en) ((w_stage w)\<lparr>st_blocked_generation_ids := {},
    st_active_backend := Some Backend_caller, st_active_loop := Some l, st_adopted_tasks := [(task, origin)]\<rparr>)"
  have st1: "st_adopted_tasks st1 = [(task, origin)]" "st_active_handles st1 = []" "\<not> st_sealed st1"
    "st_active_loop st1 = Some l" "st_generation_lease st1 = None" "\<not> st_cancelling st1"
    by (simp_all add: st1_def f)
  have a: "adopt en task l origin w = (Inr (), w\<lparr>w_stage := st1, w_task_cancels := w_task_cancels w\<rparr>)"
    by (simp add: adopt_def f resolve_free [OF assms(1)] Let_def st1_def)
  have d: "\<exists>observed w2. adopted_task_done en task (w\<lparr>w_stage := st1\<rparr>) = (Inr observed, w2)
         \<and> \<not> has_active_work (w_stage w2) \<and> st_active_backend (w_stage w2) = None
         \<and> st_active_loop (w_stage w2) = None \<and> st_idle_timer (w_stage w2) = None
         \<and> w_carrier w2 = w_carrier w \<and> w_handles w2 = w_handles w"
    by (simp add: adopted_task_done_def st1 has_active_work_def release_backend_if_quiescent_def return_lease_def Let_def)
  show ?thesis
    using assms(2) a d st1 by (simp add: origin_for_adopted_def adopted_count_def adopt_def)
qed

definition on_loop :: env where
  "on_loop = outside\<lparr>en_caller := plain_caller\<lparr>cl_running_loop := Some 4\<rparr>, en_running := (\<lambda>_. True)\<rparr>"

definition empty_world :: "(nat, nat) world" where
  "empty_world = \<lparr>w_stage = fresh_stage 0 0 limited_args Mode_auto None, w_handles = Map.empty, w_next_handle = 0,
     w_carrier = carrier_init, w_calls = [], w_tasks = [], w_next_task = 0, w_task_cancels = [], w_cancel_calls = []\<rparr>"

lemma empty_world_free: "free_on 4 on_loop (w_stage empty_world)"
  by (simp add: free_on_def on_loop_def outside_def plain_caller_def empty_world_def fresh_stage_def)

theorem adopt_round_trip_witness:
  "\<exists>w1. adopt on_loop 7 4 ''a'' empty_world = (Inr (), w1) \<and> origin_for_adopted 7 w1 = Some ''a''"
  using adopt_round_trip [OF empty_world_free, of "''b''" "''a''" 7] by auto

text \<open>The handle of a root that has just been started without callbacks.\<close>

definition just_started :: "('v, 'e) handle \<Rightarrow> bool" where
  "just_started h \<longleftrightarrow> h_pending_work h = 1 \<and> \<not> h_settlement_done h \<and> \<not> h_body_completed h \<and> h_callbacks h = []
     \<and> h_settlement_errors h = []"

lemma caller_root_starts:
  fixes w :: "('v, 'e) world"
  assumes free: "free_on l en (w_stage w)" and out: "en_active_stage en \<noteq> Some (st_ref (w_stage w))"
    and permit: "st_pending_admissions (w_stage w) = []"
      "\<forall>m. st_max_concurrency (w_stage w) = Some m \<longrightarrow> st_active_root_count (w_stage w) < m"
    and args: "ga_on_success a = None" "ga_on_error a = None" "ga_on_finally a = None"
  shows "\<exists>st1 h1. go_scalar en None a w = (Inr (w_next_handle w),
      w\<lparr>w_stage := st1, w_handles := (w_handles w)(w_next_handle w \<mapsto> h1), w_next_handle := Suc (w_next_handle w),
        w_next_task := Suc (w_next_task w),
        w_tasks := w_tasks w @ [(w_next_task w, l, \<lparr>rj_handle = w_next_handle w, rj_runner = ga_runner a,
          rj_owner = True, rj_admission = Some Immediate_admission\<rparr>)]\<rparr>)
    \<and> just_started h1 \<and> st_active_handles st1 = [w_next_handle w] \<and> st_adopted_tasks st1 = []
    \<and> st_pending_admissions st1 = [] \<and> st_generation_lease st1 = None
    \<and> st_active_root_count st1 = st_active_root_count (w_stage w) + 1"
proof -
  let ?i = "w_next_handle w" and ?t = "w_next_task w"
  have f: "st_active_handles (w_stage w) = []" "st_adopted_tasks (w_stage w) = []" "\<not> st_sealed (w_stage w)"
    "\<not> st_cancelling (w_stage w)" "st_generation_lease (w_stage w) = None" "cl_running_loop (en_caller en) = Some l"
    using free by (simp_all add: free_on_def)
  define st0 where "st0 = (w_stage w)\<lparr>st_active_root_count := st_active_root_count (w_stage w) + 1\<rparr>"
  have admit: "admit_root en (w_stage w) = (Inr (Some Immediate_admission), st0)"
    using permit(2) out by (cases "st_max_concurrency (w_stage w)") (simp_all add: admit_root_def st0_def)
  have "free_on l en (w_stage (w\<lparr>w_stage := st0\<rparr>))" using free by (simp add: free_on_def st0_def)
  note res = resolve_free [OF this]
  define st1 where "st1 = touch (en_now en) (st0\<lparr>st_blocked_generation_ids := {},
    st_active_backend := Some Backend_caller, st_active_loop := Some l, st_active_handles := [?i]\<rparr>)"
  have st1: "st_active_handles st1 = [?i]" "st_adopted_tasks st1 = []" "\<not> st_cancelling st1" "st_pending_admissions st1 = []"
    "st_generation_lease st1 = None" "st_active_root_count st1 = st_active_root_count (w_stage w) + 1"
    by (simp_all add: st1_def st0_def f permit)
  define h1 where "h1 = (retain_work (handle_init (ga_origin a) Backend_caller) :: ('v, 'e) handle)
    \<lparr>h_owner_loop := Some l, h_owner_task := Some ?t\<rparr>"
  have locked: "go_locked en a w = (Inr (Some Immediate_admission, ?i, Backend_caller, Some l, False),
      w\<lparr>w_stage := st1, w_handles := (w_handles w)(?i \<mapsto> handle_init (ga_origin a) Backend_caller), w_next_handle := Suc ?i\<rparr>)"
    using out f by (simp add: go_locked_def admit new_handle_def res args register_initial_def put_handle_def
        Let_def st1_def) (simp add: st0_def f)
  have "go_scalar en None a w = (Inr ?i, w\<lparr>w_stage := st1, w_handles := (w_handles w)(?i \<mapsto> h1), w_next_handle := Suc ?i,
    w_next_task := Suc ?t, w_tasks := w_tasks w @ [(?t, l, \<lparr>rj_handle = ?i, rj_runner = ga_runner a,
      rj_owner = True, rj_admission = Some Immediate_admission\<rparr>)]\<rparr>)"
    by (simp add: go_scalar_def locked schedule_caller_runner_def f start_runner_def put_handle_def set_owner_task_def
        Let_def h1_def retain_work_def handle_init_def)
  moreover have "just_started h1" by (simp add: just_started_def h1_def retain_work_def handle_init_def)
  ultimately show ?thesis using st1 by blast
qed

lemma caller_root_ends:
  assumes h: "w_handles w i = Some h" "just_started h"
    and st: "st_active_handles (w_stage w) = [i]" "st_adopted_tasks (w_stage w) = []"
      "st_pending_admissions (w_stage w) = []" "st_generation_lease (w_stage w) = None"
  shows "\<exists>r w2 w3 h3. body_finished en u None drain False (Some Immediate_admission) res i w = (r, w2)
    \<and> caller_runner_ended i w2 = (Inr (), w3)
    \<and> w_handles w3 i = Some h3 \<and> h_pending_work h3 = 0 \<and> h_settlement_done h3
    \<and> h_body_future h3 = (case res of Returned v \<Rightarrow> Resolved (Some v) | Threw e \<Rightarrow> Failed e | Got_cancelled e \<Rightarrow> Was_cancelled)
    \<and> \<not> has_active_work (w_stage w3) \<and> st_active_backend (w_stage w3) = None
    \<and> st_active_root_count (w_stage w3) = st_active_root_count (w_stage w) - 1 \<and> w_carrier w3 = w_carrier w"
proof -
  obtain h1 cs where h1: "set_body_outcome False res h = (h1, False, cs)" "h_pending_work h1 = 1" "\<not> h_settlement_done h1"
    "h_settlement_errors h1 = []"
    "h_body_future h1 = (case res of Returned v \<Rightarrow> Resolved (Some v) | Threw e \<Rightarrow> Failed e | Got_cancelled e \<Rightarrow> Was_cancelled)"
    using h(2) by (cases res) (simp_all add: just_started_def set_body_outcome_def set_body_result_def set_body_exception_def
        set_body_cancelled_def finish_body_def activate_callback_drain_locked_def take_done_callbacks_locked_def)
  have nc: "\<not> h_body_completed h" using h(2) by (simp add: just_started_def)
  define st2 where "st2 = finish_admission (Some Immediate_admission) (touch (en_now en) (w_stage w))"
  have st2: "st_active_handles st2 = [i]" "st_adopted_tasks st2 = []" "st_generation_lease st2 = None"
    "st_active_root_count st2 = st_active_root_count (w_stage w) - 1"
    by (simp_all add: st2_def finish_admission_def admission_granted_def st)
  obtain r where r: "body_finished en u None drain False (Some Immediate_admission) res i w
      = (r, w\<lparr>w_handles := (w_handles w)(i \<mapsto> h1), w_stage := st2\<rparr>)"
    by (simp add: body_finished_def complete_body_def h(1) h1(1) nc put_handle_def owned_activity_def st2_def)
  have "\<exists>w3 h3. caller_runner_ended i (w\<lparr>w_handles := (w_handles w)(i \<mapsto> h1), w_stage := st2\<rparr>) = (Inr (), w3)
    \<and> w_handles w3 i = Some h3 \<and> h_pending_work h3 = 0 \<and> h_settlement_done h3 \<and> h_body_future h3 = h_body_future h1
    \<and> \<not> has_active_work (w_stage w3) \<and> st_active_backend (w_stage w3) = None
    \<and> st_active_root_count (w_stage w3) = st_active_root_count st2 \<and> w_carrier w3 = w_carrier w"
    using h1(2-4) st2
    by (simp add: caller_runner_ended_def release_handle_work_def release_work_def handle_quiescent_def put_handle_def
        take_unreported_stage_errors_def foreign_errors_def has_active_work_def release_backend_if_quiescent_def
        return_lease_def Let_def)
  with r h1(5) st2(4) show ?thesis by auto
qed



section \<open>Settlement errors and the carrier lease\<close>

lemma return_lease_stage [simp]:
  "w_stage (snd (return_lease lease w)) = w_stage w" "w_handles (snd (return_lease lease w)) = w_handles w"
  by (simp_all add: return_lease_def split: option.splits sum.splits)

lemma quiescent_stage:
  assumes "w_handles w i = Some h"
  shows "w_handles (snd (handle_quiescent i w)) i = Some (snd (take_unreported_stage_errors h))"
    "st_scope_settlement_errors (w_stage (snd (handle_quiescent i w)))
       = st_scope_settlement_errors (w_stage w) @ fst (take_unreported_stage_errors h)"
    "st_active_handles (w_stage (snd (handle_quiescent i w))) = removeAll i (st_active_handles (w_stage w))"
  using assms
  by (simp_all add: handle_quiescent_def put_handle_def release_backend_if_quiescent_def Let_def split: prod.splits)

text \<open>A scope reports each settlement error of a handle exactly once: when the handle becomes
  quiescent, the errors recorded since its last report and not its body's own are appended in
  order, and becoming quiescent again without new errors appends nothing.\<close>

theorem settlement_errors_reported_once:
  assumes "w_handles w i = Some h"
  shows "st_scope_settlement_errors (w_stage (snd (handle_quiescent i w)))
      = st_scope_settlement_errors (w_stage w)
        @ filter (\<lambda>e. h_body_error h \<noteq> Some e) (drop (h_stage_error_cursor h) (h_settlement_errors h))
    \<and> st_scope_settlement_errors (w_stage (snd (handle_quiescent i (snd (handle_quiescent i w)))))
      = st_scope_settlement_errors (w_stage (snd (handle_quiescent i w)))"
proof -
  note q = quiescent_stage [OF assms]
  show ?thesis
    using q(2) quiescent_stage(2) [OF q(1)]
    by (simp add: take_unreported_stage_errors_def foreign_errors_def)
qed

definition failed_world :: "(nat, nat) world" where
  "failed_world = empty_world\<lparr>w_handles := [0 \<mapsto> (handle_init ''go:f'' Backend_caller)\<lparr>h_settlement_errors := [8, 9],
     h_body_error := Some 9\<rparr>]\<rparr>"

theorem settlement_errors_reported_once_witness:
  "st_scope_settlement_errors (w_stage (snd (handle_quiescent 0 failed_world))) = [8]"
  using settlement_errors_reported_once [of failed_world 0
      "(handle_init ''go:f'' Backend_caller)\<lparr>h_settlement_errors := [8, 9], h_body_error := Some 9\<rparr>"]
  by (simp add: failed_world_def empty_world_def fresh_stage_def handle_init_def)

lemma release_lease_live:
  assumes "reachable carrier_start carrier_step c" "car_gens c i = Some g" "0 < gen_reservations g"
  shows "\<exists>c' g'. carrier_release_lease i c = (Inr c' :: 'e exc + carrier) \<and> car_gens c' i = Some g'
    \<and> gen_reservations g' = gen_reservations g - 1"
proof -
  have ok: "carrier_ok c" by (rule pool.reachable_inv [OF assms(1)])
  have g: "gen_ok g" "gen_id g = i" using gensD [OF ok assms(2)] by auto
  then have "gen_state g \<noteq> CLOSED" using assms(3) by (auto simp: gen_ok_def)
  with coveredD [OF ok assms(2)] obtain s where "s \<in> set (all_slots c)" "owns_generation s g"
    by (auto simp: owns_generation_def)
  then have "find (\<lambda>s. owns_generation s g) (all_slots c) \<noteq> None" by (auto simp: find_None_iff)
  then obtain s' where s': "slot_for_generation g c = (Inr s' :: 'e exc + slot)"
    by (auto simp: slot_for_generation_def)
  obtain g' where g': "release_gen g = (Inr g' :: 'e exc + generation)" "gen_reservations g' = gen_reservations g - 1"
    using reservations.release_pos [of g, OF TrueI assms(3), where 'a = 'e] by blast
  moreover have "gen_id g' = i"
    using release_gen_fields(2) [OF g'(1)] g by (simp add: gen_ok_def)
  ultimately show ?thesis
    by (simp add: carrier_release_lease_def assms(2) s' release_reservation_def)
qed

text \<open>When the last piece of work of a scope on the carrier becomes quiescent, the scope lets go
  of its backend and its lease is returned to the carrier: the call succeeds, the leased
  generation has one reservation less, and the scope holds neither lease nor backend.\<close>

theorem last_quiescent_handle_returns_lease:
  assumes "reachable carrier_start carrier_step (w_carrier w)"
    and "w_handles w i = Some h" "st_active_handles (w_stage w) = [i]" "st_adopted_tasks (w_stage w) = []"
    and "st_generation_lease (w_stage w) = Some j" "car_gens (w_carrier w) j = Some g" "0 < gen_reservations g"
  shows "\<exists>w' g'. handle_quiescent i w = (Inr (), w') \<and> \<not> has_active_work (w_stage w')
    \<and> st_generation_lease (w_stage w') = None \<and> st_active_backend (w_stage w') = None
    \<and> car_gens (w_carrier w') j = Some g' \<and> gen_reservations g' = gen_reservations g - 1"
proof -
  obtain c' g' where "carrier_release_lease j (w_carrier w) = (Inr c' :: 'b exc + carrier)"
    "car_gens c' j = Some g'" "gen_reservations g' = gen_reservations g - 1"
    using release_lease_live [OF assms(1,6,7)] by blast
  with assms(2-5) show ?thesis
    by (simp add: handle_quiescent_def has_active_work_def release_backend_if_quiescent_def return_lease_def
        put_handle_def Let_def split: prod.split)
qed

definition leased_world :: "(nat, nat) world" where
  "leased_world = empty_world\<lparr>w_carrier := leased_pool, w_handles := [0 \<mapsto> handle_init ''go:f'' Backend_stage],
     w_stage := (w_stage empty_world)\<lparr>st_active_handles := [0], st_generation_lease := Some 1,
       st_active_backend := Some Backend_stage\<rparr>\<rparr>"

theorem last_quiescent_handle_returns_lease_witness:
  "\<exists>w' g'. handle_quiescent 0 leased_world = (Inr (), w') \<and> st_generation_lease (w_stage w') = None
     \<and> car_gens (w_carrier w') 1 = Some g' \<and> gen_reservations g' = 0"
  using last_quiescent_handle_returns_lease [of leased_world 0 "handle_init ''go:f'' Backend_stage" 1
      "(new_generation 1 1)\<lparr>gen_reservations := 1\<rparr>"] leased_pool_reachable leased_pool_gen
  by (auto simp: leased_world_def empty_world_def fresh_stage_def)

end
