(* ===== verification/Stream_Props.thy ===== *)
theory Stream_Props
  imports Stream_Model Scope_Props Tunnel_Props
begin

text \<open>
  What a stream promises: the tunnel behind it replays the source completely and always ends,
  whether the source ends, fails, is stopped or cannot be closed, and the source is started once.
\<close>

section \<open>The consumers\<close>

lemma end_frame [simp]:
  "tun_items (fst (tunnel_close lc t)) = tun_items t" "tun_items (fst (tunnel_fail lc e t)) = tun_items t"
  "tun_terminal (fst (tunnel_close lc t))" "tun_terminal (fst (tunnel_fail lc e t))"
  by (auto simp: tunnel_close_def tunnel_fail_def tun_terminal_def)

lemma accept_cases:
  assumes "complete_open t"
  obtains t' where "publish_item lc x t = Inr t'" "complete_open t'" "tun_items t' = tun_items t @ [x]"
  using channel.accept_open [OF assms] by blast

text \<open>What either loop leaves: a prefix of the source, in an open tunnel or an ended one.\<close>

definition consumed :: "'a list \<Rightarrow> 'e exc option \<times> ('a, 'e) tunnel \<Rightarrow> ('a, 'e) tunnel \<Rightarrow> bool" where
  "consumed xs r t \<longleftrightarrow> (\<exists>n \<le> length xs. tun_items (snd r) = tun_items t @ take n xs)
     \<and> (if fst r = None then complete_open (snd r) else tun_terminal (snd r))"

lemma consumed_step:
  assumes "consumed xs r t'" "tun_items t' = tun_items t @ [x]"
  shows "consumed (x # xs) r t"
proof -
  from assms obtain n where "n \<le> length xs" "tun_items (snd r) = tun_items t @ take (Suc n) (x # xs)"
    by (auto simp: consumed_def)
  then have "\<exists>n \<le> length (x # xs). tun_items (snd r) = tun_items t @ take n (x # xs)"
    by (intro exI [of _ "Suc n"]) simp
  with assms(1) show ?thesis by (simp add: consumed_def)
qed

lemma consumed_none: "complete_open t \<Longrightarrow> consumed xs (None, t) t"
  by (auto simp: consumed_def)

lemma consumed_end: "tun_items t' = tun_items t \<Longrightarrow> tun_terminal t' \<Longrightarrow> consumed xs (Some e, t') t"
  by (auto simp: consumed_def)

lemma sync_loop_consumed: "complete_open t \<Longrightarrow> consumed xs (sync_loop lc stop k xs ending ce t) t"
proof (induction xs arbitrary: t k)
  case Nil
  then show ?case
    by (cases ending) (auto intro: consumed_none consumed_end)
next
  case (Cons x xs)
  obtain t' where t': "publish_item lc x t = Inr t'" "complete_open t'" "tun_items t' = tun_items t @ [x]"
    using accept_cases [OF Cons.prems] .
  with consumed_step [OF Cons.IH [OF t'(2)] t'(3)] consumed_none [OF Cons.prems] show ?case by simp
qed

lemma async_loop_consumed: "complete_open t \<Longrightarrow> consumed xs (async_loop lc stop k xs ending t) t"
proof (induction xs arbitrary: t k)
  case Nil
  then show ?case
    by (cases ending) (auto intro: consumed_none consumed_end)
next
  case (Cons x xs)
  obtain t' where t': "publish_item lc x t = Inr t'" "complete_open t'" "tun_items t' = tun_items t @ [x]"
    using accept_cases [OF Cons.prems] .
  with consumed_step [OF Cons.IH [OF t'(2)] t'(3)] consumed_none [OF Cons.prems] show ?case by simp
qed

lemma finish_consumed:
  assumes "consumed xs r t" "tun_items t = []"
  shows "\<exists>n \<le> length xs. tun_items (snd (finish_source lc close_error r)) = take n xs"
    and "tun_terminal (snd (finish_source lc close_error r))"
  using assms by (auto simp: consumed_def finish_source_def Let_def split: prod.splits option.splits)


definition stream_tunnel :: "(nat, nat) tunnel" where
  "stream_tunnel = small_tunnel\<lparr>tun_max_history := None, tun_timeout := Some 10\<rparr>"

lemma stream_tunnel_open: "complete_open stream_tunnel" "tun_items stream_tunnel = []"
  by (simp_all add: stream_tunnel_def small_tunnel_def complete_open_def tun_terminal_def)


lemma sync_loop_unstopped:
  assumes "complete_open t" "\<And>k. \<not> stop k"
  shows "\<exists>t'. complete_open t' \<and> tun_items t' = tun_items t @ xs \<and>
    sync_loop lc stop k xs ending ce t = (case ending of Exhausted \<Rightarrow> (None, t')
      | Source_raises e \<Rightarrow> (Some (Raised e), fst (tunnel_fail lc e t'))
      | Source_cancelled \<Rightarrow> (Some CancelledError, fst (tunnel_fail lc ce t')))"
  using assms(1)
proof (induction xs arbitrary: t k)
  case Nil
  with assms(2) show ?case by (intro exI [of _ t]) simp
next
  case (Cons x xs)
  obtain t1 where t1: "publish_item lc x t = Inr t1" "complete_open t1" "tun_items t1 = tun_items t @ [x]"
    using accept_cases [OF Cons.prems] .
  with Cons.IH [OF t1(2), of "Suc k"] assms(2) show ?case by simp
qed

lemma async_loop_unstopped:
  assumes "complete_open t" "\<And>k. \<not> stop k" "ending \<noteq> Source_cancelled"
  shows "async_loop lc stop k xs ending t = sync_loop lc stop k xs ending ce t"
  using assms(1)
proof (induction xs arbitrary: t k)
  case Nil
  with assms(2,3) show ?case by (cases ending) simp_all
next
  case (Cons x xs)
  obtain t1 where "publish_item lc x t = Inr t1" "complete_open t1"
    using accept_cases [OF Cons.prems] by metis
  with Cons.IH assms(2) show ?case by simp
qed

text \<open>C16. A stream that is not stopped replays its source completely: the consumer, synchronous or
  asynchronous, returns exactly the items of a source that is exhausted, and afterwards every
  \<open>get\<close> of the tunnel returns all of them; if the source raises after its items, the consumer
  raises that exception and the tunnel holds every item and raises it too.\<close>

theorem stream_replays_source:
  assumes "complete_open t" "tun_items t = []" "\<forall>k. \<not> stop k"
  shows "\<exists>closed_t failed_t.
      consume_sync_source lc stop xs Exhausted ce None t = (Inr xs, closed_t)
    \<and> consume_async_source lc stop xs Exhausted None t = (Inr xs, closed_t)
    \<and> tunnel_get a closed_t = Some (Inr xs)
    \<and> consume_sync_source lc stop xs (Source_raises e) ce None t = (Inl (Raised e), failed_t)
    \<and> consume_async_source lc stop xs (Source_raises e) None t = (Inl (Raised e), failed_t)
    \<and> tun_items failed_t = xs \<and> tunnel_get a failed_t = Some (Inl (Raised e))"
proof -
  have stop: "\<And>k. \<not> stop k" using assms(3) by blast
  obtain t' where t': "complete_open t'" "tun_items t' = xs" "sync_loop lc stop 1 xs Exhausted ce t = (None, t')"
    using sync_loop_unstopped [OF assms(1) stop, where ending = Exhausted] assms(2) by fastforce
  obtain f where f: "complete_open f" "tun_items f = xs"
    "sync_loop lc stop 1 xs (Source_raises e) ce t = (Some (Raised e), fst (tunnel_fail lc e f))"
    using sync_loop_unstopped [OF assms(1) stop, where ending = "Source_raises e"] assms(2) by fastforce
  have open_t: "\<not> tun_closed t'" "tun_failure t' = None" "\<not> tun_closed f" "tun_failure f = None"
    using t'(1) f(1) by (simp_all add: complete_open_def tun_terminal_def)
  have asy: "async_loop lc stop 1 xs Exhausted t = sync_loop lc stop 1 xs Exhausted ce t"
    "async_loop lc stop 1 xs (Source_raises e) t = sync_loop lc stop 1 xs (Source_raises e) ce t"
    by (rule async_loop_unstopped [OF assms(1) stop]; simp)+
  have get: "tunnel_get a u = (case tun_failure u of Some e \<Rightarrow> Some (Inl (Raised e))
      | None \<Rightarrow> (if tun_closed u \<or> effective_timeout u a \<noteq> None then Some (Inr (tun_items u)) else None))" for u :: "('a, 'b) tunnel"
    by (simp add: tunnel_get_def effective_timeout_def read_all_items Let_def split: option.splits timeout_arg.splits)
  have ct: "tun_closed (fst (tunnel_close lc t'))" "tun_failure (fst (tunnel_close lc t')) = None"
    "tun_failure (fst (tunnel_fail lc e f)) = Some e"
    using open_t by (simp_all add: tunnel_close_def tunnel_fail_def)
  show ?thesis
    using stop t' f ct asy
    by (simp add: consume_sync_source_def consume_async_source_def finish_source_def Let_def
        retained_items_reference_def get)
qed

theorem stream_replays_source_witness:
  "\<exists>u. consume_sync_source (\<lambda>_. False) (\<lambda>_. False) [1, 2, 3] Exhausted 0 None stream_tunnel = (Inr [1, 2, 3], u)"
  using stream_replays_source [OF stream_tunnel_open, of "\<lambda>_. False" "\<lambda>_. False" "[1, 2, 3]" 0] by blast

section \<open>Starting\<close>

text \<open>A stream starts its source once: after a successful start, every further use returns the same
  handle and leaves the world alone, callbacks registered before the start have all been handed
  to that handle, and closing again neither restarts nor cancels again.\<close>

theorem stream_starts_once:
  assumes "ensure_started en drain a ss w = (Inr i, ss1, w1)"
  shows "ensure_started en' drain a ss1 w' = (Inr i, ss1, w') \<and> ss_handle ss1 = Some i
    \<and> (ss_handle ss = None \<longrightarrow> ss_pending_callbacks ss1 = [])
    \<and> (ss_closed ss1 \<longrightarrow> stream_close en' drain a ss1 w' = (Inr i, ss1, w'))"
proof -
  have h: "ss_handle ss1 = Some i" "ss_handle ss = None \<longrightarrow> ss_pending_callbacks ss1 = []"
    using assms by (auto simp: ensure_started_def split: option.splits prod.splits sum.splits)
  then show ?thesis by (simp add: ensure_started_def stream_close_def Let_def)
qed

theorem stream_starts_once_witness:
  "ensure_started on_loop 0 \<lparr>ga_origin = ''go:gen'', ga_runner = 1, ga_context = 0, ga_on_success = None,
     ga_on_error = None, ga_on_finally = None\<rparr> (stream_init\<lparr>ss_handle := Some 3\<rparr>) empty_world
   = (Inr 3, stream_init\<lparr>ss_handle := Some 3\<rparr>, empty_world)"
  using stream_starts_once [of on_loop 0 _ "stream_init\<lparr>ss_handle := Some 3\<rparr>" empty_world 3
      "stream_init\<lparr>ss_handle := Some 3\<rparr>" empty_world on_loop empty_world]
  by (simp add: ensure_started_def)

end
