(* ===== verification/Go_Model.thy ===== *)
theory Go_Model
  imports Stream_Model
begin

text \<open>
  \<open>Stage.go\<close> as its clients see it: the dispatch on the class of the task, and the contract
  the compatibility layers (emitter, cached functions) rely on, that every accepted submission
  has a handle of its own.
\<close>

section \<open>Dispatch\<close>

text \<open>\<open>_task_origin\<close> from the names of the (unwrapped) function and of its type; an empty name is falsy.\<close>

definition truthy_name :: "string option \<Rightarrow> bool" where
  "truthy_name n \<longleftrightarrow> n \<noteq> None \<and> n \<noteq> Some []"

definition task_origin :: "string option \<Rightarrow> string option \<Rightarrow> string \<Rightarrow> string" where
  "task_origin qualname name type_name =
     (let n = (if truthy_name qualname then qualname else name)
      in ''go:'' @ (if truthy_name n then the n else type_name))"

datatype response = Handle_response nat | Stream_response stage_stream

text \<open>
  \<open>_go_stream\<close>: the start function submits the consumer of the source, whose names are those of
  the two local functions. The success callback that copies the list is registered under the
  reference of the callback it wraps.
\<close>

definition consumer_origin :: "task_class \<Rightarrow> string" where
  "consumer_origin k =
     (if k = Async_gen_func \<or> k = Async_gen
      then task_origin (Some ''Stage._go_stream.<locals>.consume_async_source'') None ''function''
      else task_origin (Some ''Stage._go_stream.<locals>.consume_sync_source'') None ''function'')"

definition go_stream ::
  "env \<Rightarrow> callable_ref \<Rightarrow> bool \<Rightarrow> task_class \<Rightarrow> go_args \<Rightarrow> ('v, 'e) world
   \<Rightarrow> ('e exc + stage_stream) \<times> ('v, 'e) world" where
  "go_stream en drain lazy k a w =
     (if lazy then (Inr stream_init, w)
      else case ensure_started en drain (a\<lparr>ga_origin := consumer_origin k\<rparr>) stream_init w of
             (Inl e, _, w1) \<Rightarrow> (Inl e, w1)
           | (Inr i, ss, w1) \<Rightarrow> (Inr ss, w1))"

text \<open>
  \<open>go\<close>. \<open>args\<close> gives the arguments of the call for a task; \<open>call\<close> is \<open>StageFunction.__call__\<close>, which
  a submitted \<open>StageFunction\<close> receives instead.
\<close>

definition stage_go ::
  "env \<Rightarrow> callable_ref \<Rightarrow> nat \<Rightarrow> (nat \<Rightarrow> py_object)
   \<Rightarrow> (nat \<Rightarrow> ('v, 'e) world \<Rightarrow> ('e exc + response) \<times> ('v, 'e) world)
   \<Rightarrow> bool \<Rightarrow> (nat \<Rightarrow> go_args) \<Rightarrow> nat \<Rightarrow> ('v, 'e) world \<Rightarrow> ('e exc + response) \<times> ('v, 'e) world" where
  "stage_go en drain depth heap call lazy args task w =
     (case go_route depth heap task of
        Route_raise e \<Rightarrow> (Inl e, w)
      | Route_stage_function \<Rightarrow> call task w
      | Route_stream k \<Rightarrow>
          (case go_stream en drain lazy k (args task) w of
             (Inl e, w1) \<Rightarrow> (Inl e, w1) | (Inr ss, w1) \<Rightarrow> (Inr (Stream_response ss), w1))
      | Route_scalar \<Rightarrow>
          (case go_scalar en None (args task) w of
             (Inl e, w1) \<Rightarrow> (Inl e, w1) | (Inr i, w1) \<Rightarrow> (Inr (Handle_response i), w1)))"

fun response_handle :: "response \<Rightarrow> nat option" where
  "response_handle (Handle_response i) = Some i"
| "response_handle (Stream_response ss) = ss_handle ss"

section \<open>Submitting a list of tasks\<close>

text \<open>The list comprehension of \<open>EventEmitter.emit\<close>: the first submission that raises ends it.\<close>

fun submit_all :: "('t \<Rightarrow> 'w \<Rightarrow> ('x + 'h) \<times> 'w) \<Rightarrow> 't list \<Rightarrow> 'w \<Rightarrow> ('x + 'h list) \<times> 'w" where
  "submit_all go [] w = (Inr [], w)"
| "submit_all go (t # ts) w =
     (case go t w of
        (Inl e, w1) \<Rightarrow> (Inl e, w1)
      | (Inr h, w1) \<Rightarrow>
          (case submit_all go ts w1 of
             (Inl e, w2) \<Rightarrow> (Inl e, w2) | (Inr hs, w2) \<Rightarrow> (Inr (h # hs), w2)))"

lemma submit_all_length: "submit_all go ts w = (Inr hs, w') \<Longrightarrow> length hs = length ts"
  by (induction ts arbitrary: w hs w') (auto split: prod.splits sum.splits)

lemma submit_all_append:
  "submit_all go (ts @ us) w =
     (case submit_all go ts w of
        (Inl e, w1) \<Rightarrow> (Inl e, w1)
      | (Inr hs, w1) \<Rightarrow>
          (case submit_all go us w1 of (Inl e, w2) \<Rightarrow> (Inl e, w2) | (Inr hs', w2) \<Rightarrow> (Inr (hs @ hs'), w2)))"
  by (induction ts arbitrary: w) (auto split: prod.splits sum.splits)

locale fresh_submission =
  fixes go :: "'t \<Rightarrow> 'w \<Rightarrow> ('x + 'h) \<times> 'w"
    and key :: "'h \<Rightarrow> nat"
    and bound :: "'w \<Rightarrow> nat"
    and fresh_task :: "'t \<Rightarrow> bool"
  assumes go_fresh: "fresh_task t \<Longrightarrow> go t w = (Inr h, w') \<Longrightarrow> bound w \<le> key h \<and> key h < bound w'"
    and go_mono: "fresh_task t \<Longrightarrow> go t w = (r, w') \<Longrightarrow> bound w \<le> bound w'"
begin

lemma submit_all_mono: "list_all fresh_task ts \<Longrightarrow> submit_all go ts w = (r, w') \<Longrightarrow> bound w \<le> bound w'"
proof (induction ts arbitrary: w r w')
  case (Cons t ts)
  obtain r1 w1 where g: "go t w = (r1, w1)" by fastforce
  with Cons.prems(1) have le: "bound w \<le> bound w1" using go_mono by auto
  show ?case
  proof (cases r1)
    case (Inl e)
    with g Cons.prems(2) le show ?thesis by simp
  next
    case (Inr h)
    obtain r2 w2 where s: "submit_all go ts w1 = (r2, w2)" by fastforce
    with Cons.prems(1) Cons.IH have "bound w1 \<le> bound w2" by simp
    moreover have "w' = w2" using g Inr s Cons.prems(2) by (auto split: sum.splits)
    ultimately show ?thesis using le by simp
  qed
qed simp

lemma submit_all_fresh:
  "list_all fresh_task ts \<Longrightarrow> submit_all go ts w = (Inr hs, w') \<Longrightarrow>
   sorted_wrt (<) (map key hs) \<and> (\<forall>h\<in>set hs. bound w \<le> key h \<and> key h < bound w')"
proof (induction ts arbitrary: w hs w')
  case (Cons t ts)
  obtain h w1 hs' where g: "go t w = (Inr h, w1)" and s: "submit_all go ts w1 = (Inr hs', w')"
    and hs: "hs = h # hs'"
    using Cons.prems(2) by (auto split: prod.splits sum.splits)
  have f: "fresh_task t" "list_all fresh_task ts" using Cons.prems(1) by simp_all
  from Cons.IH [OF f(2) s] have ih: "sorted_wrt (<) (map key hs')"
    "\<forall>x\<in>set hs'. bound w1 \<le> key x \<and> key x < bound w'" by simp_all
  from go_fresh [OF f(1) g] have k: "bound w \<le> key h" "key h < bound w1" by simp_all
  from submit_all_mono [OF f(2) s] have "bound w1 \<le> bound w'" .
  with ih k hs show ?case by (auto simp: less_le_trans order_trans)
qed simp

end

section \<open>Handles of one scope are allocated in order\<close>

lemma next_handle_put_handle [simp]: "w_next_handle (put_handle i h w) = w_next_handle w"
  by (simp add: put_handle_def)

lemma next_handle_return_lease [simp]: "w_next_handle (snd (return_lease l w)) = w_next_handle w"
  by (simp add: return_lease_def split: option.splits sum.splits)

lemma next_handle_handle_quiescent [simp]: "w_next_handle (snd (handle_quiescent i w)) = w_next_handle w"
  by (auto simp: handle_quiescent_def Let_def split: option.splits prod.splits if_splits)

lemma next_handle_release_handle_work [simp]: "w_next_handle (snd (release_handle_work i w)) = w_next_handle w"
  by (auto simp: release_handle_work_def split: option.splits prod.splits sum.splits)

lemma next_handle_handle_quiescent_eq: "handle_quiescent i w = (r, w') \<Longrightarrow> w_next_handle w' = w_next_handle w"
  using next_handle_handle_quiescent [of i w] by simp

lemma next_handle_release_handle_work_eq:
  "release_handle_work i w = (r, w') \<Longrightarrow> w_next_handle w' = w_next_handle w"
  using next_handle_release_handle_work [of i w] by simp

lemma next_handle_complete_body [simp]: "w_next_handle (snd (complete_body en i f w)) = w_next_handle w"
  by (simp add: complete_body_def split: option.splits prod.splits)

lemma next_handle_start_runner [simp]: "w_next_handle (snd (start_runner en failure l job w)) = w_next_handle w"
  by (simp add: start_runner_def Let_def split: option.splits prod.splits)

lemma next_handle_schedule_caller_runner [simp]:
  "w_next_handle (snd (schedule_caller_runner en failure l job w)) = w_next_handle w"
  by (auto simp: schedule_caller_runner_def Let_def split: option.splits prod.splits sum.splits
      dest: next_handle_release_handle_work_eq)

lemma next_handle_submit_handle [simp]: "w_next_handle (snd (submit_handle en sm p w)) = w_next_handle w"
  by (auto simp: submit_handle_def Let_def split: option.splits prod.splits sum.splits if_splits
      dest: next_handle_handle_quiescent_eq)

lemma next_handle_resolve_backend [simp]: "w_next_handle (snd (resolve_backend en w)) = w_next_handle w"
  by (auto simp: resolve_backend_def Let_def split: option.splits sum.splits prod.splits backend_kind.splits)

lemma next_handle_resolve_backend_eq: "resolve_backend en w = (r, w') \<Longrightarrow> w_next_handle w' = w_next_handle w"
  using next_handle_resolve_backend [of en w] by simp

lemma next_handle_cancel_handle: "cancel_handle lc i w = (r, w') \<Longrightarrow> w_next_handle w' = w_next_handle w"
  by (auto simp: cancel_handle_def split: option.splits prod.splits if_splits)

lemma next_handle_register_initial [simp]: "w_next_handle (register_initial k f c i w) = w_next_handle w"
  by (simp add: register_initial_def split: option.splits)

lemma new_handle_next:
  "new_handle en origin allow w = (Inr (i, b, l), w') \<Longrightarrow> i = w_next_handle w \<and> w_next_handle w' = Suc i"
  "new_handle en origin allow w = (Inl e, w') \<Longrightarrow> w_next_handle w' = w_next_handle w"
  by (auto simp: new_handle_def Let_def split: if_splits prod.splits sum.splits
      dest: next_handle_resolve_backend_eq)

lemma go_locked_next:
  "go_locked en a w = (Inr (ad, i, b, l, c), w') \<Longrightarrow> i = w_next_handle w \<and> w_next_handle w' = Suc i"
  "go_locked en a w = (Inl e, w') \<Longrightarrow> w_next_handle w' = w_next_handle w"
  by (auto simp: go_locked_def Let_def split: if_splits prod.splits sum.splits dest!: new_handle_next)

lemma go_scalar_sent:
  "w_next_handle (snd (case b of
      Backend_stage \<Rightarrow> submit_handle en sm lease w
    | Backend_caller \<Rightarrow>
        (case l of None \<Rightarrow> (Inl StageLifecycleError, w)
         | Some k \<Rightarrow> schedule_caller_runner en failure k job w))) = w_next_handle w"
  by (simp split: backend_kind.splits option.splits)

lemma go_scalar_next:
  "go_scalar en failure a w = (Inr i, w') \<Longrightarrow> i = w_next_handle w \<and> w_next_handle w' = Suc i"
  "go_scalar en failure a w = (r, w') \<Longrightarrow> w_next_handle w \<le> w_next_handle w'"
proof -
  have *: "(\<forall>i. r = Inr i \<longrightarrow> i = w_next_handle w \<and> w_next_handle w' = Suc i) \<and> w_next_handle w \<le> w_next_handle w'"
    if g: "go_scalar en failure a w = (r, w')" for r w'
  proof (cases "go_locked en a w")
    case (Pair q w1)
    show ?thesis
    proof (cases q)
      case (Inl e)
      with Pair g go_locked_next(2) [of en a w e w1] show ?thesis by (auto simp: go_scalar_def)
    next
      case (Inr p)
      obtain ad j b l c where p: "p = (ad, j, b, l, c)" by (cases p)
      define sent where "sent = (case b of
          Backend_stage \<Rightarrow>
            submit_handle en \<lparr>sm_handle = j, sm_runner = ga_runner a, sm_owner = True,
              sm_context = ga_context a, sm_phase = Phase_body,
              sm_blocked = st_blocked_generation_ids (w_stage w1)\<rparr> (st_generation_lease (w_stage w1)) w1
        | Backend_caller \<Rightarrow>
            (case l of None \<Rightarrow> (Inl StageLifecycleError, w1)
             | Some k \<Rightarrow> schedule_caller_runner en failure k
                 \<lparr>rj_handle = j, rj_runner = ga_runner a, rj_owner = True, rj_admission = ad\<rparr> w1))"
      have n: "w_next_handle (snd sent) = w_next_handle w1" unfolding sent_def by (rule go_scalar_sent)
      from Pair Inr p go_locked_next(1) have j: "j = w_next_handle w" "w_next_handle w1 = Suc j" by blast+
      have "go_scalar en failure a w = (case sent of
          (Inl e, w2) \<Rightarrow> (if b = Backend_caller \<and> l = None then (Inl e, w2)
             else (Inl e, w2\<lparr>w_stage := finish_admission ad (w_stage w2)\<rparr>))
        | (Inr _, w2) \<Rightarrow> (if \<not> c then (Inr j, w2)
             else case cancel_handle (en_closed en) j w2 of (Inl e, w3) \<Rightarrow> (Inl e, w3) | (Inr _, w3) \<Rightarrow> (Inr j, w3)))"
        unfolding go_scalar_def Pair Inr p sent_def by (simp add: Let_def)
      with g n j show ?thesis
        by (auto split: prod.splits sum.splits if_splits dest: next_handle_cancel_handle)
    qed
  qed
  show "go_scalar en failure a w = (Inr i, w') \<Longrightarrow> i = w_next_handle w \<and> w_next_handle w' = Suc i"
    using * by blast
  show "go_scalar en failure a w = (r, w') \<Longrightarrow> w_next_handle w \<le> w_next_handle w'"
    using * by blast
qed

lemma ensure_started_init:
  "ensure_started en drain a stream_init w =
     (case go_scalar en None a w of
        (Inl e, w1) \<Rightarrow> (Inl e, stream_init, w1) | (Inr i, w1) \<Rightarrow> (Inr i, stream_init\<lparr>ss_handle := Some i\<rparr>, w1))"
  by (simp add: ensure_started_def stream_init_def split: prod.splits sum.splits)

interpretation scalar_submissions: fresh_submission "go_scalar en None" id w_next_handle "\<lambda>_. True"
  by unfold_locales (auto dest: go_scalar_next)

interpretation submissions: fresh_submission
  "stage_go en drain depth heap call False args :: nat \<Rightarrow> ('v, 'e) world \<Rightarrow> ('e exc + response) \<times> ('v, 'e) world"
  "\<lambda>r. the (response_handle r)" w_next_handle "\<lambda>t. go_route depth heap t \<noteq> (Route_stage_function :: 'e go_route)"
proof
  fix t h and w w' :: "('v, 'e) world" and r :: "'e exc + response"
  assume t: "go_route depth heap t \<noteq> (Route_stage_function :: 'e go_route)"
  show "w_next_handle w \<le> w_next_handle w'"
    if "stage_go en drain depth heap call False args t w = (r, w')"
    using that t
    by (auto simp: stage_go_def go_stream_def ensure_started_init
        split: go_route.splits prod.splits sum.splits dest: go_scalar_next)
  show "w_next_handle w \<le> the (response_handle h) \<and> the (response_handle h) < w_next_handle w'"
    if "stage_go en drain depth heap call False args t w = (Inr h, w')"
    using that t
    by (auto simp: stage_go_def go_stream_def ensure_started_init
        split: go_route.splits prod.splits sum.splits dest!: go_scalar_next(1))
qed

end
