(* ===== verification/Scope_Calls.thy ===== *)
theory Scope_Calls
  imports Go_Model Scope_Props "HOL-Library.Sublist"
begin

text \<open>
  The call-shaped surface of \<open>Stage.py\<close>: the asynchronous forms of the waits, leaving a scope with
  \<open>with\<close> and \<open>async with\<close>, \<open>as_sync\<close> and \<open>as_async\<close>, and how the body and the callbacks of a root
  are executed.
\<close>

section \<open>Asynchronous waits\<close>

text \<open>\<open>asyncio.to_thread\<close>: the context variables are copied, the worker has no running loop and no task.\<close>

definition to_thread :: "env \<Rightarrow> env" where
  "to_thread en = en\<lparr>en_caller := (en_caller en)\<lparr>cl_running_loop := None\<rparr>, en_current_task := None\<rparr>"

definition async_wait_settled ::
  "(nat \<Rightarrow> string) \<Rightarrow> env \<Rightarrow> clock option \<Rightarrow> ('e stage \<times> clock) list \<Rightarrow> 'e stage \<Rightarrow> 'e stage
   \<Rightarrow> ('e exc + unit) option" where
  "async_wait_settled origin en timeout obs final st =
     (case ensure_not_owned_self_wait en st of
        Inl e \<Rightarrow> Some (Inl e) | Inr _ \<Rightarrow> wait_settled origin (to_thread en) timeout obs final st)"

definition async_cancel_and_wait_settled ::
  "env \<Rightarrow> (task_ref \<Rightarrow> bool) \<Rightarrow> ('e exc + unit) \<Rightarrow> ('v, 'e) world \<Rightarrow> ('e exc + bool) \<times> ('v, 'e) world" where
  "async_cancel_and_wait_settled en task_done waited w =
     (case ensure_not_owned_self_wait en (w_stage w) of
        Inl e \<Rightarrow> (Inl e, w) | Inr _ \<Rightarrow> cancel_and_wait_settled (to_thread en) task_done waited w)"

definition async_close ::
  "(nat \<Rightarrow> string) \<Rightarrow> env \<Rightarrow> clock option \<Rightarrow> ('e stage \<times> clock) list \<Rightarrow> 'e stage \<Rightarrow> 'e stage
   \<Rightarrow> (('e exc + unit) \<times> 'e stage) option" where
  "async_close origin en timeout obs final st =
     (case ensure_not_owned_self_wait en st of
        Inl e \<Rightarrow> Some (Inl e, st) | Inr _ \<Rightarrow> close origin (to_thread en) timeout obs final st)"

section \<open>Leaving a scope\<close>

text \<open>
  What \<open>__exit__\<close> and \<open>__aexit__\<close> do besides changing the scope: the exception they raise, the one
  they attach to the body's exception as \<open>__context__\<close>, and whether a close is deferred to a worker.
\<close>

record 'e exit_result =
  xr_raised :: "'e exc option"
  xr_context :: "'e exc option"
  xr_deferred :: bool

definition attach_cleanup_error :: "env \<Rightarrow> 'e exc \<Rightarrow> 'e exit_result" where
  "attach_cleanup_error en e = \<lparr>xr_raised = None, xr_context = Some e,
     xr_deferred = (e = StageLifecycleError \<and> cl_running_loop (en_caller en) \<noteq> None)\<rparr>"

definition scope_exit ::
  "(nat \<Rightarrow> string) \<Rightarrow> env \<Rightarrow> ('e stage \<times> clock) list \<Rightarrow> 'e stage \<Rightarrow> 'e exc option \<Rightarrow> 'e stage
   \<Rightarrow> ('e exit_result \<times> 'e stage) option" where
  "scope_exit origin en obs final value st =
     (case close origin en None obs final (seal st) of
        None \<Rightarrow> None
      | Some (Inr _, st1) \<Rightarrow> Some (\<lparr>xr_raised = None, xr_context = None, xr_deferred = False\<rparr>, st1)
      | Some (Inl e, st1) \<Rightarrow>
          (case value of
             None \<Rightarrow> Some (\<lparr>xr_raised = Some e, xr_context = None, xr_deferred = False\<rparr>, st1)
           | Some _ \<Rightarrow> Some (attach_cleanup_error en e, st1)))"

definition async_scope_exit ::
  "(nat \<Rightarrow> string) \<Rightarrow> env \<Rightarrow> ('e stage \<times> clock) list \<Rightarrow> 'e stage \<Rightarrow> 'e exc option \<Rightarrow> 'e stage
   \<Rightarrow> ('e exit_result \<times> 'e stage) option" where
  "async_scope_exit origin en obs final value st =
     (case async_close origin en None obs final (seal st) of
        None \<Rightarrow> None
      | Some (Inr _, st1) \<Rightarrow> Some (\<lparr>xr_raised = None, xr_context = None, xr_deferred = False\<rparr>, st1)
      | Some (Inl e, st1) \<Rightarrow>
          (case value of
             None \<Rightarrow> Some (\<lparr>xr_raised = Some e, xr_context = None, xr_deferred = False\<rparr>, st1)
           | Some _ \<Rightarrow> Some (\<lparr>xr_raised = None, xr_context = Some e, xr_deferred = False\<rparr>, st1)))"

text \<open>The callback of a deferred close: what that close raises replaces the attached exception.\<close>

definition observe_deferred_close :: "'e exc + unit \<Rightarrow> 'e exit_result \<Rightarrow> 'e exit_result" where
  "observe_deferred_close outcome x =
     (case outcome of Inr _ \<Rightarrow> x | Inl deferred_error \<Rightarrow> x\<lparr>xr_context := Some deferred_error\<rparr>)"

text \<open>The value of a \<open>with\<close> statement whose body gives \<open>r\<close>: the exit returns \<open>None\<close>, so a body
  exception goes on, and an exception the exit raises replaces a body value.\<close>

definition with_result :: "'e exit_result \<Rightarrow> 'e exc + 'v \<Rightarrow> 'e exc + 'v" where
  "with_result x r = (case xr_raised x of Some e \<Rightarrow> Inl e | None \<Rightarrow> r)"

section \<open>\<open>as_sync\<close> and \<open>as_async\<close>\<close>

text \<open>The checks made when the wrapper is built.\<close>

definition check_scalar_callable :: "bool \<Rightarrow> py_object \<Rightarrow> 'e exc + unit" where
  "check_scalar_callable is_callable p =
     (if \<not> is_callable then Inl TypeError
      else if po_asyncgenfunction p \<or> po_generatorfunction p then Inl TypeError else Inr ())"

text \<open>
  The body of the wrapper inside its scope: \<open>got i\<close> is what \<open>get\<close> (or \<open>async_get\<close>) of handle \<open>i\<close>
  returns or raises and \<open>on_close\<close> what closing an unexpected stream does.
\<close>

definition scalar_body ::
  "(nat \<Rightarrow> 'e exc + 'v) \<Rightarrow> (stage_stream \<Rightarrow> 'e exc + unit) \<Rightarrow> 'e exc + response \<Rightarrow> 'e exc + 'v" where
  "scalar_body got on_close response =
     (case response of
        Inl e \<Rightarrow> Inl e
      | Inr (Stream_response ss) \<Rightarrow> (case on_close ss of Inl e \<Rightarrow> Inl e | Inr _ \<Rightarrow> Inl TypeError)
      | Inr (Handle_response i) \<Rightarrow> got i)"

definition exc_of :: "'e exc + 'v \<Rightarrow> 'e exc option" where
  "exc_of r = (case r of Inl e \<Rightarrow> Some e | Inr _ \<Rightarrow> None)"

definition as_sync_call ::
  "(nat \<Rightarrow> string) \<Rightarrow> env \<Rightarrow> ('e stage \<times> clock) list \<Rightarrow> 'e stage \<Rightarrow> (nat \<Rightarrow> 'e exc + 'v)
   \<Rightarrow> (stage_stream \<Rightarrow> 'e exc + unit) \<Rightarrow> 'e exc + response \<Rightarrow> 'e stage \<Rightarrow> (('e exc + 'v) \<times> 'e stage) option" where
  "as_sync_call origin en obs final got on_close response st =
     (let r = scalar_body got on_close response in
      map_option (\<lambda>(x, st1). (with_result x r, st1)) (scope_exit origin en obs final (exc_of r) st))"

definition as_async_call ::
  "(nat \<Rightarrow> string) \<Rightarrow> env \<Rightarrow> ('e stage \<times> clock) list \<Rightarrow> 'e stage \<Rightarrow> (nat \<Rightarrow> 'e exc + 'v)
   \<Rightarrow> (stage_stream \<Rightarrow> 'e exc + unit) \<Rightarrow> 'e exc + response \<Rightarrow> 'e stage \<Rightarrow> (('e exc + 'v) \<times> 'e stage) option" where
  "as_async_call origin en obs final got on_close response st =
     (let r = scalar_body got on_close response in
      map_option (\<lambda>(x, st1). (with_result x r, st1)) (async_scope_exit origin en obs final (exc_of r) st))"

section \<open>\<open>get\<close>\<close>

text \<open>\<open>Stage.get\<close>: submit, then \<open>get\<close> of the handle or of the stream; \<open>final\<close> is the body future of the
  response when the wait ends.\<close>

definition stage_get ::
  "('e \<Rightarrow> bool) \<Rightarrow> env \<Rightarrow> callable_ref \<Rightarrow> nat \<Rightarrow> (nat \<Rightarrow> py_object)
   \<Rightarrow> (nat \<Rightarrow> ('v, 'e) world \<Rightarrow> ('e exc + response) \<times> ('v, 'e) world) \<Rightarrow> (nat \<Rightarrow> go_args)
   \<Rightarrow> ('v, 'e) body_future \<Rightarrow> nat \<Rightarrow> ('v, 'e) world \<Rightarrow> ('e exc + 'v option) \<times> ('v, 'e) world" where
  "stage_get is_timeout en drain depth heap call args final task w =
     (case stage_go en drain depth heap call False args task w of
        (Inl e, w1) \<Rightarrow> (Inl e, w1)
      | (Inr (Handle_response i), w1) \<Rightarrow>
          (case w_handles w1 i of
             None \<Rightarrow> (Inl StageLifecycleError, w1)
           | Some h \<Rightarrow> (handle_get is_timeout (cl_running_loop (en_caller en)) final h, w1))
      | (Inr (Stream_response ss), w1) \<Rightarrow>
          (case stream_get is_timeout en drain (args task) final ss w1 of (r, _, w2) \<Rightarrow> (r, w2)))"

section \<open>Executing a body\<close>

text \<open>
  \<open>_await_with_loop_affinity_guidance\<close>: \<open>runtime_message e\<close> is the lower-case message of an
  exception that is a \<open>RuntimeError\<close>.
\<close>

definition affinity_guidance ::
  "('e \<Rightarrow> string option) \<Rightarrow> backend_kind option \<Rightarrow> 'e exc + 'v \<Rightarrow> 'e exc + 'v" where
  "affinity_guidance runtime_message backend r =
     (case r of
        Inl (Raised e) \<Rightarrow>
          (case runtime_message e of
             None \<Rightarrow> r
           | Some m \<Rightarrow>
               (if backend = Some Backend_stage
                   \<and> (sublist ''attached to a different loop'' m \<or> sublist ''bound to a different event loop'' m)
                then Inl StageLifecycleError else r))
      | _ \<Rightarrow> r)"

text \<open>
  \<open>_execute_scalar\<close>: \<open>awaited\<close> is the outcome of awaiting the future, coroutine or call, \<open>blocking\<close> the
  outcome of running the function in the executor, \<open>cancelled\<close> that the wait for it was cancelled
  (the code then waits for the worker to finish and raises the cancellation again, unless the
  worker itself raised); a function may return an awaitable, whose outcome is then awaited.
\<close>

datatype ('v, 'e) blocking_result = Plain 'v | Returned_awaitable "'e exc + 'v"

datatype execution_plan = Await_future | Await_object | Await_call | Run_blocking | Refuse_arguments

definition execution_plan_for :: "py_object \<Rightarrow> bool \<Rightarrow> bool \<Rightarrow> execution_plan" where
  "execution_plan_for p is_awaitable has_args =
     (if po_future p then Await_future
      else if is_awaitable then (if has_args then Refuse_arguments else Await_object)
      else if po_coroutinefunction p then Await_call
      else Run_blocking)"

definition execute_scalar ::
  "('e \<Rightarrow> string option) \<Rightarrow> backend_kind option \<Rightarrow> py_object \<Rightarrow> bool \<Rightarrow> bool \<Rightarrow> 'e exc + 'v
   \<Rightarrow> bool \<Rightarrow> 'e exc + ('v, 'e) blocking_result \<Rightarrow> 'e exc + 'v" where
  "execute_scalar runtime_message backend p is_awaitable has_args awaited cancelled blocking =
     (case execution_plan_for p is_awaitable has_args of
        Refuse_arguments \<Rightarrow> Inl TypeError
      | Run_blocking \<Rightarrow>
          (case blocking of
             Inl e \<Rightarrow> Inl e
           | Inr b \<Rightarrow>
               (if cancelled then Inl CancelledError
                else case b of
                       Plain v \<Rightarrow> Inr v
                     | Returned_awaitable r \<Rightarrow> affinity_guidance runtime_message backend r))
      | _ \<Rightarrow> affinity_guidance runtime_message backend awaited)"

text \<open>\<open>_execute_callback\<close>: the error that leaves it, and the lineage its callback runs under.\<close>

definition execute_callback ::
  "py_object \<Rightarrow> execution_context option \<Rightarrow> execution_context option \<Rightarrow> 'e exc + 'v
   \<Rightarrow> 'e exc + ('v, 'e) blocking_result \<Rightarrow> 'e exc option \<times> execution_context option" where
  "execute_callback p ctx active awaited blocking =
     (if po_coroutinefunction p then exc_of awaited
      else case blocking of
             Inl e \<Rightarrow> Some e
           | Inr (Plain v) \<Rightarrow> None
           | Inr (Returned_awaitable r) \<Rightarrow> exc_of r,
      bind_current_execution ctx active)"

section \<open>Properties\<close>

lemma thread_never_refused: "ensure_not_same_caller_loop_sync_wait (to_thread en) st = Inr ()"
  by (simp add: ensure_not_same_caller_loop_sync_wait_def to_thread_def)

lemma thread_ownership:
  "ensure_not_owned_self_wait en st = Inr () \<Longrightarrow> ensure_not_owned_self_wait (to_thread en) st = Inr ()"
  by (auto simp: ensure_not_owned_self_wait_def to_thread_def split: if_splits)

text \<open>The asynchronous waits work where the synchronous ones are refused: they raise for work the scope
  owns and for nothing else, and otherwise wait in a worker thread with the same outcome, also on the
  scope's own caller loop while it has work.\<close>

theorem async_waits_only_refuse_owned_work:
  "async_wait_settled origin en timeout obs final st =
     (if owns_current_execution en st then Some (Inl StageLifecycleError)
      else case wait_loop origin (map_option (\<lambda>d. en_now en + d) timeout) obs of
             None \<Rightarrow> None | Some (Inl e) \<Rightarrow> Some (Inl e) | Some (Inr _) \<Rightarrow> Some (raise_scope_errors final))
   \<and> async_close origin en timeout obs final st =
     (if owns_current_execution en st then Some (Inl StageLifecycleError, st)
      else close origin (to_thread en) timeout obs final st)"
proof -
  have o: "ensure_not_owned_self_wait en st = (if owns_current_execution en st then Inl StageLifecycleError else Inr ())"
    by (auto simp: ensure_not_owned_self_wait_def owns_current_execution_def split: option.splits)
  show ?thesis
  proof (cases "owns_current_execution en st")
    case True
    with o show ?thesis by (simp add: async_wait_settled_def async_close_def)
  next
    case False
    with o have "ensure_not_owned_self_wait en st = Inr ()" by simp
    with thread_ownership [OF this] False show ?thesis
      by (simp add: async_wait_settled_def async_close_def wait_settled_def thread_never_refused)
         (simp add: to_thread_def)
  qed
qed

lemma close_seals:
  assumes "close origin en timeout obs final st = Some (r, st1)" "st_sealed st" "st_sealed final"
  shows "st_sealed st1"
  using assms by (auto simp: close_def Let_def split: sum.splits if_splits option.splits exc.splits)

text \<open>C22. A cleanup never hides the error of the body: leaving a scope with \<open>with\<close> seals it on every path;
  when the body raised, the statement raises that same exception whatever closing does, a failed
  close is attached to it, and a close that the running loop forbids is handed to a worker; when
  the body gave a value, the statement gives it only if the scope closed without errors.\<close>

theorem body_error_survives_cleanup:
  assumes "scope_exit origin en obs final value st = Some (x, st1)" "st_sealed final"
    and "value = exc_of r"
  shows "st_sealed st1
    \<and> (case r of
         Inl e \<Rightarrow> with_result x r = Inl e
           \<and> xr_context x = exc_of (fst (the (close origin en None obs final (seal st))))
           \<and> (xr_deferred x \<longleftrightarrow> xr_context x = Some StageLifecycleError \<and> cl_running_loop (en_caller en) \<noteq> None)
       | Inr v \<Rightarrow> with_result x r = (case fst (the (close origin en None obs final (seal st))) of
             Inl e \<Rightarrow> Inl e | Inr _ \<Rightarrow> Inr v))"
proof -
  obtain q st2 where c: "close origin en None obs final (seal st) = Some (q, st2)"
    using assms(1) by (cases "close origin en None obs final (seal st)") (auto simp: scope_exit_def)
  have "st_sealed (seal st)" by (simp add: seal_def)
  from close_seals [OF c this assms(2)] have "st_sealed st2" .
  with c assms(1,3) show ?thesis
    by (cases q; cases r) (auto simp: scope_exit_def with_result_def exc_of_def attach_cleanup_error_def)
qed

text \<open>A callable exposed with \<open>as_sync\<close> behaves like its body: an error of the submission or of the
  body is what the call raises, and a value is returned only after the scope has settled and closed
  without errors; a response that is a stream is closed and refused.\<close>

theorem as_sync_returns_only_settled_values:
  assumes "as_sync_call origin en obs final got on_close response st = Some (q, st1)"
  shows "(case response of
       Inl e \<Rightarrow> q = Inl e
     | Inr (Stream_response ss) \<Rightarrow> q = (case on_close ss of Inl e \<Rightarrow> Inl e | Inr _ \<Rightarrow> Inl TypeError)
     | Inr (Handle_response i) \<Rightarrow>
         (case got i of
            Inl e \<Rightarrow> q = Inl e
          | Inr v \<Rightarrow> q = Inr v \<and> close origin en None obs final (seal st) = Some (Inr (), st1)
              \<or> (\<exists>e. q = Inl e \<and> close origin en None obs final (seal st) = Some (Inl e, st1))))"
  using assms
  by (auto simp: as_sync_call_def Let_def scalar_body_def scope_exit_def exc_of_def with_result_def
      attach_cleanup_error_def split: sum.splits response.splits option.splits)

text \<open>Cancelling handles.\<close>

definition cancel_reached :: "('v, 'e) handle \<Rightarrow> ('v, 'e) handle \<Rightarrow> (loop_ref \<times> task_ref option \<times> task_ref list) list \<Rightarrow> bool" where
  "cancel_reached h h' calls \<longleftrightarrow>
     (body_done h \<and> h_owned_body_tasks h = []) \<or>
     (h_cancel_requested h' \<and> (case h_owner_loop h of None \<Rightarrow> True
        | Some l \<Rightarrow> (l, h_owner_task h, h_owned_body_tasks h) \<in> set calls))"

definition same_work :: "('v, 'e) handle \<Rightarrow> ('v, 'e) handle \<Rightarrow> bool" where
  "same_work h h' \<longleftrightarrow> (h' = h \<or> h' = h\<lparr>h_cancel_requested := True\<rparr>)"

lemma cancel_handle_step:
  assumes "\<And>l. \<not> lc l" "w_handles w i = Some h"
  obtains w1 h1 where "cancel_handle lc i w = (Inr (), w1)" "w_handles w1 = (w_handles w)(i \<mapsto> h1)"
    "same_work h h1" "cancel_reached h h1 (w_cancel_calls w1)" "set (w_cancel_calls w) \<subseteq> set (w_cancel_calls w1)"
    "w_stage w1 = w_stage w" "w_task_cancels w1 = w_task_cancels w"
proof (cases "body_done h \<and> h_owned_body_tasks h = []")
  case True
  show ?thesis
    by (rule that [of w h]) (use assms True in \<open>auto simp: cancel_handle_def cancel_request_def same_work_def cancel_reached_def\<close>)
next
  case False
  let ?h = "h\<lparr>h_cancel_requested := True\<rparr>"
  let ?w = "(put_handle i ?h w)\<lparr>w_cancel_calls := w_cancel_calls w
    @ (case h_owner_loop h of None \<Rightarrow> [] | Some l \<Rightarrow> [(l, h_owner_task h, h_owned_body_tasks h)])\<rparr>"
  show ?thesis
    by (rule that [of ?w ?h])
       (use assms False in \<open>auto simp: cancel_handle_def cancel_request_def same_work_def cancel_reached_def put_handle_def
          split: option.splits\<close>)
qed

lemma cancel_reached_keeps:
  "same_work h h1 \<Longrightarrow> same_work h1 h2 \<Longrightarrow> cancel_reached h h1 calls \<Longrightarrow> set calls \<subseteq> set calls' \<Longrightarrow> cancel_reached h h2 calls'"
  by (auto simp: same_work_def cancel_reached_def split: option.splits)

lemma same_work_trans: "same_work h h1 \<Longrightarrow> same_work h1 h2 \<Longrightarrow> same_work h h2"
  by (auto simp: same_work_def)

definition reaches_all :: "nat list \<Rightarrow> ('v, 'e) world \<Rightarrow> ('v, 'e) world \<Rightarrow> bool" where
  "reaches_all hs w w' \<longleftrightarrow> w_stage w' = w_stage w \<and> set (w_cancel_calls w) \<subseteq> set (w_cancel_calls w')
     \<and> (\<forall>i h. w_handles w i = Some h \<longrightarrow> (\<exists>h'. w_handles w' i = Some h' \<and> same_work h h'
          \<and> (i \<in> set hs \<longrightarrow> cancel_reached h h' (w_cancel_calls w'))))"

lemma reaches_all_D:
  "reaches_all hs w w' \<Longrightarrow> w_handles w i = Some h \<Longrightarrow>
     \<exists>h'. w_handles w' i = Some h' \<and> same_work h h' \<and> (i \<in> set hs \<longrightarrow> cancel_reached h h' (w_cancel_calls w'))"
  by (simp add: reaches_all_def)

lemma reaches_all_Cons:
  assumes h: "w_handles w i = Some h"
    and w1: "w_handles w1 = (w_handles w)(i \<mapsto> h1)" "same_work h h1" "cancel_reached h h1 (w_cancel_calls w1)"
      "set (w_cancel_calls w) \<subseteq> set (w_cancel_calls w1)" "w_stage w1 = w_stage w"
    and r: "reaches_all hs w1 w'"
  shows "reaches_all (i # hs) w w'"
proof -
  have c: "set (w_cancel_calls w1) \<subseteq> set (w_cancel_calls w')" "w_stage w' = w_stage w"
    using r w1(5) by (simp_all add: reaches_all_def)
  have "\<exists>h'. w_handles w' j = Some h' \<and> same_work k h' \<and> (j \<in> set (i # hs) \<longrightarrow> cancel_reached k h' (w_cancel_calls w'))"
    if jk: "w_handles w j = Some k" for j k
  proof (cases "j = i")
    case True
    have "w_handles w1 i = Some h1" using w1(1) by simp
    from reaches_all_D [OF r this] obtain h' where h': "w_handles w' i = Some h'" "same_work h1 h'" by blast
    have "k = h" using True jk h by simp
    with True h'(1) same_work_trans [OF w1(2) h'(2)] cancel_reached_keeps [OF w1(2) h'(2) w1(3) c(1)]
    show ?thesis by blast
  next
    case False
    with jk have "w_handles w1 j = Some k" using w1(1) by simp
    from reaches_all_D [OF r this] False show ?thesis by simp
  qed
  with c w1(4) show ?thesis by (simp add: reaches_all_def)
qed

lemma cancel_all_reaches:
  assumes "\<And>l. \<not> lc l" "\<forall>i\<in>set hs. w_handles w i \<noteq> None"
  shows "\<exists>w'. cancel_all lc task_done hs ts w = (Inr (), w') \<and> reaches_all hs w w'
    \<and> w_task_cancels w' = w_task_cancels w @ filter (\<lambda>t. \<not> task_done t) ts"
  using assms(2)
proof (induction hs arbitrary: w)
  case Nil
  show ?case by (simp add: reaches_all_def same_work_def)
next
  case (Cons i hs)
  from Cons.prems obtain h where h: "w_handles w i = Some h" by auto
  obtain w1 h1 where w1: "cancel_handle lc i w = (Inr (), w1)"
    "w_handles w1 = (w_handles w)(i \<mapsto> h1)" "same_work h h1" "cancel_reached h h1 (w_cancel_calls w1)"
    "set (w_cancel_calls w) \<subseteq> set (w_cancel_calls w1)" "w_stage w1 = w_stage w" "w_task_cancels w1 = w_task_cancels w"
    by (rule cancel_handle_step [where lc = lc, OF assms(1) h])
  have "\<forall>j\<in>set hs. w_handles w1 j \<noteq> None" using Cons.prems w1(2) by simp
  from Cons.IH [OF this] obtain w' where w': "cancel_all lc task_done hs ts w1 = (Inr (), w')" "reaches_all hs w1 w'"
    "w_task_cancels w' = w_task_cancels w1 @ filter (\<lambda>t. \<not> task_done t) ts" by blast
  from reaches_all_Cons [OF h w1(2-6) w'(2)] w1(1,7) w'(1,3) show ?case by simp
qed

text \<open>An expired idle timer cancels all the work of the scope: when the limit has passed, the timer's
  callback seals the scope and requests the cancellation of every active handle, scheduling it on the
  loop and for the tasks the handle has, and of every adopted task that is not done.\<close>

theorem idle_timeout_cancels_all_work:
  assumes "st_idle_timeout (w_stage w) = Some limit" "limit \<le> now - st_last_activity (w_stage w)"
    and "has_active_work (w_stage w)" "\<not> st_sealed (w_stage w)"
    and "\<And>l. \<not> loop_closed l" "\<forall>i\<in>set (st_active_handles (w_stage w)). w_handles w i \<noteq> None"
  shows "\<exists>w'. idle_timer_fires loop_closed task_done now (st_idle_timer_token (w_stage w)) w = (Inr (), w')
    \<and> st_sealed (w_stage w') \<and> st_cancelling (w_stage w')
    \<and> (\<forall>i\<in>set (st_active_handles (w_stage w)). \<exists>h h'. w_handles w i = Some h \<and> w_handles w' i = Some h'
         \<and> cancel_reached h h' (w_cancel_calls w'))
    \<and> (\<forall>t\<in>fst ` set (st_adopted_tasks (w_stage w)). task_done t \<or> t \<in> set (w_task_cancels w'))"
proof -
  let ?hs = "st_active_handles (w_stage w)" and ?ts = "map fst (st_adopted_tasks (w_stage w))"
  obtain st where st: "idle_deadline_reached (origin_in w) now (st_idle_timer_token (w_stage w)) (w_stage w) = (st, ?hs, ?ts)"
    "st_sealed st" "st_cancelling st"
    using assms(1-4) by (simp add: idle_deadline_reached_def Let_def)
  have "\<forall>i\<in>set ?hs. w_handles (w\<lparr>w_stage := st\<rparr>) i \<noteq> None" using assms(6) by simp
  from cancel_all_reaches [where lc = loop_closed and task_done = task_done and ts = ?ts, OF assms(5) this] obtain w' where
    w': "cancel_all loop_closed task_done ?hs ?ts (w\<lparr>w_stage := st\<rparr>) = (Inr (), w')"
      "reaches_all ?hs (w\<lparr>w_stage := st\<rparr>) w'"
      "w_task_cancels w' = w_task_cancels w @ filter (\<lambda>t. \<not> task_done t) ?ts"
    by auto
  have "\<exists>h h'. w_handles w i = Some h \<and> w_handles w' i = Some h' \<and> cancel_reached h h' (w_cancel_calls w')"
    if i: "i \<in> set ?hs" for i
  proof -
    from i assms(6) obtain h where h: "w_handles w i = Some h" by auto
    then have "w_handles (w\<lparr>w_stage := st\<rparr>) i = Some h" by simp
    from reaches_all_D [OF w'(2) this] i h show ?thesis by blast
  qed
  moreover have "w_stage w' = st" using w'(2) by (simp add: reaches_all_def)
  ultimately show ?thesis using st w'(1,3) by (auto simp: idle_timer_fires_def)
qed

text \<open>A scope with an idle limit of 5 whose handle 0 runs as task 7 of the caller loop 4.\<close>

definition running_handle :: "(nat, nat) handle" where
  "running_handle = (handle_init ''go:f'' Backend_caller)\<lparr>h_owner_loop := Some 4, h_owner_task := Some 7\<rparr>"

definition overdue_world :: "(nat, nat) world" where
  "overdue_world = empty_world\<lparr>w_handles := [0 \<mapsto> running_handle], w_next_handle := 1,
     w_stage := (w_stage empty_world)\<lparr>st_active_handles := [0], st_idle_timeout := Some 5\<rparr>\<rparr>"

lemmas overdue_eval = overdue_world_def running_handle_def empty_world_def fresh_stage_def limited_args_def
  handle_init_def has_active_work_def

theorem idle_timeout_cancels_all_work_witness:
  "\<exists>w'. idle_timer_fires (\<lambda>_. False) (\<lambda>_. False) 9 (st_idle_timer_token (w_stage overdue_world)) overdue_world
      = (Inr () :: nat exc + unit, w')
    \<and> (4, Some 7, []) \<in> set (w_cancel_calls w')"
proof -
  have "st_idle_timeout (w_stage overdue_world) = Some 5" "5 \<le> 9 - st_last_activity (w_stage overdue_world)"
    "has_active_work (w_stage overdue_world)" "\<not> st_sealed (w_stage overdue_world)"
    "\<forall>i\<in>set (st_active_handles (w_stage overdue_world)). w_handles overdue_world i \<noteq> None"
    by (simp_all add: overdue_eval)
  from idle_timeout_cancels_all_work [OF this(1-4) _ this(5), of "\<lambda>_. False" "\<lambda>_. False"]
  obtain w' where "idle_timer_fires (\<lambda>_. False) (\<lambda>_. False) 9 (st_idle_timer_token (w_stage overdue_world)) overdue_world
      = (Inr () :: nat exc + unit, w')"
    "\<forall>i\<in>set (st_active_handles (w_stage overdue_world)). \<exists>h h'. w_handles overdue_world i = Some h
       \<and> w_handles w' i = Some h' \<and> cancel_reached h h' (w_cancel_calls w')"
    by auto
  moreover have "st_active_handles (w_stage overdue_world) = [0]" "w_handles overdue_world 0 = Some running_handle"
    "h_owner_loop running_handle = Some 4" "h_owner_task running_handle = Some 7"
    "h_owned_body_tasks running_handle = []" "\<not> body_done running_handle"
    by (simp_all add: overdue_eval body_done_def)
  ultimately show ?thesis by (auto simp: cancel_reached_def)
qed

definition open_scope :: "nat stage" where
  "open_scope = fresh_stage 0 0 limited_args Mode_auto None"

lemma exit_from_owned_work:
  "close (\<lambda>_. '''') inside None [] (seal open_scope) (seal open_scope) = Some (Inl StageLifecycleError, seal open_scope)"
  by (simp add: close_def ensure_not_owned_self_wait_def inside_def outside_def open_scope_def seal_def fresh_stage_def)

lemma exit_result_from_owned_work:
  "scope_exit (\<lambda>_. '''') inside [] (seal open_scope) (Some (Raised 3)) open_scope
     = Some (attach_cleanup_error inside StageLifecycleError, seal open_scope)"
  by (simp add: scope_exit_def exit_from_owned_work)

theorem body_error_survives_cleanup_witness:
  "with_result (attach_cleanup_error inside StageLifecycleError) (Inl (Raised 3)) = (Inl (Raised 3) :: nat exc + unit)
   \<and> st_sealed (seal open_scope)"
  using body_error_survives_cleanup [OF exit_result_from_owned_work, where r = "Inl (Raised 3) :: nat exc + unit"]
  by (simp add: exc_of_def seal_def)

lemma as_sync_from_owned_work:
  "as_sync_call (\<lambda>_. '''') inside [] (seal open_scope) Inr (\<lambda>_. Inr ()) (Inr (Handle_response 4)) open_scope
     = Some (Inl StageLifecycleError :: nat exc + nat, seal open_scope)"
  by (simp add: as_sync_call_def scalar_body_def exc_of_def scope_exit_def exit_from_owned_work with_result_def)

theorem as_sync_returns_only_settled_values_witness:
  "\<exists>e. (Inl StageLifecycleError :: nat exc + nat) = Inl e
     \<and> close (\<lambda>_. '''') inside None [] (seal open_scope) (seal open_scope) = Some (Inl e, seal open_scope)"
  using as_sync_returns_only_settled_values [OF as_sync_from_owned_work] by simp



text \<open>\<open>get\<close> submits exactly once: when it returns a value, one handle was created, whether the task was a
  function, an awaitable or a stream source.\<close>

theorem get_submits_once:
  assumes "stage_get is_timeout en drain depth heap call args final task w = (Inr v, w')"
    and "go_route depth heap task \<noteq> (Route_stage_function :: 'e go_route)"
  shows "w_next_handle (w' :: ('v, 'e) world) = Suc (w_next_handle w)"
proof -
  have s: "ensure_started en drain a (ss\<lparr>ss_handle := Some i\<rparr>) w1 = (Inr i, ss\<lparr>ss_handle := Some i\<rparr>, w1)"
    for a ss i and w1 :: "('v, 'e) world" by (simp add: ensure_started_def)
  show ?thesis
    using assms
    by (auto simp: stage_get_def stage_go_def go_stream_def ensure_started_init stream_get_def s
        split: go_route.splits prod.splits sum.splits option.splits dest!: go_scalar_next(1))
qed

end
