(* ===== verification/Emitter.thy ===== *)
theory Emitter
  imports Scope_Calls
begin

text \<open>
  \<open>EventEmitter.py\<close>: a listener registry over one scope. Registry operations run under
  \<open>_registry_lock\<close> and are functions on the two dictionaries; \<open>emit\<close> submits through the
  argument \<open>go\<close>, which is \<open>self._stage.go\<close>. Listeners are compared with \<open>==\<close>: a reference
  stands for a class of equal callables.
\<close>

section \<open>The registry\<close>

record emitter =
  em_listeners :: "string \<Rightarrow> callable_ref list option"
  em_once :: "string \<Rightarrow> callable_ref list option"
  em_closed :: bool

definition emitter_init :: emitter where
  "emitter_init = \<lparr>em_listeners = Map.empty, em_once = Map.empty, em_closed = False\<rparr>"

text \<open>\<open>dict.get(event, ())\<close>.\<close>

definition listed :: "(string \<Rightarrow> callable_ref list option) \<Rightarrow> string \<Rightarrow> callable_ref list" where
  "listed m ev = (case m ev of None \<Rightarrow> [] | Some ls \<Rightarrow> ls)"

definition ensure_open_locked :: "emitter \<Rightarrow> 'e exc + unit" where
  "ensure_open_locked em = (if em_closed em then Inl StageClosedError else Inr ())"

definition add_listener :: "string \<Rightarrow> callable_ref \<Rightarrow> emitter \<Rightarrow> 'e exc + emitter" where
  "add_listener ev l em =
     (case ensure_open_locked em of
        Inl e \<Rightarrow> Inl e
      | Inr _ \<Rightarrow>
          (let ls = listed (em_listeners em) ev
           in Inr (em\<lparr>em_listeners := (em_listeners em)(ev \<mapsto> (if l \<in> set ls then ls else ls @ [l]))\<rparr>)))"

definition add_once_listener :: "string \<Rightarrow> callable_ref \<Rightarrow> emitter \<Rightarrow> 'e exc + emitter" where
  "add_once_listener ev l em =
     (case ensure_open_locked em of
        Inl e \<Rightarrow> Inl e
      | Inr _ \<Rightarrow>
          (let ls = listed (em_listeners em) ev; os = listed (em_once em) ev
           in Inr (em\<lparr>em_listeners := (em_listeners em)(ev \<mapsto> ls),
                     em_once := (em_once em)(ev \<mapsto> (if l \<notin> set ls \<and> l \<notin> set os then os @ [l] else os))\<rparr>)))"

definition remove_listener :: "string \<Rightarrow> callable_ref \<Rightarrow> emitter \<Rightarrow> emitter" where
  "remove_listener ev l em =
     (let em1 = (case em_listeners em ev of
                   None \<Rightarrow> em
                 | Some ls \<Rightarrow> (if l \<in> set ls then em\<lparr>em_listeners := (em_listeners em)(ev \<mapsto> remove1 l ls)\<rparr> else em))
      in case em_once em1 ev of
           None \<Rightarrow> em1
         | Some os \<Rightarrow> (if l \<in> set os then em1\<lparr>em_once := (em_once em1)(ev \<mapsto> remove1 l os)\<rparr> else em1))"

definition remove_all_listeners :: "string list \<Rightarrow> emitter \<Rightarrow> emitter" where
  "remove_all_listeners evs em =
     fold (\<lambda>ev m. m\<lparr>em_listeners := (em_listeners m)(ev \<mapsto> []), em_once := (em_once m)(ev \<mapsto> [])\<rparr>) evs em"

definition listener_count :: "string \<Rightarrow> emitter \<Rightarrow> nat" where
  "listener_count ev em = length (listed (em_listeners em) ev) + length (listed (em_once em) ev)"

text \<open>\<open>on\<close>, \<open>once\<close> and \<open>off\<close>: without a listener the first two return a decorator (\<open>None\<close>), which
  registers the function it is applied to in the same way.\<close>

definition emitter_on :: "string \<Rightarrow> callable_ref option \<Rightarrow> emitter \<Rightarrow> 'e exc + (callable_ref option \<times> emitter)" where
  "emitter_on ev f em =
     (case f of None \<Rightarrow> Inr (None, em) | Some l \<Rightarrow> map_sum id (\<lambda>em'. (Some l, em')) (add_listener ev l em))"

definition emitter_once :: "string \<Rightarrow> callable_ref option \<Rightarrow> emitter \<Rightarrow> 'e exc + (callable_ref option \<times> emitter)" where
  "emitter_once ev f em =
     (case f of None \<Rightarrow> Inr (None, em) | Some l \<Rightarrow> map_sum id (\<lambda>em'. (Some l, em')) (add_once_listener ev l em))"

definition emitter_off :: "string \<Rightarrow> callable_ref \<Rightarrow> emitter \<Rightarrow> emitter" where
  "emitter_off ev l em = remove_listener ev l em"

section \<open>Emitting\<close>

definition emit ::
  "(callable_ref \<Rightarrow> 'w \<Rightarrow> ('e exc + 'h) \<times> 'w) \<Rightarrow> string \<Rightarrow> emitter \<Rightarrow> 'w
   \<Rightarrow> ('e exc + 'h list) \<times> emitter \<times> 'w" where
  "emit go ev em w =
     (case ensure_open_locked em of
        Inl e \<Rightarrow> (Inl e, em, w)
      | Inr _ \<Rightarrow>
          (let listeners = listed (em_listeners em) ev @ listed (em_once em) ev;
               em1 = em\<lparr>em_once := (em_once em)(ev := None)\<rparr>
           in case submit_all go listeners w of (r, w1) \<Rightarrow> (r, em1, w1)))"

text \<open>
  \<open>_wait_handles\<close>: each handle is waited for twice, with its body future \<open>final\<close> and itself \<open>h'\<close>
  as the waits find them. \<open>get\<close> may raise any \<open>Exception\<close> or a cancellation, settlement only a
  \<open>StageSettlementError\<close>; anything else ends the loop. \<open>is_exception e\<close>: the object \<open>e\<close> is an
  instance of \<open>Exception\<close>.
\<close>

definition swallowed_by_get :: "('e \<Rightarrow> bool) \<Rightarrow> 'e exc \<Rightarrow> bool" where
  "swallowed_by_get is_exception e = (case e of Raised x \<Rightarrow> is_exception x | _ \<Rightarrow> True)"

fun wait_handles ::
  "('e \<Rightarrow> bool) \<Rightarrow> ('e \<Rightarrow> bool) \<Rightarrow> loop_ref option
   \<Rightarrow> (('v, 'e) body_future \<times> ('v, 'e) handle \<times> ('v, 'e) handle) list \<Rightarrow> 'e exc + unit" where
  "wait_handles is_exception is_timeout running [] = Inr ()"
| "wait_handles is_exception is_timeout running ((final, h, h') # hs) =
     (case handle_get is_timeout running final h of
        Inl e \<Rightarrow>
          (if \<not> swallowed_by_get is_exception e then Inl e
           else case handle_wait_settled running True h h' of
                  Inl (StageSettlementError es) \<Rightarrow> wait_handles is_exception is_timeout running hs
                | Inl e' \<Rightarrow> Inl e'
                | Inr _ \<Rightarrow> wait_handles is_exception is_timeout running hs)
      | Inr _ \<Rightarrow>
          (case handle_wait_settled running True h h' of
             Inl (StageSettlementError es) \<Rightarrow> wait_handles is_exception is_timeout running hs
           | Inl e' \<Rightarrow> Inl e'
           | Inr _ \<Rightarrow> wait_handles is_exception is_timeout running hs))"

text \<open>\<open>_async_wait_handles\<close>: the asynchronous waits are never refused.\<close>

fun async_wait_handles ::
  "('e \<Rightarrow> bool) \<Rightarrow> (('v, 'e) body_future \<times> ('v, 'e) handle) list \<Rightarrow> 'e exc + unit" where
  "async_wait_handles is_exception [] = Inr ()"
| "async_wait_handles is_exception ((final, h') # hs) =
     (case handle_async_get True final of
        Inl e \<Rightarrow> (if swallowed_by_get is_exception e then async_wait_handles is_exception hs else Inl e)
      | Inr _ \<Rightarrow> async_wait_handles is_exception hs)"

text \<open>\<open>emit(..., wait=True)\<close> and \<open>async_emit\<close>: \<open>waited\<close> is what waiting for the handles gives.\<close>

definition emit_and_wait ::
  "('h list \<Rightarrow> 'e exc + unit) \<Rightarrow> bool \<Rightarrow> (callable_ref \<Rightarrow> 'w \<Rightarrow> ('e exc + 'h) \<times> 'w) \<Rightarrow> string \<Rightarrow> emitter \<Rightarrow> 'w
   \<Rightarrow> ('e exc + 'h list) \<times> emitter \<times> 'w" where
  "emit_and_wait waited wait go ev em w =
     (case emit go ev em w of
        (Inl e, em1, w1) \<Rightarrow> (Inl e, em1, w1)
      | (Inr hs, em1, w1) \<Rightarrow>
          (if wait then (case waited hs of Inl e \<Rightarrow> Inl e | Inr _ \<Rightarrow> Inr hs, em1, w1) else (Inr hs, em1, w1)))"

text \<open>\<open>close\<close>: the flag is set before the scope is closed.\<close>

definition emitter_close ::
  "(nat \<Rightarrow> string) \<Rightarrow> env \<Rightarrow> ('e stage \<times> clock) list \<Rightarrow> 'e stage \<Rightarrow> emitter \<Rightarrow> 'e stage
   \<Rightarrow> (('e exc + unit) \<times> emitter \<times> 'e stage) option" where
  "emitter_close origin en obs final em st =
     (if em_closed em then Some (Inr (), em, st)
      else map_option (\<lambda>(r, st'). (r, em\<lparr>em_closed := True\<rparr>, st')) (close origin en None obs final st))"

definition emitter_async_close ::
  "(nat \<Rightarrow> string) \<Rightarrow> env \<Rightarrow> ('e stage \<times> clock) list \<Rightarrow> 'e stage \<Rightarrow> emitter \<Rightarrow> 'e stage
   \<Rightarrow> (('e exc + unit) \<times> emitter \<times> 'e stage) option" where
  "emitter_async_close origin en obs final em st =
     (if em_closed em then Some (Inr (), em, st)
      else map_option (\<lambda>(r, st'). (r, em\<lparr>em_closed := True\<rparr>, st')) (async_close origin en None obs final st))"

section \<open>Registry facts\<close>

lemmas emitter_defs = ensure_open_locked_def add_listener_def add_once_listener_def

lemma listed_simps [simp]:
  "listed (m(ev := None)) ev' = (if ev' = ev then [] else listed m ev')"
  "listed (m(ev \<mapsto> ls)) ev' = (if ev' = ev then ls else listed m ev')"
  by (auto simp: listed_def)

lemma listed_None [simp]: "m ev = None \<Longrightarrow> listed m ev = []"
  by (simp add: listed_def)

lemma listed_Some [simp]: "m ev = Some ls \<Longrightarrow> listed m ev = ls"
  by (simp add: listed_def)

text \<open>No listener is registered twice in the same way for one event.\<close>

definition emitter_ok :: "emitter \<Rightarrow> bool" where
  "emitter_ok em \<longleftrightarrow> (\<forall>ev. distinct (listed (em_listeners em) ev) \<and> distinct (listed (em_once em) ev))"

lemma emitter_ok_init: "emitter_ok emitter_init"
  by (simp add: emitter_ok_def emitter_init_def)

lemma emitter_ok_add: "emitter_ok em \<Longrightarrow> add_listener ev l em = Inr em' \<Longrightarrow> emitter_ok em'"
  by (auto simp: emitter_ok_def emitter_defs Let_def split: if_splits)

lemma emitter_ok_once: "emitter_ok em \<Longrightarrow> add_once_listener ev l em = Inr em' \<Longrightarrow> emitter_ok em'"
  by (auto simp: emitter_ok_def emitter_defs Let_def split: if_splits)

lemma remove_listener_listed:
  "listed (em_listeners (remove_listener ev l em)) ev' =
     (if ev' = ev then remove1 l (listed (em_listeners em) ev) else listed (em_listeners em) ev')"
  "listed (em_once (remove_listener ev l em)) ev' =
     (if ev' = ev then remove1 l (listed (em_once em) ev) else listed (em_once em) ev')"
  by (auto simp: remove_listener_def Let_def listed_def remove1_idem split: option.splits)

lemma remove_all_listed:
  "listed (em_listeners (remove_all_listeners evs em)) ev =
     (if ev \<in> set evs then [] else listed (em_listeners em) ev)"
  "listed (em_once (remove_all_listeners evs em)) ev =
     (if ev \<in> set evs then [] else listed (em_once em) ev)"
  unfolding remove_all_listeners_def by (induction evs arbitrary: em) auto

lemma emit_cases:
  "emit go ev em w =
     (if em_closed em then (Inl StageClosedError, em, w)
      else case submit_all go (listed (em_listeners em) ev @ listed (em_once em) ev) w of
             (r, w1) \<Rightarrow> (r, em\<lparr>em_once := (em_once em)(ev := None)\<rparr>, w1))"
  by (simp add: emit_def ensure_open_locked_def Let_def)

end
