(* ===== verification/Callback_Props.thy ===== *)
theory Callback_Props
  imports Scope_Props
begin

text \<open>
  Late callbacks and the routing of work: a registration that cannot be scheduled is undone on
  the handle, what it leaves behind in the scope, where a synchronous scope may run without
  deadlocking its caller, and how tasks are classified.
\<close>

section \<open>Callbacks are untouched by scheduling\<close>

definition callbacks_of :: "nat \<Rightarrow> ('v, 'e) world \<Rightarrow> callback list option" where
  "callbacks_of i w = map_option h_callbacks (w_handles w i)"

lemma callbacks_put [simp]:
  "callbacks_of i (put_handle j h w) = (if i = j then Some (h_callbacks h) else callbacks_of i w)"
  by (simp add: callbacks_of_def put_handle_def)

lemma callbacks_frame [simp]:
  "callbacks_of i (w\<lparr>w_stage := st\<rparr>) = callbacks_of i w" "callbacks_of i (w\<lparr>w_carrier := c\<rparr>) = callbacks_of i w"
  "callbacks_of i (w\<lparr>w_calls := cs\<rparr>) = callbacks_of i w" "callbacks_of i (w\<lparr>w_tasks := ts\<rparr>) = callbacks_of i w"
  "callbacks_of i (w\<lparr>w_next_task := t\<rparr>) = callbacks_of i w" "callbacks_of i (w\<lparr>w_task_cancels := tc\<rparr>) = callbacks_of i w"
  "callbacks_of i (snd (return_lease lease w)) = callbacks_of i w"
  by (simp_all add: callbacks_of_def)

lemma callbacks_handle [simp]:
  "h_callbacks (retain_work h) = h_callbacks h" "h_callbacks (record_settlement_error e h) = h_callbacks h"
  "h_callbacks (set_generation_id g h) = h_callbacks h"
  "h_callbacks (snd (take_unreported_stage_errors h)) = h_callbacks h"
  "h_callbacks (fst (set_owner_task l t h)) = h_callbacks h"
  "release_work h = Inr (h', q) \<Longrightarrow> h_callbacks h' = h_callbacks h"
  by (auto simp: retain_work_def record_settlement_error_def set_generation_id_def take_unreported_stage_errors_def
      set_owner_task_def release_work_def Let_def split: if_splits)

lemma callbacks_known: "w_handles w i = Some h \<Longrightarrow> callbacks_of i w = Some (h_callbacks h)"
  by (simp add: callbacks_of_def)

lemma callbacks_quiescent [simp]: "callbacks_of i (snd (handle_quiescent j w)) = callbacks_of i w"
proof (cases "w_handles w j")
  case (Some h)
  have "w_handles (snd (handle_quiescent j w)) = (w_handles w)(j \<mapsto> snd (take_unreported_stage_errors h))"
    using Some by (simp add: handle_quiescent_def put_handle_def Let_def split: prod.splits)
  with Some show ?thesis by (simp add: callbacks_of_def)
qed (simp add: handle_quiescent_def)

lemma callbacks_release [simp]: "callbacks_of i (snd (release_handle_work j w)) = callbacks_of i w"
proof (cases "w_handles w j")
  case (Some h)
  then show ?thesis
    by (cases "release_work h") (auto simp: release_handle_work_def callbacks_known split: prod.splits if_splits)
qed (simp add: release_handle_work_def)

lemma callbacks_start_drain:
  assumes "\<not> rj_owner job"
  shows "callbacks_of i (snd (start_runner en failure l job w)) = callbacks_of i w"
  using assms by (auto simp: start_runner_def Let_def callbacks_known split: option.splits)

lemma callbacks_schedule_drain:
  assumes "\<not> rj_owner job"
  shows "callbacks_of i (snd (schedule_caller_runner en failure l job w)) = callbacks_of i w"
proof (cases "w_handles w (rj_handle job)")
  case (Some h)
  have put: "callbacks_of i (put_handle (rj_handle job) (retain_work h) w) = callbacks_of i w"
    using Some by (simp add: callbacks_known)
  have rel: "callbacks_of i w2 = callbacks_of i w"
    if "release_handle_work (rj_handle job) (put_handle (rj_handle job) (retain_work h) w) = (r, w2)" for r w2
    using callbacks_release [of i "rj_handle job" "put_handle (rj_handle job) (retain_work h) w"] that put by simp
  show ?thesis
    using Some put rel
      callbacks_start_drain [OF assms, of i en failure l "put_handle (rj_handle job) (retain_work h) w"]
    by (auto simp: schedule_caller_runner_def Let_def split: option.splits prod.splits sum.splits)
qed (simp add: schedule_caller_runner_def)

lemma callbacks_carrier_submit:
  assumes "carrier_submit sm preferred cl h c = (r, h', q, c')"
  shows "h_callbacks h' = h_callbacks h"
proof -
  have slot: "h_callbacks h2 = h_callbacks h" if "slot_submit sid sm pref h c1 = (r1, h2, q1, c2)" for sid pref c1 r1 h2 q1 c2
    using that callbacks_handle(6) [of "retain_work h"]
    by (auto simp: slot_submit_def Let_def split: prod.splits sum.splits option.splits)
  show ?thesis
    using assms slot by (auto simp: carrier_submit_def split: option.splits prod.splits sum.splits)
qed

lemma callbacks_submit: "callbacks_of i (snd (submit_handle en sm preferred w)) = callbacks_of i w"
proof (cases "w_handles w (sm_handle sm)")
  case (Some h)
  obtain r h1 q c where s: "carrier_submit sm preferred (en_caller en) h (w_carrier w) = (r, h1, q, c)"
    by (metis surj_pair)
  let ?w = "(put_handle (sm_handle sm) h1 w)\<lparr>w_carrier := c\<rparr>"
  have w: "callbacks_of i ?w = callbacks_of i w"
    using callbacks_carrier_submit [OF s] Some by (simp add: callbacks_known)
  have "snd (submit_handle en sm preferred w) = (if q then snd (handle_quiescent (sm_handle sm) ?w) else ?w)"
    using Some s by (simp add: submit_handle_def Let_def split: prod.splits sum.splits)
  with w show ?thesis by simp
qed (simp add: submit_handle_def)

lemma callbacks_drain_submission:
  "callbacks_of i (snd (submit_callback_drain en failure drain j w)) = callbacks_of i w"
proof (cases "w_handles w j")
  case (Some h)
  note lemmas_used = callbacks_schedule_drain callbacks_submit
  show ?thesis
    unfolding submit_callback_drain_def bind_for_drain_def Let_def
    by (simp add: Some lemmas_used split: option.split prod.split sum.split)
qed (simp add: submit_callback_drain_def)

text \<open>C29. A late callback that cannot be scheduled is undone: whatever makes \<open>_register_callback\<close>
  fail, the handle's queue of callbacks is exactly what it was before the call, and no drain is
  left marked as running.\<close>

theorem failed_registration_undone:
  assumes "register_callback en failure drain kind f ctx i w = (Inl e, w')"
    and "callback_registration_allowed en (w_stage w)" "w_handles w i = Some h"
  shows "\<exists>h'. w_handles w' i = Some h' \<and> h_callbacks h' = h_callbacks h \<and> \<not> h_callback_drain_active h'"
proof -
  obtain h1 b where h1: "register_callback_locked kind f ctx h = (h1, b)" by fastforce
  have cbs: "h_callbacks h1 = h_callbacks h @ [\<lparr>cb_kind = kind, cb_function = f, cb_context = ctx\<rparr>]"
    using h1 by (auto simp: register_callback_locked_def activate_callback_drain_locked_def Let_def split: if_splits)
  obtain r w2 where sub: "submit_callback_drain en failure drain i (put_handle i h1 w) = (r, w2)" by fastforce
  have "callbacks_of i w2 = Some (h_callbacks h1)"
    using callbacks_drain_submission [of i en failure drain i "put_handle i h1 w"] sub by simp
  then obtain h2 where h2: "w_handles w2 i = Some h2" "h_callbacks h2 = h_callbacks h1"
    by (auto simp: callbacks_of_def)
  have "w' = put_handle i (register_callback_rollback h2) w2"
    using assms h1 sub h2(1) by (auto simp: register_callback_def Let_def split: if_splits sum.splits)
  then show ?thesis by (simp add: put_handle_def register_callback_rollback_def h2(2) cbs)
qed

text \<open>A settled handle of a scope that other work keeps bound to caller loop 4.\<close>

definition settled_handle :: "(nat, nat) handle" where
  "settled_handle = (handle_init ''go:f'' Backend_caller)\<lparr>h_body_completed := True, h_body_result := Some 5,
     h_body_future := Resolved (Some 5), h_owner_loop := Some 4, h_owner_task := Some 0\<rparr>"

definition bound_world :: "(nat, nat) world" where
  "bound_world = empty_world\<lparr>w_handles := [0 \<mapsto> settled_handle], w_next_handle := 2,
     w_stage := (w_stage empty_world)\<lparr>st_active_handles := [1], st_active_backend := Some Backend_caller,
       st_active_loop := Some 4\<rparr>\<rparr>"

definition free_world :: "(nat, nat) world" where
  "free_world = empty_world\<lparr>w_handles := [0 \<mapsto> settled_handle], w_next_handle := 1\<rparr>"

lemmas late_eval = bound_world_def free_world_def settled_handle_def empty_world_def fresh_stage_def limited_args_def
  on_loop_def outside_def plain_caller_def handle_init_def register_callback_def callback_registration_allowed_def
  register_callback_locked_def activate_callback_drain_locked_def submit_callback_drain_def
  bind_for_drain_def usable_def put_handle_def
  register_callback_rollback_def schedule_caller_runner_def start_runner_def retain_work_def has_active_work_def Let_def

theorem failed_registration_undone_witness:
  "\<exists>h'. w_handles (snd (register_callback outside None 0 On_success 3 0 0 bound_world)) 0 = Some h' \<and> h_callbacks h' = []"
proof -
  have "register_callback outside None 0 On_success 3 0 0 bound_world
      = (Inl StageLifecycleError, snd (register_callback outside None 0 On_success 3 0 0 bound_world))"
    by (simp add: late_eval)
  moreover have "callback_registration_allowed outside (w_stage bound_world)" "w_handles bound_world 0 = Some settled_handle"
    "h_callbacks settled_handle = []"
    by (simp_all add: late_eval)
  ultimately show ?thesis using failed_registration_undone by metis
qed

text \<open>The undo does not reach the scope: when a late callback is refused because the handle's
  caller loop is not running while the scope is still bound to that loop, the settled handle
  stays in \<open>_active_handles\<close>. It holds no work, so nothing will ever remove it and the scope
  cannot settle again.\<close>

theorem refused_late_callback_leaks_active_handle:
  "\<exists>w :: (nat, nat) world. \<exists>w' h'. 0 \<notin> set (st_active_handles (w_stage w))
     \<and> register_callback outside None 0 On_success 3 0 0 w = (Inl StageLifecycleError, w')
     \<and> 0 \<in> set (st_active_handles (w_stage w')) \<and> w_handles w' 0 = Some h' \<and> h_pending_work h' = 0 \<and> body_done h'"
  by (rule exI [of _ bound_world]) (simp add: late_eval body_done_def)

text \<open>A late callback restarts an idle scope without its idle timer: in a scope with an idle
  limit, a callback registered on a settled handle is scheduled and the scope has active work
  again, but no idle timer is armed until that callback has finished.\<close>

theorem late_callback_runs_without_idle_timer:
  "\<exists>w :: (nat, nat) world. \<exists>w'. st_idle_timeout (w_stage w) = Some 5
     \<and> register_callback on_loop None 0 On_success 3 0 0 w = (Inr (), w')
     \<and> has_active_work (w_stage w') \<and> \<not> st_sealed (w_stage w') \<and> st_idle_timer (w_stage w') = None"
  by (rule exI [of _ free_world]) (simp add: late_eval)

section \<open>Synchronous scopes on the carrier\<close>


definition sync_world :: "(nat, nat) world" where
  "sync_world = empty_world\<lparr>w_carrier := running_pool,
     w_stage := (fresh_stage 2 0 limited_args Mode_stage None)\<lparr>st_context_mode := Some Mode_sync\<rparr>\<rparr>"

definition carrier_env :: env where
  "carrier_env = outside\<lparr>en_caller := \<lparr>cl_execution = Some \<lparr>ec_generation = 1, ec_handle = 0, ec_phase = Phase_body,
     ec_blocked = {}\<rparr>, cl_running_loop = Some 7\<rparr>\<rparr>"


section \<open>Classification\<close>

text \<open>The object whose classification an object takes over, and the class of one that has its own.\<close>

definition delegate :: "(nat \<Rightarrow> py_object) \<Rightarrow> nat \<Rightarrow> nat option" where
  "delegate heap t =
     (let p = heap t in
      if po_stage_function p then None
      else if po_partial p \<noteq> None then po_partial p
      else if po_wraps p \<noteq> None then po_wraps p
      else if po_asyncgenfunction p \<or> po_asyncgen p \<or> po_async_iterator p \<or> po_generatorfunction p \<or> po_generator p
        \<or> po_iterator p \<or> po_coroutinefunction p \<or> po_coroutine p \<or> po_future p \<or> po_function_or_builtin p then None
      else po_call p)"

fun follow :: "nat \<Rightarrow> (nat \<Rightarrow> py_object) \<Rightarrow> nat \<Rightarrow> nat option" where
  "follow 0 heap t = Some t"
| "follow (Suc n) heap t = (case delegate heap t of None \<Rightarrow> None | Some u \<Rightarrow> follow n heap u)"

definition own_class :: "py_object \<Rightarrow> task_class option" where
  "own_class p =
     (if po_stage_function p then Some Stage_func
      else if po_asyncgenfunction p then Some Async_gen_func
      else if po_asyncgen p \<or> po_async_iterator p then Some Async_gen
      else if po_generatorfunction p then Some Gen_func
      else if po_generator p \<or> po_iterator p then Some Gen
      else if po_coroutinefunction p then Some Async_func
      else if po_coroutine p then Some Async_coro
      else if po_future p then Some Future_obj
      else if po_function_or_builtin p then Some Func else None)"

lemma classify_step:
  "delegate heap t = Some u \<Longrightarrow> classify_task (Suc d) heap t = classify_task d heap u"
  by (auto simp: delegate_def Let_def split: if_splits)

lemma classify_end: "delegate heap t = None \<Longrightarrow> classify_task (Suc d) heap t = Inr (own_class (heap t))"
  by (auto simp: delegate_def own_class_def Let_def split: if_splits)

text \<open>\<open>_classify_task\<close> unwraps: following partials, bound and static methods and \<open>__call__\<close>
  attributes to the object that ends the chain gives that object's own class, as long as the
  chain is shorter than the interpreter's recursion depth, and a chain that is not raises
  \<open>RecursionError\<close>.\<close>

theorem classify_unwraps:
  "(follow n heap t = Some u \<and> delegate heap u = None \<and> n < depth \<longrightarrow>
      classify_task depth heap t = (Inr (own_class (heap u)) :: 'e exc + _))
   \<and> (follow depth heap t \<noteq> None \<longrightarrow> classify_task depth heap t = (Inl RecursionError :: 'e exc + _))"
proof (induction depth arbitrary: n t)
  case 0
  then show ?case by simp
next
  case (Suc d)
  show ?case
  proof (cases "delegate heap t")
    case None
    with classify_end [OF None, of d] show ?thesis by (cases n) auto
  next
    case (Some v)
    show ?thesis
      unfolding classify_step [OF Some] using Some Suc.IH [of "n - 1" v] by (cases n) auto
  qed
qed

definition plain_object :: py_object where
  "plain_object = \<lparr>po_stage_function = False, po_partial = None, po_wraps = None, po_asyncgenfunction = False,
     po_asyncgen = False, po_async_iterator = False, po_generatorfunction = False, po_generator = False,
     po_iterator = False, po_coroutinefunction = False, po_coroutine = False, po_future = False,
     po_function_or_builtin = False, po_call = None\<rparr>"

theorem classify_unwraps_witness:
  "classify_task 1000 (\<lambda>t. if t = 0 then plain_object\<lparr>po_partial := Some 1\<rparr>
     else plain_object\<lparr>po_coroutinefunction := True\<rparr>) 0 = (Inr (Some Async_func) :: nat exc + _)"
  using classify_unwraps [of 1 "\<lambda>t. if t = 0 then plain_object\<lparr>po_partial := Some 1\<rparr>
     else plain_object\<lparr>po_coroutinefunction := True\<rparr>" 0 1 1000, where 'e = nat]
  by (simp add: delegate_def own_class_def plain_object_def)

text \<open>A class without a \<open>__call__\<close> of its own cannot be submitted: its \<open>__call__\<close> attribute is a
  method wrapper, whose \<open>__call__\<close> is again a method wrapper, and so on, so \<open>go\<close> ends in
  \<open>RecursionError\<close> at every recursion limit instead of classifying the callable.\<close>

theorem class_object_exhausts_recursion:
  "go_route depth (\<lambda>t. plain_object\<lparr>po_call := Some (Suc t)\<rparr>) t = (Route_raise RecursionError :: 'e go_route)"
proof -
  have "classify_task depth (\<lambda>t. plain_object\<lparr>po_call := Some (Suc t)\<rparr>) t = (Inl RecursionError :: 'e exc + _)"
    by (induction depth arbitrary: t) (simp_all add: plain_object_def)
  then show ?thesis by (simp add: go_route_def)
qed

end
