(* ===== verification/Emitter_Props.thy ===== *)
theory Emitter_Props
  imports Emitter Callback_Props
begin

text \<open>
  What the event emitter promises: fan-out in registration order with one handle per listener,
  once listeners delivered at most once per registration, and what closing it does.
\<close>

section \<open>Runs of an emitter\<close>

datatype em_op =
    Add string callable_ref
  | Add_once string callable_ref
  | Remove string callable_ref
  | Remove_all "string list"
  | Emit string
  | Mark_closed

text \<open>The listeners whose submission the scope accepted, in order.\<close>

fun accepted :: "('t \<Rightarrow> 'w \<Rightarrow> ('x + 'h) \<times> 'w) \<Rightarrow> 't list \<Rightarrow> 'w \<Rightarrow> 't list" where
  "accepted go [] w = []"
| "accepted go (t # ts) w = (case go t w of (Inl e, w1) \<Rightarrow> [] | (Inr h, w1) \<Rightarrow> t # accepted go ts w1)"

lemma accepted_prefix: "\<exists>n. accepted go ts w = take n ts"
proof (induction ts arbitrary: w)
  case (Cons t ts)
  obtain r w1 where g: "go t w = (r, w1)" by fastforce
  from Cons.IH [of w1] obtain n where "accepted go ts w1 = take n ts" by blast
  with g have "accepted go (t # ts) w = take (case r of Inl _ \<Rightarrow> 0 | Inr _ \<Rightarrow> Suc n) (t # ts)"
    by (simp split: sum.splits)
  then show ?case by blast
qed simp

lemma accepted_all: "submit_all go ts w = (Inr hs, w') \<Longrightarrow> accepted go ts w = ts"
  by (induction ts arbitrary: w hs w') (auto split: prod.splits sum.splits)

lemma count_list_take: "count_list (take n xs) x \<le> count_list xs x"
proof -
  have "count_list xs x = count_list (take n xs) x + count_list (drop n xs) x"
    by (metis append_take_drop_id count_list_append)
  then show ?thesis by simp
qed

lemma count_accepted: "count_list (accepted go ts w) t \<le> count_list ts t"
  using accepted_prefix [of go ts w] count_list_take by metis

fun em_apply :: "em_op \<Rightarrow> emitter \<Rightarrow> emitter" where
  "em_apply (Add ev l) em = (case (add_listener ev l em :: unit exc + _) of Inl e \<Rightarrow> em | Inr em' \<Rightarrow> em')"
| "em_apply (Add_once ev l) em = (case (add_once_listener ev l em :: unit exc + _) of Inl e \<Rightarrow> em | Inr em' \<Rightarrow> em')"
| "em_apply (Remove ev l) em = remove_listener ev l em"
| "em_apply (Remove_all evs) em = remove_all_listeners evs em"
| "em_apply (Emit ev) em = em"
| "em_apply Mark_closed em = em\<lparr>em_closed := True\<rparr>"

definition deliveries ::
  "(callable_ref \<Rightarrow> 'w \<Rightarrow> ('e exc + 'h) \<times> 'w) \<Rightarrow> string \<Rightarrow> emitter \<Rightarrow> 'w \<Rightarrow> callable_ref list" where
  "deliveries go ev em w =
     (if em_closed em then [] else accepted go (listed (em_listeners em) ev @ listed (em_once em) ev) w)"

fun em_run ::
  "(callable_ref \<Rightarrow> 'w \<Rightarrow> ('e exc + 'h) \<times> 'w) \<Rightarrow> em_op list \<Rightarrow> emitter \<Rightarrow> 'w
   \<Rightarrow> (string \<times> callable_ref) list \<times> emitter \<times> 'w" where
  "em_run go [] em w = ([], em, w)"
| "em_run go (Emit ev # ops) em w =
     (case emit go ev em w of (_, em1, w1) \<Rightarrow>
      case em_run go ops em1 w1 of (ds, em2, w2) \<Rightarrow> (map (Pair ev) (deliveries go ev em w) @ ds, em2, w2))"
| "em_run go (op # ops) em w = em_run go ops (em_apply op em) w"

lemma em_run_other: "\<nexists>ev. op = Emit ev \<Longrightarrow> em_run go (op # ops) em w = em_run go ops (em_apply op em) w"
  by (cases op) simp_all

definition once_count :: "string \<Rightarrow> callable_ref \<Rightarrow> emitter \<Rightarrow> nat" where
  "once_count ev l em = count_list (listed (em_once em) ev) l"

lemma count_remove1_le: "count_list (remove1 x xs) y \<le> count_list xs y"
  by (induction xs) auto

lemma em_apply_persistent:
  "l \<notin> set (listed (em_listeners em) ev) \<Longrightarrow> op \<noteq> Add ev l \<Longrightarrow> l \<notin> set (listed (em_listeners (em_apply op em)) ev)"
  by (cases op)
     (auto simp: emitter_defs Let_def remove_listener_listed remove_all_listed
       dest!: subsetD [OF set_remove1_subset] split: if_splits)

lemma em_apply_once:
  "once_count ev l (em_apply op em) \<le> once_count ev l em + (if op = Add_once ev l then 1 else 0)"
  by (cases op)
     (auto simp: once_count_def emitter_defs Let_def remove_listener_listed remove_all_listed count_remove1_le)

lemma count_list_map_Pair: "count_list (map (Pair ev') xs) (ev, l) = (if ev' = ev then count_list xs l else 0)"
  by (induction xs) auto

lemma emit_consumes_once:
  assumes "l \<notin> set (listed (em_listeners em) ev)" "emit go ev' em w = (r, em1, w1)"
  shows "count_list (map (Pair ev') (deliveries go ev' em w)) (ev, l) + once_count ev l em1 \<le> once_count ev l em"
    and "l \<notin> set (listed (em_listeners em1) ev)"
proof -
  show "l \<notin> set (listed (em_listeners em1) ev)"
    using assms by (auto simp: emit_cases split: if_splits prod.splits)
  have "count_list (deliveries go ev em w) l \<le> once_count ev l em"
    using count_accepted [of go "listed (em_listeners em) ev @ listed (em_once em) ev" w l] assms(1)
    by (auto simp: deliveries_def once_count_def)
  then show "count_list (map (Pair ev') (deliveries go ev' em w)) (ev, l) + once_count ev l em1 \<le> once_count ev l em"
    using assms(2)
    by (auto simp: count_list_map_Pair emit_cases once_count_def deliveries_def split: if_splits prod.splits)
qed

section \<open>Properties\<close>

text \<open>C18. A once listener is delivered at most once per registration: over any sequence of registry
  operations and emits, whatever the scope accepts or refuses, a listener that is never added
  persistently for an event is submitted for it at most as often as it was registered with
  \<open>add_once_listener\<close>.\<close>

theorem once_listener_at_most_once:
  assumes "em_run go ops em w = (ds, em', w')"
    and "l \<notin> set (listed (em_listeners em) ev)" "Add ev l \<notin> set ops"
  shows "count_list ds (ev, l) \<le> count_list (listed (em_once em) ev) l + count_list ops (Add_once ev l)"
proof -
  have "count_list ds (ev, l) \<le> once_count ev l em + count_list ops (Add_once ev l)"
    using assms
  proof (induction ops arbitrary: em w ds em' w')
    case (Cons op ops)
    show ?case
    proof (cases "\<exists>ev'. op = Emit ev'")
      case True
      then obtain ev' where op: "op = Emit ev'" by blast
      obtain r em1 w1 where e: "emit go ev' em w = (r, em1, w1)" by (metis prod_cases3)
      obtain ds1 em2 w2 where run: "em_run go ops em1 w1 = (ds1, em2, w2)" by (metis prod_cases3)
      have ds: "ds = map (Pair ev') (deliveries go ev' em w) @ ds1" using Cons.prems(1) op e run by simp
      note c = emit_consumes_once [OF Cons.prems(2) e]
      have "count_list ds1 (ev, l) \<le> once_count ev l em1 + count_list ops (Add_once ev l)"
        using Cons.IH [OF run c(2)] Cons.prems(3) by simp
      with c(1) ds op show ?thesis by simp
    next
      case False
      then have run: "em_run go ops (em_apply op em) w = (ds, em', w')"
        using Cons.prems(1) em_run_other by metis
      have "l \<notin> set (listed (em_listeners (em_apply op em)) ev)"
        using em_apply_persistent [OF Cons.prems(2), of op] Cons.prems(3) by auto
      from Cons.IH [OF run this] Cons.prems(3) em_apply_once [of ev l op em] show ?thesis by (simp split: if_splits)
    qed
  qed simp
  then show ?thesis by (simp add: once_count_def)
qed

definition function_object :: py_object where
  "function_object = plain_object\<lparr>po_function_or_builtin := True\<rparr>"

definition listener_args :: "nat \<Rightarrow> go_args" where
  "listener_args l = \<lparr>ga_origin = ''go:listener'', ga_runner = l, ga_context = 0, ga_on_success = None,
     ga_on_error = None, ga_on_finally = None\<rparr>"

definition two_listeners :: emitter where
  "two_listeners = emitter_init\<lparr>em_listeners := [''e'' \<mapsto> [5]], em_once := [''e'' \<mapsto> [6]]\<rparr>"

definition no_call :: "nat \<Rightarrow> (nat, nat) world \<Rightarrow> (nat exc + response) \<times> (nat, nat) world" where
  "no_call t w = (Inl TypeError, w)"

lemma two_listeners_emitted:
  "fst (emit (stage_go on_loop 0 10 (\<lambda>_. function_object) no_call False listener_args) ''e'' two_listeners empty_world)
     = Inr [Handle_response 0, Handle_response 1]"
  by code_simp

theorem once_listener_at_most_once_witness:
  "count_list (fst (em_run (stage_go on_loop 0 10 (\<lambda>_. function_object) no_call False listener_args)
     [Emit ''e'', Emit ''e'', Add_once ''e'' 6, Emit ''e''] two_listeners empty_world)) (''e'', 6) \<le> 2"
proof -
  obtain ds em w where r: "em_run (stage_go on_loop 0 10 (\<lambda>_. function_object) no_call False listener_args)
     [Emit ''e'', Emit ''e'', Add_once ''e'' 6, Emit ''e''] two_listeners empty_world = (ds, em, w)"
    by (metis prod_cases3)
  from once_listener_at_most_once [OF r, of 6 "''e''"] r show ?thesis
    by (simp add: two_listeners_def emitter_init_def)
qed



text \<open>A listener that a submission refuses takes the later once listeners with it: \<open>emit\<close> has already
  removed them from the registry when \<open>go\<close> raises for an earlier one, so they are neither submitted
  nor registered any more.\<close>

theorem failed_emit_drops_once_listeners:
  "let em = emitter_init\<lparr>em_once := [''e'' \<mapsto> [4, 6]]\<rparr>;
       go = stage_go on_loop 0 10 (\<lambda>t. if t = 4 then plain_object else function_object) no_call False listener_args
   in fst (emit go ''e'' em empty_world) = Inl TypeError
      \<and> deliveries go ''e'' em empty_world = []
      \<and> listener_count ''e'' (fst (snd (emit go ''e'' em empty_world))) = 0"
  by code_simp

text \<open>A close that the scope refuses is lost: from work the emitter's own scope runs (a listener), \<open>close\<close>
  marks the emitter closed and then raises, leaving the scope as it was; every later \<open>close\<close>, from
  anywhere, returns without an error and without closing the scope, and no operation reopens it.\<close>

theorem close_from_listener_is_lost:
  assumes "owns_current_execution en st" "\<not> em_closed em"
  shows "emitter_close origin en obs final em st = Some (Inl StageLifecycleError, em\<lparr>em_closed := True\<rparr>, st)
    \<and> emitter_close origin' en' obs' final' (em\<lparr>em_closed := True\<rparr>) st' = Some (Inr (), em\<lparr>em_closed := True\<rparr>, st')
    \<and> emit go ev (em\<lparr>em_closed := True\<rparr>) w = (Inl StageClosedError, em\<lparr>em_closed := True\<rparr>, w)"
  using assms by (auto simp: emitter_close_def emit_cases close_def ensure_not_owned_self_wait_def
      owns_current_execution_def split: option.splits)

theorem close_from_listener_is_lost_witness:
  "emitter_close (\<lambda>_. '''') inside [] (id_stage limited_busy) emitter_init (id_stage limited_busy)
     = Some (Inl StageLifecycleError, emitter_init\<lparr>em_closed := True\<rparr>, id_stage limited_busy)
   \<and> \<not> st_sealed (id_stage limited_busy)"
proof -
  have "owns_current_execution inside (id_stage limited_busy)" "\<not> st_sealed (id_stage limited_busy)"
    "\<not> em_closed emitter_init"
    by (simp_all add: owns_current_execution_def inside_def outside_def idle_eval emitter_init_def)
  with close_from_listener_is_lost [of inside "id_stage limited_busy" emitter_init "\<lambda>_. ''''" "[]" "id_stage limited_busy"
      "\<lambda>_. ''''" outside "[]" "id_stage limited_busy" "id_stage limited_busy" "\<lambda>_ w. (Inr (), w)" "[]" "()"]
  show ?thesis by blast
qed

end
