(* ===== verification/Stage_Function.thy ===== *)
theory Stage_Function
  imports Go_Model Scope_Props
begin

text \<open>
  \<open>StageFunction.py\<close>: a callable that submits itself once and then hands out the same response.
  \<open>go t\<close> is \<open>self._stage.go(self._func, *args, **kwargs)\<close> for the call \<open>t\<close>; the methods run under
  \<open>_response_lock\<close>.
\<close>

section \<open>Operations\<close>

record 'h stage_function =
  sf_response :: "'h option"
  sf_started :: bool

definition sf_init :: "'h stage_function" where
  "sf_init = \<lparr>sf_response = None, sf_started = False\<rparr>"

definition sf_go ::
  "('t \<Rightarrow> 'w \<Rightarrow> ('x + 'h) \<times> 'w) \<Rightarrow> 't \<Rightarrow> 'h stage_function \<Rightarrow> 'w \<Rightarrow> ('x + 'h) \<times> 'h stage_function \<times> 'w" where
  "sf_go go t f w =
     (case sf_response f of
        Some h \<Rightarrow> (Inr h, f, w)
      | None \<Rightarrow>
          (case go t w of
             (Inl e, w1) \<Rightarrow> (Inl e, f, w1)
           | (Inr h, w1) \<Rightarrow> (Inr h, f\<lparr>sf_response := Some h, sf_started := True\<rparr>, w1)))"

text \<open>\<open>get\<close>: \<open>result h\<close> is what \<open>get()\<close> of the response returns or raises.\<close>

definition sf_get ::
  "('t \<Rightarrow> 'w \<Rightarrow> ('x + 'h) \<times> 'w) \<Rightarrow> ('h \<Rightarrow> 'x + 'v) \<Rightarrow> 't \<Rightarrow> 'h stage_function \<Rightarrow> 'w
   \<Rightarrow> ('x + 'v) \<times> 'h stage_function \<times> 'w" where
  "sf_get go result t f w =
     (case sf_go go t f w of (Inl e, f1, w1) \<Rightarrow> (Inl e, f1, w1) | (Inr h, f1, w1) \<Rightarrow> (result h, f1, w1))"

text \<open>
  \<open>wait\<close>: \<open>started\<close> is the answer of the started event; \<open>Inr None\<close> is the Python \<open>None\<close>, for a function
  that did not start in time, was reset meanwhile or raised an \<open>Exception\<close> that is to be hidden.
\<close>

definition sf_wait ::
  "('x \<Rightarrow> bool) \<Rightarrow> ('h \<Rightarrow> 'x + 'v) \<Rightarrow> bool \<Rightarrow> bool \<Rightarrow> 'h stage_function \<Rightarrow> 'x + 'v option" where
  "sf_wait is_exception result started no_exception f =
     (if \<not> started then Inr None
      else case sf_response f of
             None \<Rightarrow> Inr None
           | Some h \<Rightarrow>
               (case result h of
                  Inr v \<Rightarrow> Inr (Some v)
                | Inl e \<Rightarrow> (if is_exception e \<and> no_exception then Inr None else Inl e)))"

definition sf_reset :: "'h stage_function \<Rightarrow> 'h stage_function" where
  "sf_reset f = f\<lparr>sf_started := False, sf_response := None\<rparr>"

section \<open>Sequences of calls\<close>

fun sf_calls ::
  "('t \<Rightarrow> 'w \<Rightarrow> ('x + 'h) \<times> 'w) \<Rightarrow> 't list \<Rightarrow> 'h stage_function \<Rightarrow> 'w \<Rightarrow> ('x + 'h) list \<times> 'h stage_function \<times> 'w" where
  "sf_calls go [] f w = ([], f, w)"
| "sf_calls go (t # ts) f w =
     (case sf_go go t f w of (r, f1, w1) \<Rightarrow>
      case sf_calls go ts f1 w1 of (rs, f2, w2) \<Rightarrow> (r # rs, f2, w2))"

lemma sf_calls_cached:
  "sf_response f = Some h \<Longrightarrow> sf_calls go ts f w = (replicate (length ts) (Inr h), f, w)"
  by (induction ts) (simp_all add: sf_go_def)

lemma sf_calls_shape:
  assumes "sf_response f = None" "sf_calls go ts f w = (rs, f', w')"
  shows "(\<exists>es. rs = map Inl es \<and> sf_response f' = None)
    \<or> (\<exists>es k i. rs = map Inl es @ replicate (Suc k) (Inr i) \<and> sf_response f' = Some i \<and> sf_started f')"
  using assms
proof (induction ts arbitrary: w rs)
  case (Cons t ts)
  obtain r w1 where g: "go t w = (r, w1)" by fastforce
  show ?case
  proof (cases r)
    case (Inl e)
    obtain rs1 where rs: "rs = Inl e # rs1" "sf_calls go ts f w1 = (rs1, f', w')"
      using Cons.prems g Inl by (auto simp: sf_go_def split: prod.splits)
    from Cons.IH [OF Cons.prems(1) rs(2)] show ?thesis
      by (metis (no_types, lifting) rs(1) list.simps(9) append_Cons)
  next
    case (Inr h)
    have "rs = replicate (Suc (length ts)) (Inr h) \<and> f' = f\<lparr>sf_response := Some h, sf_started := True\<rparr>"
      using Cons.prems g Inr by (auto simp: sf_go_def sf_calls_cached split: prod.splits)
    then have "rs = map Inl [] @ replicate (Suc (length ts)) (Inr h) \<and> sf_response f' = Some h \<and> sf_started f'"
      by simp
    then show ?thesis by blast
  qed
qed simp

context fresh_submission
begin

lemma sf_calls_bound:
  assumes "list_all fresh_task ts" "sf_response f = None" "sf_calls go ts f w = (rs, f', w')" "sf_response f' = Some i"
  shows "key i < bound w'"
  using assms
proof (induction ts arbitrary: w rs)
  case (Cons t ts)
  obtain r w1 where g: "go t w = (r, w1)" by fastforce
  show ?case
  proof (cases r)
    case (Inl e)
    then show ?thesis using Cons g by (auto simp: sf_go_def split: prod.splits)
  next
    case (Inr h)
    have "h = i \<and> w' = w1"
      using Cons.prems g Inr by (auto simp: sf_go_def sf_calls_cached split: prod.splits)
    with go_fresh [of t w h w1] g Inr Cons.prems(1) show ?thesis by simp
  qed
qed simp

end

section \<open>Properties\<close>


definition one_call :: go_args where
  "one_call = \<lparr>ga_origin = ''go:job'', ga_runner = 1, ga_context = 0, ga_on_success = None,
     ga_on_error = None, ga_on_finally = None\<rparr>"

lemma three_calls:
  "fst (sf_calls (go_scalar on_loop None) [one_call, one_call, one_call] sf_init empty_world) = [Inr 0, Inr 0, Inr 0]"
  by code_simp


end
