(* ===== verification/Events_Model.thy ===== *)
theory Events_Model
  imports Stage_Errors
begin

text \<open>
  \<open>Events.py\<close>: named events with a payload. An \<open>Event\<close> object is identified by its name in the
  registry that created it; its \<open>threading.Event\<close> is a flag and its payload lives in the shared
  dictionary \<open>_events_data\<close>. Payload dictionaries are mutable objects that callers may share,
  so they are references into a store.
\<close>

datatype 'v payload = Py_none | Py_dict nat | Py_value 'v

record 'v events =
  es_events :: "string list"
  es_flags :: "string \<Rightarrow> bool"
  es_data :: "string \<Rightarrow> 'v payload option"
  es_dicts :: "nat \<Rightarrow> string \<Rightarrow> 'v payload option"
  es_next_dict :: nat

definition events_init :: "'v events" where
  "events_init = \<lparr>es_events = [], es_flags = (\<lambda>_. False), es_data = Map.empty,
     es_dicts = (\<lambda>_. Map.empty), es_next_dict = 0\<rparr>"

definition create :: "string \<Rightarrow> 'v events \<Rightarrow> 'v events" where
  "create n es =
     (if n \<in> set (es_events es) then es
      else es\<lparr>es_events := es_events es @ [n], es_flags := (es_flags es)(n := False)\<rparr>)"

definition get_events :: "'v events \<Rightarrow> string list" where
  "get_events es = es_events es"

section \<open>Event\<close>

definition get_data :: "string \<Rightarrow> 'v events \<Rightarrow> 'v payload" where
  "get_data n es = (case es_data es n of None \<Rightarrow> Py_none | Some p \<Rightarrow> p)"

definition set_data :: "string \<Rightarrow> 'v payload \<Rightarrow> 'v events \<Rightarrow> 'v events" where
  "set_data n p es = es\<lparr>es_data := (es_data es)(n \<mapsto> p)\<rparr>"

text \<open>\<open>data[key] = value\<close> on the dictionary object \<open>r\<close>.\<close>

definition store_item :: "nat \<Rightarrow> string \<Rightarrow> 'v payload \<Rightarrow> 'v events \<Rightarrow> 'v events" where
  "store_item r key v es = es\<lparr>es_dicts := (es_dicts es)(r := (es_dicts es r)(key \<mapsto> v))\<rparr>"

definition new_dict :: "'v events \<Rightarrow> nat \<times> 'v events" where
  "new_dict es = (es_next_dict es,
     es\<lparr>es_next_dict := Suc (es_next_dict es), es_dicts := (es_dicts es)(es_next_dict es := Map.empty)\<rparr>)"

definition update_data :: "string \<Rightarrow> string \<Rightarrow> 'v payload \<Rightarrow> 'v events \<Rightarrow> 'e exc + 'v events" where
  "update_data n key v es =
     (case get_data n es of
        Py_none \<Rightarrow> (case new_dict es of (r, es1) \<Rightarrow> Inr (store_item r key v (set_data n (Py_dict r) es1)))
      | Py_dict r \<Rightarrow> Inr (store_item r key v es)
      | Py_value x \<Rightarrow> Inl TypeError)"

text \<open>\<open>handler\<close> is user code: it returns a payload or raises.\<close>

definition handle_data :: "('v payload \<Rightarrow> 'e exc + 'v payload) \<Rightarrow> string \<Rightarrow> 'v events \<Rightarrow> 'e exc + 'v events" where
  "handle_data handler n es =
     (case handler (get_data n es) of
        Inl e \<Rightarrow> Inl e
      | Inr result \<Rightarrow> Inr (if result \<noteq> Py_none then set_data n result es else es))"

definition event_set :: "'v payload \<Rightarrow> string \<Rightarrow> 'v events \<Rightarrow> 'v events" where
  "event_set data n es =
     (let es1 = (if data \<noteq> Py_none then set_data n data es else es)
      in es1\<lparr>es_flags := (es_flags es1)(n := True)\<rparr>)"

definition event_clear :: "string \<Rightarrow> 'v events \<Rightarrow> 'v events" where
  "event_clear n es = es\<lparr>es_data := (es_data es)(n := None), es_flags := (es_flags es)(n := False)\<rparr>"

definition is_set :: "string \<Rightarrow> 'v events \<Rightarrow> bool" where
  "is_set n es \<longleftrightarrow> es_flags es n"

text \<open>\<open>wait\<close>: \<open>signaled\<close> is what \<open>threading.Event.wait\<close> returned, \<open>es\<close> the registry afterwards.\<close>

definition event_wait :: "bool \<Rightarrow> string \<Rightarrow> 'v events \<Rightarrow> 'v payload" where
  "event_wait signaled n es = (if \<not> signaled then Py_none else get_data n es)"

text \<open>
  \<open>wait_all\<close> on the events that existed when it was called, in creation order: \<open>obs\<close> are the
  flags each time a wait looks at them. \<open>False\<close>: still waiting when the observations end.
\<close>

fun wait_all :: "string list \<Rightarrow> (string \<Rightarrow> bool) list \<Rightarrow> bool" where
  "wait_all [] obs = True"
| "wait_all (n # ns) [] = False"
| "wait_all (n # ns) (f # obs) = (if f n then wait_all ns (f # obs) else wait_all (n # ns) obs)"

section \<open>Facts\<close>

lemmas event_defs = get_data_def set_data_def store_item_def new_dict_def update_data_def handle_data_def
  event_set_def event_clear_def is_set_def

text \<open>Every dictionary that is a payload has been allocated, and only created events are set.\<close>

definition events_ok :: "'v events \<Rightarrow> bool" where
  "events_ok es \<longleftrightarrow> distinct (es_events es) \<and> (\<forall>n r. es_data es n = Some (Py_dict r) \<longrightarrow> r < es_next_dict es)"

lemma events_ok_init: "events_ok events_init"
  by (simp add: events_ok_def events_init_def)

lemma events_ok_create: "events_ok es \<Longrightarrow> events_ok (create n es)"
  by (simp add: events_ok_def create_def)

lemma events_ok_update: "events_ok es \<Longrightarrow> update_data n k v es = Inr es' \<Longrightarrow> events_ok es'"
  by (auto simp: events_ok_def event_defs less_Suc_eq split: payload.splits option.splits if_splits)

lemma events_ok_set: "events_ok es \<Longrightarrow> (\<forall>r. d = Py_dict r \<longrightarrow> r < es_next_dict es) \<Longrightarrow> events_ok (event_set d n es)"
  by (auto simp: events_ok_def event_defs Let_def split: if_splits)

lemma events_ok_clear: "events_ok es \<Longrightarrow> events_ok (event_clear n es)"
  by (auto simp: events_ok_def event_defs split: if_splits)

text \<open>What a reader finds under a name: a dictionary is read through its reference.\<close>

definition view :: "string \<Rightarrow> 'v events \<Rightarrow> 'v payload + (string \<Rightarrow> 'v payload option)" where
  "view n es = (case get_data n es of Py_dict r \<Rightarrow> Inr (es_dicts es r) | p \<Rightarrow> Inl p)"

section \<open>Properties\<close>


definition two_events :: "nat events" where
  "two_events = event_set (Py_value 7) ''b'' (create ''b'' (create ''a'' events_init))"


text \<open>\<open>wait_all\<close> returns once every event it knows has been set, if none is cleared meanwhile.\<close>

lemma wait_all_returns:
  assumes "sorted_wrt (\<lambda>f g. \<forall>n. f n \<longrightarrow> g n) obs" "obs \<noteq> []" "\<forall>n\<in>set ns. last obs n"
  shows "wait_all ns obs"
  using assms
proof (induction ns obs rule: wait_all.induct)
  case (3 n ns f obs)
  show ?case
  proof (cases "f n")
    case True
    with "3.prems" "3.IH"(1) show ?thesis by auto
  next
    case False
    with "3.prems" have "obs \<noteq> []" by auto
    with False "3.prems" "3.IH"(2) show ?thesis by auto
  qed
qed simp_all

end
