(* ===== verification/Local_Scope.thy ===== *)
theory Local_Scope
  imports Scope_Calls
begin

text \<open>
  \<open>LocalTaskScope.py\<close>, the deprecated facade over a caller-loop scope, and \<open>StageDispatch.py\<close>, the
  dispatcher facade over a carrier scope. Both add a little state of their own to a scope; the
  operations below change that state and call the scope's.
\<close>

section \<open>\<open>LocalTaskScope\<close>\<close>

record local_scope =
  ls_loop :: "loop_ref option"
  ls_on_done :: "callable_ref option"
  ls_closed :: bool
  ls_close_completed :: bool

definition local_scope_init :: "callable_ref option \<Rightarrow> local_scope" where
  "local_scope_init on_done =
     \<lparr>ls_loop = None, ls_on_done = on_done, ls_closed = False, ls_close_completed = False\<rparr>"

definition bind_running_loop :: "env \<Rightarrow> local_scope \<Rightarrow> ('e exc + loop_ref) \<times> local_scope" where
  "bind_running_loop en ls =
     (case cl_running_loop (en_caller en) of
        None \<Rightarrow> (Inl RuntimeError, ls)
      | Some l \<Rightarrow>
          (case ls_loop ls of
             None \<Rightarrow> (Inr l, ls\<lparr>ls_loop := Some l\<rparr>)
           | Some k \<Rightarrow> (if k \<noteq> l then (Inl StageLifecycleError, ls) else (Inr l, ls))))"

definition spawn ::
  "env \<Rightarrow> bool \<Rightarrow> 'e option \<Rightarrow> string \<Rightarrow> local_scope \<Rightarrow> ('v, 'e) world
   \<Rightarrow> ('e exc + task_ref) \<times> local_scope \<times> ('v, 'e) world" where
  "spawn en is_coroutine failure origin ls w =
     (if ls_closed ls then (Inl StageClosedError, ls, w)
      else case bind_running_loop en ls of
             (Inl e, ls1) \<Rightarrow> (Inl e, ls1, w)
           | (Inr _, ls1) \<Rightarrow> (case create_task en is_coroutine failure origin w of (r, w1) \<Rightarrow> (r, ls1, w1)))"

definition local_adopt ::
  "env \<Rightarrow> task_ref \<Rightarrow> loop_ref \<Rightarrow> string \<Rightarrow> local_scope \<Rightarrow> ('v, 'e) world
   \<Rightarrow> ('e exc + unit) \<times> local_scope \<times> ('v, 'e) world" where
  "local_adopt en task loop origin ls w =
     (if ls_closed ls then (Inl StageClosedError, ls, w)
      else case bind_running_loop en ls of
             (Inl e, ls1) \<Rightarrow> (Inl e, ls1, w)
           | (Inr _, ls1) \<Rightarrow>
               (if ls_loop ls1 \<noteq> Some loop then (Inl StageLifecycleError, ls1, w)
                else case adopt en task loop origin w of (r, w1) \<Rightarrow> (r, ls1, w1)))"

text \<open>\<open>_task_done\<close>: the observation given to \<open>on_done\<close>, and what goes to the loop's exception handler
  when the observer raises (\<open>observer_error\<close>).\<close>

datatype 'e task_end = Task_result | Task_error 'e | Task_cancelled

record 'e local_task_outcome =
  lo_task :: task_ref
  lo_origin :: string
  lo_cancelled :: bool
  lo_error :: "'e option"

definition task_outcome :: "task_ref \<Rightarrow> string \<Rightarrow> 'e task_end \<Rightarrow> 'e local_task_outcome" where
  "task_outcome task origin ending = \<lparr>lo_task = task, lo_origin = origin, lo_cancelled = (ending = Task_cancelled),
     lo_error = (case ending of Task_error e \<Rightarrow> Some e | _ \<Rightarrow> None)\<rparr>"

definition local_task_done ::
  "task_ref \<Rightarrow> string \<Rightarrow> 'e task_end \<Rightarrow> 'e option \<Rightarrow> local_scope
   \<Rightarrow> (callable_ref \<times> 'e local_task_outcome) option \<times> 'e option" where
  "local_task_done task origin ending observer_error ls =
     (case ls_on_done ls of
        None \<Rightarrow> (None, None)
      | Some f \<Rightarrow> (Some (f, task_outcome task origin ending),
                  if ls_loop ls = None then None else observer_error))"

definition local_wait_settled ::
  "(nat \<Rightarrow> string) \<Rightarrow> env \<Rightarrow> clock option \<Rightarrow> ('e stage \<times> clock) list \<Rightarrow> 'e stage \<Rightarrow> 'e stage \<Rightarrow> local_scope
   \<Rightarrow> ('e exc + unit) option \<times> local_scope" where
  "local_wait_settled origin en timeout obs final st ls =
     (case bind_running_loop en ls of
        (Inl e, ls1) \<Rightarrow> (Some (Inl e), ls1)
      | (Inr _, ls1) \<Rightarrow> (async_wait_settled origin en timeout obs final st, ls1))"

definition local_cancel_and_wait ::
  "env \<Rightarrow> (task_ref \<Rightarrow> bool) \<Rightarrow> ('e exc + unit) \<Rightarrow> local_scope \<Rightarrow> ('v, 'e) world
   \<Rightarrow> ('e exc + bool) \<times> local_scope \<times> ('v, 'e) world" where
  "local_cancel_and_wait en task_done waited ls w =
     (case bind_running_loop en ls of
        (Inl e, ls1) \<Rightarrow> (Inl e, ls1, w)
      | (Inr _, ls1) \<Rightarrow>
          (case async_cancel_and_wait_settled en task_done waited w of (r, w1) \<Rightarrow> (r, ls1, w1)))"

text \<open>\<open>close\<close>: \<open>w1\<close> is the world when the cancellation, if asked for, has been waited for, and \<open>final\<close>
  the scope when the close itself ends its wait.\<close>

definition local_close ::
  "(nat \<Rightarrow> string) \<Rightarrow> env \<Rightarrow> (task_ref \<Rightarrow> bool) \<Rightarrow> ('e exc + unit) option \<Rightarrow> ('e stage \<times> clock) list \<Rightarrow> 'e stage
   \<Rightarrow> clock option \<Rightarrow> local_scope \<Rightarrow> ('v, 'e) world \<Rightarrow> (('e exc + unit) \<times> local_scope \<times> ('v, 'e) world) option" where
  "local_close origin en task_done cancel_waited obs final timeout ls w =
     (case bind_running_loop en ls of
        (Inl e, ls1) \<Rightarrow> Some (Inl e, ls1, w)
      | (Inr _, ls1) \<Rightarrow>
          (if ls_close_completed ls1 then Some (Inr (), ls1, w)
           else let ls2 = ls1\<lparr>ls_closed := True\<rparr> in
             case (case cancel_waited of
                     None \<Rightarrow> (Inr True, w)
                   | Some waited \<Rightarrow> async_cancel_and_wait_settled en task_done waited w) of
               (Inl e, w1) \<Rightarrow> Some (Inl e, ls2, w1)
             | (Inr _, w1) \<Rightarrow>
                 (case async_close origin en timeout obs final (w_stage w1) of
                    None \<Rightarrow> None
                  | Some (Inl e, st) \<Rightarrow> Some (Inl e, ls2, w1\<lparr>w_stage := st\<rparr>)
                  | Some (Inr _, st) \<Rightarrow> Some (Inr (), ls2\<lparr>ls_close_completed := True\<rparr>, w1\<lparr>w_stage := st\<rparr>))))"

definition adopted_tasks :: "('v, 'e) world \<Rightarrow> task_ref list" where
  "adopted_tasks w = map fst (st_adopted_tasks (w_stage w))"

definition pending_origins :: "('v, 'e) world \<Rightarrow> string list" where
  "pending_origins w = sort (List.map_filter (\<lambda>t. origin_for_adopted t w) (adopted_tasks w))"

section \<open>\<open>StageDispatch\<close>\<close>

record 'e dispatch_environment =
  de_auto_close :: bool
  de_closing :: bool
  de_exceptions :: "'e stage_exception"

text \<open>The environment builds a carrier scope; the dispatcher adds nothing of its own to it.\<close>

definition dispatch_args :: "int option \<Rightarrow> stage_args" where
  "dispatch_args max_workers = \<lparr>sa_loop = Arg_stage, sa_max_concurrency = None, sa_max_pending = None,
     sa_idle_timeout = None, sa_max_workers = max_workers, sa_executor = False, sa_on_adopted_done = None\<rparr>"

definition dispatch_init ::
  "nat \<Rightarrow> clock \<Rightarrow> int option \<Rightarrow> bool \<Rightarrow> 'e exc + ('e dispatch_environment \<times> 'e stage)" where
  "dispatch_init ref now max_workers auto_close =
     map_sum id (Pair \<lparr>de_auto_close = auto_close, de_closing = False, de_exceptions = stage_exception_init\<rparr>)
       (stage_init ref now (dispatch_args max_workers))"

definition dispatch_raise :: "'e \<Rightarrow> 'e exc + unit" where
  "dispatch_raise e = Inl (Raised e)"

text \<open>\<open>run_sync_function\<close>, \<open>run_async_function\<close> and \<open>to_executor\<close> submit and hand out the body future
  of the handle; a stream has none, which Python reports as \<open>AttributeError\<close> (\<open>no_future\<close>).\<close>

definition dispatch_run ::
  "'e exc \<Rightarrow> ('t \<Rightarrow> 'w \<Rightarrow> ('e exc + response) \<times> 'w) \<Rightarrow> 't \<Rightarrow> 'w \<Rightarrow> ('e exc + nat) \<times> 'w" where
  "dispatch_run no_future go task w =
     (case go task w of
        (Inl e, w1) \<Rightarrow> (Inl e, w1)
      | (Inr (Handle_response i), w1) \<Rightarrow> (Inr i, w1)
      | (Inr (Stream_response ss), w1) \<Rightarrow> (Inl no_future, w1))"

definition dispatch_close ::
  "(nat \<Rightarrow> string) \<Rightarrow> env \<Rightarrow> ('e stage \<times> clock) list \<Rightarrow> 'e stage \<Rightarrow> 'e dispatch_environment \<Rightarrow> 'e stage
   \<Rightarrow> (('e exc + unit) \<times> 'e dispatch_environment \<times> 'e stage) option" where
  "dispatch_close origin en obs final de st =
     (if de_closing de then Some (Inr (), de, st)
      else map_option (\<lambda>(r, st1). (r, de\<lparr>de_closing := True\<rparr>, st1)) (close origin en None obs final st))"

text \<open>\<open>TaskThreadPool.submit\<close>: awaitables go to a carrier scope of their own, the rest to the shared executor.\<close>

datatype 'r pool_submission = Pool_stage 'r | Pool_executor

definition pool_submit ::
  "bool \<Rightarrow> py_object \<Rightarrow> ('t \<Rightarrow> 'w \<Rightarrow> ('e exc + nat) \<times> 'w) \<Rightarrow> 't \<Rightarrow> 'w \<Rightarrow> ('e exc + nat) pool_submission \<times> 'w" where
  "pool_submit is_awaitable p go task w =
     (if is_awaitable \<or> po_coroutinefunction p then (case go task w of (r, w1) \<Rightarrow> (Pool_stage r, w1))
      else (Pool_executor, w))"

section \<open>Properties\<close>

lemma bind_running_loop_cases:
  assumes "cl_running_loop (en_caller en) = Some k"
  shows "bind_running_loop en ls =
    (if ls_loop ls = None then (Inr k, ls\<lparr>ls_loop := Some k\<rparr>)
     else if ls_loop ls = Some k then (Inr k, ls) else (Inl StageLifecycleError, ls))"
  using assms by (auto simp: bind_running_loop_def split: option.splits)

lemma local_close_result:
  assumes "local_close org en task_done cw obs final timeout ls w = Some (Inr (), ls1, w1)"
    and "ls_close_completed ls \<longrightarrow> ls_closed ls"
  shows "ls_closed ls1 \<and> ls_close_completed ls1 \<and> ls_loop ls1 = cl_running_loop (en_caller en) \<and> ls_loop ls1 \<noteq> None"
proof -
  obtain k where k: "cl_running_loop (en_caller en) = Some k"
    using assms(1) by (cases "cl_running_loop (en_caller en)") (auto simp: local_close_def bind_running_loop_def)
  obtain b where b: "bind_running_loop en ls = (Inr k :: 'a exc + _, b)" "ls_loop b = Some k"
      "ls_close_completed b = ls_close_completed ls" "ls_closed b = ls_closed ls"
    using assms(1) by (auto simp: bind_running_loop_cases [OF k] local_close_def split: if_splits)
  show ?thesis
  proof (cases "ls_close_completed ls")
    case True
    with assms b k show ?thesis by (auto simp: local_close_def)
  next
    case False
    define q where "q = (case cw of None \<Rightarrow> (Inr True, w)
      | Some waited \<Rightarrow> async_cancel_and_wait_settled en task_done waited w)"
    show ?thesis
      using assms(1) False b k
      by (auto simp: local_close_def Let_def q_def [symmetric] split: prod.splits sum.splits option.splits)
  qed
qed

lemma local_close_final:
  assumes "local_close org en task_done cw obs final timeout ls w = Some (Inr (), ls1, w1)"
    and "ls_close_completed ls \<longrightarrow> ls_closed ls"
  shows "local_close org en task_done cw' obs' final' timeout' ls1 w2 = Some (Inr (), ls1, w2)
    \<and> spawn en c failure origin ls1 w2 = (Inl StageClosedError, ls1, w2)"
proof -
  from local_close_result [OF assms] obtain k where "cl_running_loop (en_caller en) = Some k"
    "ls_loop ls1 = Some k" "ls_closed ls1" "ls_close_completed ls1" by (metis option.exhaust)
  then show ?thesis by (simp add: local_close_def spawn_def bind_running_loop_cases)
qed



lemma map_filter_assoc:
  "distinct (map fst xs) \<Longrightarrow> List.map_filter (\<lambda>t. map_of xs t) (map fst xs) = map snd xs"
proof (induction xs)
  case (Cons p xs)
  have "map_of (p # xs) t = map_of xs t" if "t \<in> set (map fst xs)" for t
    using that Cons.prems by (cases p) auto
  then have "List.map_filter (map_of (p # xs)) (map fst xs) = List.map_filter (map_of xs) (map fst xs)"
    unfolding List.map_filter_def by (intro map_cong filter_cong) auto
  with Cons show ?case by (cases p) (simp add: List.map_filter_simps fun_upd_def)
qed (simp add: List.map_filter_simps)

text \<open>The pending origins of a local scope are the unresolved origins that \<open>wait_settled\<close> reports.\<close>

lemma pending_origins_are_unresolved:
  "distinct (map fst (st_adopted_tasks (w_stage w))) \<Longrightarrow> st_active_handles (w_stage w) = [] \<Longrightarrow>
   pending_origins w = active_origins origin (w_stage w)"
  by (simp add: pending_origins_def adopted_tasks_def origin_for_adopted_def map_filter_assoc active_origins_def)

lemma dispatch_close_once:
  "dispatch_close origin en obs final de st = Some (r, de1, st1) \<Longrightarrow>
   dispatch_close origin' en' obs' final' de1 st2 = Some (Inr (), de1, st2)"
  by (auto simp: dispatch_close_def split: if_splits)

lemma dispatch_init_fresh:
  "dispatch_init ref now max_workers auto_close = Inr (de, st) \<Longrightarrow>
   \<not> de_closing de \<and> \<not> st_sealed st \<and> st_active_handles st = [] \<and> st_backend_mode st = Mode_stage"
  by (auto simp: dispatch_init_def dispatch_args_def stage_init_def fresh_stage_def split: if_splits sum.splits)

lemma dispatch_init_refuses_workers:
  "dispatch_init ref now (Some n) auto_close = Inl e \<longleftrightarrow> n \<le> 0 \<and> e = ValueError"
  by (auto simp: dispatch_init_def dispatch_args_def stage_init_def split: if_splits)

end
