(* ===== verification/Task_Proxy.thy ===== *)
theory Task_Proxy
  imports Emitter
begin

text \<open>
  \<open>StageTask.py\<close>: the legacy callable with success, error and finally callbacks. What calling
  the wrapped function does is the argument \<open>called\<close>; running a callback (its submission by
  \<open>StageCallBackTask\<close> and the wait for its handle) is \<open>run\<close>, which gives the exception that
  leaves it, if any. \<open>is_exc e\<close>: \<open>e\<close> is an instance of \<open>Exception\<close>.
\<close>

section \<open>Callback tasks\<close>

definition is_closing :: "'e stage \<Rightarrow> bool" where
  "is_closing st = st_sealed st"

definition is_available :: "'e stage \<Rightarrow> bool" where
  "is_available st \<longleftrightarrow> \<not> st_sealed st"

text \<open>\<open>StageCallBackTask.__call__\<close> submits to its own stage while that is available, else to a new one.\<close>

definition selected_stage :: "'e stage option \<Rightarrow> 'e stage \<Rightarrow> 'e stage" where
  "selected_stage own new_stage =
     (case own of None \<Rightarrow> new_stage | Some st \<Rightarrow> if is_available st then st else new_stage)"

text \<open>\<open>_wait_callback\<close>: the handle with its body future and itself as the two waits find them.\<close>

definition wait_callback ::
  "('e \<Rightarrow> bool) \<Rightarrow> loop_ref option \<Rightarrow> (('v, 'e) body_future \<times> ('v, 'e) handle \<times> ('v, 'e) handle) option
   \<Rightarrow> 'e exc + unit" where
  "wait_callback is_timeout running x =
     (case x of
        None \<Rightarrow> Inr ()
      | Some (final, h, h') \<Rightarrow>
          (case handle_get is_timeout running final h of
             Inl e \<Rightarrow> Inl e | Inr _ \<Rightarrow> handle_wait_settled running True h h'))"

definition async_wait_callback :: "(('v, 'e) body_future \<times> ('v, 'e) handle) option \<Rightarrow> 'e exc + unit" where
  "async_wait_callback x =
     (case x of
        None \<Rightarrow> Inr ()
      | Some (final, h') \<Rightarrow>
          (case handle_async_get True final of Inl e \<Rightarrow> Inl e | Inr _ \<Rightarrow> handle_async_wait_settled True h'))"

section \<open>The proxy\<close>

record task_proxy =
  px_on_success :: "callable_ref option"
  px_on_error :: "callable_ref option"
  px_on_finally :: "callable_ref option"
  px_ignore_exception :: bool
  px_use_async :: bool

definition add_on_success :: "callable_ref \<Rightarrow> task_proxy \<Rightarrow> task_proxy" where
  "add_on_success f px = px\<lparr>px_on_success := Some f\<rparr>"

definition add_on_error :: "callable_ref \<Rightarrow> task_proxy \<Rightarrow> task_proxy" where
  "add_on_error f px = px\<lparr>px_on_error := Some f\<rparr>"

definition add_on_finally :: "callable_ref \<Rightarrow> task_proxy \<Rightarrow> task_proxy" where
  "add_on_finally f px = px\<lparr>px_on_finally := Some f\<rparr>"

datatype ('v, 'e) called = Call_raises "'e exc" | Call_returns 'v | Call_awaitable "'e exc + 'v"

datatype ('v, 'e) proxy_args = Arg_result 'v | Arg_error "'e exc" | Arg_none

text \<open>
  The three clauses of \<open>try\<close>, each with the invocations it makes: the success callback belongs to
  the \<open>try\<close> block, so its exception is handled like the function's own.
\<close>

definition proxy_try ::
  "(callable_ref \<Rightarrow> ('v, 'e) proxy_args \<Rightarrow> 'e exc option) \<Rightarrow> task_proxy \<Rightarrow> 'e exc + 'v
   \<Rightarrow> ('e exc + 'v) \<times> (callable_ref \<times> ('v, 'e) proxy_args) list" where
  "proxy_try run px out =
     (case out of
        Inl e \<Rightarrow> (Inl e, [])
      | Inr v \<Rightarrow>
          (case px_on_success px of
             None \<Rightarrow> (Inr v, [])
           | Some f \<Rightarrow> (case run f (Arg_result v) of None \<Rightarrow> Inr v | Some e \<Rightarrow> Inl e, [(f, Arg_result v)])))"

definition proxy_except ::
  "('e exc \<Rightarrow> bool) \<Rightarrow> (callable_ref \<Rightarrow> ('v, 'e) proxy_args \<Rightarrow> 'e exc option) \<Rightarrow> task_proxy \<Rightarrow> 'e exc + 'v
   \<Rightarrow> ('e exc + 'v option) \<times> (callable_ref \<times> ('v, 'e) proxy_args) list" where
  "proxy_except is_exc run px r =
     (case r of
        Inr v \<Rightarrow> (Inr (Some v), [])
      | Inl e \<Rightarrow>
          (if \<not> is_exc e then (Inl e, [])
           else let settled = (if px_ignore_exception px then Inr None else Inl e) in
             case px_on_error px of
               None \<Rightarrow> (settled, [])
             | Some f \<Rightarrow> (case run f (Arg_error e) of None \<Rightarrow> settled | Some e' \<Rightarrow> Inl e', [(f, Arg_error e)])))"

definition proxy_finally ::
  "(callable_ref \<Rightarrow> ('v, 'e) proxy_args \<Rightarrow> 'e exc option) \<Rightarrow> task_proxy \<Rightarrow> 'e exc + 'v option
   \<Rightarrow> ('e exc + 'v option) \<times> (callable_ref \<times> ('v, 'e) proxy_args) list" where
  "proxy_finally run px r =
     (case px_on_finally px of
        None \<Rightarrow> (r, [])
      | Some f \<Rightarrow> (case run f Arg_none of None \<Rightarrow> r | Some e \<Rightarrow> Inl e, [(f, Arg_none)]))"

definition proxy_run ::
  "('e exc \<Rightarrow> bool) \<Rightarrow> (callable_ref \<Rightarrow> ('v, 'e) proxy_args \<Rightarrow> 'e exc option) \<Rightarrow> task_proxy \<Rightarrow> 'e exc + 'v
   \<Rightarrow> ('e exc + 'v option) \<times> (callable_ref \<times> ('v, 'e) proxy_args) list" where
  "proxy_run is_exc run px out =
     (case proxy_try run px out of (r1, c1) \<Rightarrow>
      case proxy_except is_exc run px r1 of (r2, c2) \<Rightarrow>
      case proxy_finally run px r2 of (r3, c3) \<Rightarrow> (r3, c1 @ c2 @ c3))"

fun sync_outcome :: "('v, 'e) called \<Rightarrow> 'e exc + 'v" where
  "sync_outcome (Call_raises e) = Inl e"
| "sync_outcome (Call_returns v) = Inr v"
| "sync_outcome (Call_awaitable r) = Inl TypeError"

fun async_outcome :: "('v, 'e) called \<Rightarrow> 'e exc + 'v" where
  "async_outcome (Call_raises e) = Inl e"
| "async_outcome (Call_returns v) = Inr v"
| "async_outcome (Call_awaitable r) = r"

definition sync_run ::
  "('e exc \<Rightarrow> bool) \<Rightarrow> (callable_ref \<Rightarrow> ('v, 'e) proxy_args \<Rightarrow> 'e exc option) \<Rightarrow> task_proxy \<Rightarrow> ('v, 'e) called
   \<Rightarrow> ('e exc + 'v option) \<times> (callable_ref \<times> ('v, 'e) proxy_args) list" where
  "sync_run is_exc run px called = proxy_run is_exc run px (sync_outcome called)"

definition async_run ::
  "('e exc \<Rightarrow> bool) \<Rightarrow> (callable_ref \<Rightarrow> ('v, 'e) proxy_args \<Rightarrow> 'e exc option) \<Rightarrow> task_proxy \<Rightarrow> ('v, 'e) called
   \<Rightarrow> ('e exc + 'v option) \<times> (callable_ref \<times> ('v, 'e) proxy_args) list" where
  "async_run is_exc run px called = proxy_run is_exc run px (async_outcome called)"

definition proxy_call ::
  "('e exc \<Rightarrow> bool) \<Rightarrow> (callable_ref \<Rightarrow> ('v, 'e) proxy_args \<Rightarrow> 'e exc option) \<Rightarrow> task_proxy \<Rightarrow> ('v, 'e) called
   \<Rightarrow> ('e exc + 'v option) \<times> (callable_ref \<times> ('v, 'e) proxy_args) list" where
  "proxy_call is_exc run px called =
     (if px_use_async px then async_run is_exc run px called else sync_run is_exc run px called)"

lemmas proxy_defs = proxy_run_def proxy_try_def proxy_except_def proxy_finally_def

section \<open>Properties\<close>

definition invoked :: "callable_ref option \<Rightarrow> ('v, 'e) proxy_args \<Rightarrow> (callable_ref \<times> ('v, 'e) proxy_args) list" where
  "invoked f a = (case f of None \<Rightarrow> [] | Some g \<Rightarrow> [(g, a)])"

definition failure_of ::
  "(callable_ref \<Rightarrow> ('v, 'e) proxy_args \<Rightarrow> 'e exc option) \<Rightarrow> callable_ref option \<Rightarrow> ('v, 'e) proxy_args \<Rightarrow> 'e exc option" where
  "failure_of run f a = (case f of None \<Rightarrow> None | Some g \<Rightarrow> run g a)"

text \<open>A proxy runs its callbacks in the order success, error, finally. Which run and what comes out
  is determined by one error: the function's own or, after a value, the success callback's. Without
  one the success callback got the value, the error callback does not run and the value is
  returned; an \<open>Exception\<close> goes to the error callback and is raised or, when ignored, becomes \<open>None\<close>,
  unless that callback raises itself; anything else (a cancellation) passes both by. The finally
  callback always runs exactly once, last, and only its own exception replaces the outcome.\<close>

theorem proxy_callbacks_in_order:
  "let err = (case out of Inl e \<Rightarrow> Some e | Inr v \<Rightarrow> failure_of run (px_on_success px) (Arg_result v));
       success = (case out of Inl e \<Rightarrow> [] | Inr v \<Rightarrow> invoked (px_on_success px) (Arg_result v));
       handled = (case err of Some e \<Rightarrow> is_exc e | None \<Rightarrow> False);
       body = (case err of
           None \<Rightarrow> map_sum id Some out
         | Some e \<Rightarrow> (if is_exc e
             then case failure_of run (px_on_error px) (Arg_error e) of
                    Some e' \<Rightarrow> Inl e' | None \<Rightarrow> if px_ignore_exception px then Inr None else Inl e
             else Inl e))
   in proxy_run is_exc run px out =
     ((case failure_of run (px_on_finally px) Arg_none of Some e \<Rightarrow> Inl e | None \<Rightarrow> body),
      success @ (if handled then invoked (px_on_error px) (Arg_error (the err)) else [])
        @ invoked (px_on_finally px) Arg_none)"
  by (auto simp: proxy_defs invoked_def failure_of_def Let_def split: sum.splits option.splits)

text \<open>The synchronous and the asynchronous form agree on everything that is not awaitable, and on an
  awaitable the synchronous form behaves as if the function had raised \<open>TypeError\<close>.\<close>

theorem sync_and_async_proxy_agree:
  "proxy_call is_exc run px (Call_raises e) = proxy_run is_exc run px (Inl e)
   \<and> proxy_call is_exc run px (Call_returns v) = proxy_run is_exc run px (Inr v)
   \<and> proxy_call is_exc run (px\<lparr>px_use_async := True\<rparr>) (Call_awaitable r) = proxy_run is_exc run (px\<lparr>px_use_async := True\<rparr>) r
   \<and> proxy_call is_exc run (px\<lparr>px_use_async := False\<rparr>) (Call_awaitable r)
      = proxy_call is_exc run (px\<lparr>px_use_async := False\<rparr>) (Call_raises TypeError)"
  by (simp add: proxy_call_def sync_run_def async_run_def)

end
