(* ===== verification/Call_Bridge.thy ===== *)
theory Call_Bridge
  imports Local_Scope Task_Proxy
begin

text \<open>
  \<open>StageCallBridge.py\<close>: the bridge between call shapes. The bridge keeps two scopes and the set of
  the scopes it has routed synchronous calls through; scopes are references here, and what their
  operations return or raise is an argument, since the scope theories model them. Lists of
  references record which scopes an operation closes, in order.
\<close>

section \<open>State\<close>

record bridge =
  br_closing :: bool
  br_closed :: bool
  br_managed_by_default :: bool
  br_owns_submit_stage :: bool
  br_submit_stage :: nat
  br_carrier_stage :: nat
  br_routed_stages :: "nat list"

definition bridge_init :: "nat option \<Rightarrow> bool \<Rightarrow> nat \<Rightarrow> nat \<Rightarrow> bridge" where
  "bridge_init stage managed new_submit new_carrier =
     \<lparr>br_closing = False, br_closed = False, br_managed_by_default = managed,
      br_owns_submit_stage = (stage = None),
      br_submit_stage = (case stage of None \<Rightarrow> new_submit | Some s \<Rightarrow> s),
      br_carrier_stage = new_carrier, br_routed_stages = []\<rparr>"

definition bridge_ensure_open :: "bridge \<Rightarrow> 'e exc + unit" where
  "bridge_ensure_open br = (if br_closing br then Inl StageLifecycleError else Inr ())"

definition is_async_callable :: "py_object \<Rightarrow> bool \<Rightarrow> (nat \<Rightarrow> py_object) \<Rightarrow> bool" where
  "is_async_callable p is_callable heap \<longleftrightarrow>
     po_coroutinefunction p
     \<or> (is_callable \<and> (case po_call p of None \<Rightarrow> False | Some c \<Rightarrow> po_coroutinefunction (heap c)))"

text \<open>\<open>_requires_routed_sync_scope\<close>, for the carrier scope \<open>st\<close>.\<close>

definition requires_routed_sync_scope :: "env \<Rightarrow> 'e stage \<Rightarrow> carrier \<Rightarrow> bool" where
  "requires_routed_sync_scope en st c \<longleftrightarrow>
     inherited_caller_loop_for_sync en st \<noteq> None
     \<or> would_sync_wait_block_current_carrier (st_generation_lease st) (st_active_backend st) (en_caller en) c"

section \<open>Resolving an awaitable from synchronous code\<close>

text \<open>
  On the carrier scope: \<open>submitted\<close> is what \<open>go\<close> gives, \<open>result\<close> the body outcome, \<open>settled\<close> what
  \<open>wait_settled\<close> gives; the boolean says whether settlement was waited for.
\<close>

definition resolve_on_carrier ::
  "bool \<Rightarrow> 'e exc + unit \<Rightarrow> 'e exc + 'v \<Rightarrow> 'e exc + unit \<Rightarrow> ('e exc + 'v) \<times> bool" where
  "resolve_on_carrier managed submitted result settled =
     (case submitted of
        Inl e \<Rightarrow> (Inl e, False)
      | Inr _ \<Rightarrow>
          (if \<not> managed then (result, False)
           else case result of
                  Inl e \<Rightarrow> (Inl e, True)
                | Inr v \<Rightarrow> (case settled of Inl e \<Rightarrow> Inl e | Inr _ \<Rightarrow> Inr v, True)))"

text \<open>
  Through a routed scope \<open>s\<close>: what its operations give, and the count of active work of the scope
  when the call ends.
\<close>

record ('v, 'e) routed_call =
  rc_enter :: "'e exc + unit"
  rc_go :: "'e exc + unit"
  rc_result :: "'e exc + 'v"
  rc_close :: "'e exc + unit"
  rc_active_count :: nat

text \<open>The \<open>try\<close> block: the outcome, whether the scope was entered, sealed, closed, and whether the
  awaitable was closed unawaited.\<close>

record 'x routed_block =
  rb_outcome :: 'x
  rb_entered :: bool
  rb_sealed :: bool
  rb_closed :: bool
  rb_awaitable_closed :: bool

definition routed_try :: "bool \<Rightarrow> ('v, 'e) routed_call \<Rightarrow> ('e exc + 'v) routed_block" where
  "routed_try managed rc =
     (let blk = (\<lambda>out entered sealed on_close awaitable. \<lparr>rb_outcome = out, rb_entered = entered,
                  rb_sealed = sealed, rb_closed = on_close, rb_awaitable_closed = awaitable\<rparr>)
      in case rc_enter rc of
           Inl e \<Rightarrow> blk (Inl e) False False False False
         | Inr _ \<Rightarrow>
             (case rc_go rc of
                Inl e \<Rightarrow> blk (Inl e) True False False True
              | Inr _ \<Rightarrow>
                  (case rc_result rc of
                     Inl e \<Rightarrow> blk (Inl e) True True managed False
                   | Inr v \<Rightarrow>
                       (if managed
                        then blk (case rc_close rc of Inl e \<Rightarrow> Inl e | Inr _ \<Rightarrow> Inr v) True True True False
                        else blk (Inr v) True True False False))))"

definition resolve_in_routed_scope ::
  "bool \<Rightarrow> nat \<Rightarrow> ('v, 'e) routed_call \<Rightarrow> bridge \<Rightarrow> ('e exc + 'v) routed_block \<times> bridge" where
  "resolve_in_routed_scope managed s rc br =
     (if br_closing br
      then (\<lparr>rb_outcome = Inl StageLifecycleError, rb_entered = False, rb_sealed = False, rb_closed = False,
             rb_awaitable_closed = True\<rparr>, br)
      else let br1 = br\<lparr>br_routed_stages := List.insert s (br_routed_stages br)\<rparr>;
               b = routed_try managed rc;
               b1 = (if \<not> rb_entered b then b\<lparr>rb_closed := True\<rparr> else b)
           in (b1, if managed \<or> rc_active_count rc = 0
                   then br1\<lparr>br_routed_stages := removeAll s (br_routed_stages br1)\<rparr> else br1))"

text \<open>The wrapper of \<open>as_sync\<close>: \<open>called\<close> is what calling the function gives, \<open>resolved\<close> what
  \<open>_resolve_awaitable_sync\<close> gives for an awaitable.\<close>

definition bridge_as_sync ::
  "bridge \<Rightarrow> ('v, 'e) called \<Rightarrow> ('e exc + 'v \<Rightarrow> 'e exc + 'v) \<Rightarrow> 'e exc + 'v" where
  "bridge_as_sync br called resolved =
     (case bridge_ensure_open br of
        Inl e \<Rightarrow> Inl e
      | Inr _ \<Rightarrow> (case called of Call_raises e \<Rightarrow> Inl e | Call_returns v \<Rightarrow> Inr v | Call_awaitable r \<Rightarrow> resolved r))"

text \<open>What \<open>as_sync\<close> builds: the \<open>managed\<close> flag of its wrapper.\<close>

definition bridge_sync_wrapper :: "bool option \<Rightarrow> bool \<Rightarrow> bridge \<Rightarrow> 'e exc + bool" where
  "bridge_sync_wrapper managed is_callable br =
     (if \<not> is_callable then Inl TypeError
      else Inr (case managed of None \<Rightarrow> br_managed_by_default br | Some m \<Rightarrow> m))"

section \<open>Calling blocking code from asynchronous code\<close>

text \<open>What \<open>as_async\<close> builds: an asynchronous callable is returned as it is.\<close>

datatype async_wrapper = Function_itself | Blocking_wrapper bool

definition bridge_async_wrapper ::
  "bool option \<Rightarrow> bool \<Rightarrow> py_object \<Rightarrow> (nat \<Rightarrow> py_object) \<Rightarrow> bridge \<Rightarrow> 'e exc + async_wrapper" where
  "bridge_async_wrapper managed is_callable p heap br =
     (if \<not> is_callable then Inl TypeError
      else if is_async_callable p is_callable heap then Inr Function_itself
      else Inr (Blocking_wrapper (case managed of None \<Rightarrow> br_managed_by_default br | Some m \<Rightarrow> m)))"

text \<open>
  The waits of the \<open>as_async\<close> wrapper as the events it sees: the task is cancelled, or the blocking
  call has ended. \<open>None\<close>: the wrapper is still waiting when the events end.
\<close>

datatype 'x wait_event = Task_cancel | Call_ended 'x

fun settlement_wait :: "'x wait_event list \<Rightarrow> bool" where
  "settlement_wait [] = False"
| "settlement_wait (Task_cancel # evs) = settlement_wait evs"
| "settlement_wait (Call_ended r # evs) = True"

fun managed_wait :: "('e exc + ('v, 'e) blocking_result) wait_event list \<Rightarrow> ('e exc + ('v, 'e) blocking_result) option" where
  "managed_wait [] = None"
| "managed_wait (Call_ended r # evs) = Some r"
| "managed_wait (Task_cancel # evs) = (if settlement_wait evs then Some (Inl CancelledError) else None)"

fun unmanaged_wait :: "('e exc + ('v, 'e) blocking_result) wait_event list \<Rightarrow> ('e exc + ('v, 'e) blocking_result) option" where
  "unmanaged_wait [] = None"
| "unmanaged_wait (Call_ended r # evs) = Some r"
| "unmanaged_wait (Task_cancel # evs) = Some (Inl CancelledError)"

definition bridge_as_async ::
  "bool \<Rightarrow> bridge \<Rightarrow> ('e exc + ('v, 'e) blocking_result) wait_event list \<Rightarrow> ('e exc + 'v) option" where
  "bridge_as_async managed br evs =
     (case bridge_ensure_open br of
        Inl e \<Rightarrow> Some (Inl e)
      | Inr _ \<Rightarrow>
          (case (if managed then managed_wait evs else unmanaged_wait evs) of
             None \<Rightarrow> None
           | Some (Inl e) \<Rightarrow> Some (Inl e)
           | Some (Inr (Plain v)) \<Rightarrow> Some (Inr v)
           | Some (Inr (Returned_awaitable r)) \<Rightarrow> Some r))"

section \<open>Submitting, streaming, closing\<close>

definition bridge_submit ::
  "(stage_stream \<Rightarrow> 'e exc + unit) \<Rightarrow> ('t \<Rightarrow> 'w \<Rightarrow> ('e exc + response) \<times> 'w) \<Rightarrow> 't \<Rightarrow> bridge \<Rightarrow> 'w
   \<Rightarrow> ('e exc + nat) \<times> 'w" where
  "bridge_submit on_close go task br w =
     (case bridge_ensure_open br of
        Inl e \<Rightarrow> (Inl e, w)
      | Inr _ \<Rightarrow>
          (case go task w of
             (Inl e, w1) \<Rightarrow> (Inl e, w1)
           | (Inr (Handle_response i), w1) \<Rightarrow> (Inr i, w1)
           | (Inr (Stream_response ss), w1) \<Rightarrow>
               (case on_close ss of Inl e \<Rightarrow> Inl e | Inr _ \<Rightarrow> Inl TypeError, w1)))"

text \<open>\<open>iter_sync\<close> and \<open>iter_async\<close>: what ends the generator (\<open>ended\<close>: exhausted, closed early or an
  exception of the stream), then both closes; an exception of a later one replaces the earlier.\<close>

definition iterate_stream :: "'e exc + unit \<Rightarrow> 'e exc + unit \<Rightarrow> 'e exc + unit \<Rightarrow> 'e exc + unit" where
  "iterate_stream ended stream_closed stage_closed =
     (let r1 = (case stream_closed of Inl e \<Rightarrow> Inl e | Inr _ \<Rightarrow> ended)
      in case stage_closed of Inl e \<Rightarrow> Inl e | Inr _ \<Rightarrow> r1)"

fun close_each :: "(nat \<Rightarrow> 'e exc + unit) \<Rightarrow> nat list \<Rightarrow> ('e exc + unit) \<times> nat list" where
  "close_each cl [] = (Inr (), [])"
| "close_each cl (s # ss) =
     (case cl s of
        Inl e \<Rightarrow> (Inl e, [s])
      | Inr _ \<Rightarrow> (case close_each cl ss of (r, done) \<Rightarrow> (r, s # done)))"

definition bridge_close ::
  "(nat \<Rightarrow> 'e exc + unit) \<Rightarrow> bridge \<Rightarrow> ('e exc + unit) \<times> nat list \<times> bridge" where
  "bridge_close cl br =
     (if br_closed br then (Inr (), [], br)
      else let br1 = br\<lparr>br_closing := True\<rparr> in
        case close_each cl (br_routed_stages br1 @ [br_carrier_stage br1]
               @ (if br_owns_submit_stage br1 then [br_submit_stage br1] else [])) of
          (Inl e, tried) \<Rightarrow> (Inl e, tried, br1)
        | (Inr _, tried) \<Rightarrow> (Inr (), tried, br1\<lparr>br_closed := True, br_routed_stages := []\<rparr>))"

section \<open>Properties\<close>

lemma close_each_ok: "close_each cl ss = (Inr (), tried) \<Longrightarrow> tried = ss \<and> list_all (\<lambda>s. cl s = Inr ()) ss"
  by (induction ss arbitrary: tried) (auto split: sum.splits prod.splits)

lemma close_each_error:
  "close_each cl ss = (Inl e, tried) \<Longrightarrow> \<exists>us s vs. ss = us @ s # vs \<and> tried = us @ [s] \<and> cl s = Inl e"
proof (induction ss arbitrary: tried)
  case (Cons a ss)
  show ?case
  proof (cases "cl a")
    case (Inl x)
    with Cons.prems have "a # ss = [] @ a # ss \<and> tried = [] @ [a] \<and> cl a = Inl e" by simp
    then show ?thesis by blast
  next
    case (Inr u)
    obtain q ds where c: "close_each cl ss = (q, ds)" by fastforce
    with Cons.prems Inr have q: "q = Inl e" "tried = a # ds" by simp_all
    from Cons.IH [of ds] c q(1) obtain us s vs where "ss = us @ s # vs" "ds = us @ [s]" "cl s = Inl e" by auto
    with q have "a # ss = (a # us) @ s # vs \<and> tried = (a # us) @ [s] \<and> cl s = Inl e" by simp
    then show ?thesis by blast
  qed
qed simp

lemma close_each_all: "(\<And>s. cl s = Inr ()) \<Longrightarrow> close_each cl ss = (Inr (), ss)"
  by (induction ss) simp_all

definition scopes_of :: "bridge \<Rightarrow> nat list" where
  "scopes_of br = br_routed_stages br @ [br_carrier_stage br]
     @ (if br_owns_submit_stage br then [br_submit_stage br] else [])"

lemma bridge_close_eq:
  "bridge_close cl br =
     (if br_closed br then (Inr (), [], br)
      else case close_each cl (scopes_of br) of
             (Inl e, tried) \<Rightarrow> (Inl e, tried, br\<lparr>br_closing := True\<rparr>)
           | (Inr _, tried) \<Rightarrow> (Inr (), tried, br\<lparr>br_closing := True, br_closed := True, br_routed_stages := []\<rparr>))"
  by (simp add: bridge_close_def scopes_of_def Let_def)

lemma scopes_of_closing: "scopes_of (br\<lparr>br_closing := True\<rparr>) = scopes_of br"
  by (simp add: scopes_of_def)



text \<open>Routed calls.\<close>

fun routed_calls :: "(bool \<times> nat \<times> ('v, 'e) routed_call) list \<Rightarrow> bridge \<Rightarrow> bridge" where
  "routed_calls [] br = br"
| "routed_calls ((managed, s, rc) # cs) br = routed_calls cs (snd (resolve_in_routed_scope managed s rc br))"

lemma resolve_routed_fields:
  "br_closing (snd (resolve_in_routed_scope managed s rc br)) = br_closing br"
  "br_closed (snd (resolve_in_routed_scope managed s rc br)) = br_closed br"
  "r \<noteq> s \<Longrightarrow> r \<in> set (br_routed_stages (snd (resolve_in_routed_scope managed s rc br))) \<longleftrightarrow> r \<in> set (br_routed_stages br)"
  by (auto simp: resolve_in_routed_scope_def Let_def)

lemma routed_calls_keep:
  "r \<in> set (br_routed_stages br) \<Longrightarrow> r \<notin> (fst \<circ> snd) ` set cs \<Longrightarrow> r \<in> set (br_routed_stages (routed_calls cs br))"
  by (induction cs br rule: routed_calls.induct) (auto simp: resolve_routed_fields)

lemma routed_calls_open: "br_closing (routed_calls cs br) = br_closing br \<and> br_closed (routed_calls cs br) = br_closed br"
  by (induction cs br rule: routed_calls.induct) (simp_all add: resolve_routed_fields)

lemma routed_calls_tracked:
  assumes "\<not> br_closing br" "distinct (map (fst \<circ> snd) cs)"
    and "(False, s, rc) \<in> set cs" "0 < rc_active_count rc"
  shows "s \<in> set (br_routed_stages (routed_calls cs br))"
  using assms
proof (induction cs br rule: routed_calls.induct)
  case (2 managed s' rc' cs br)
  show ?case
  proof (cases "(False, s, rc) = (managed, s', rc')")
    case True
    with "2.prems" have "s \<in> set (br_routed_stages (snd (resolve_in_routed_scope managed s' rc' br)))"
      by (simp add: resolve_in_routed_scope_def Let_def)
    moreover have "s \<notin> (fst \<circ> snd) ` set cs" using True "2.prems"(2) by simp
    ultimately show ?thesis by (simp add: routed_calls_keep)
  next
    case False
    with 2 show ?thesis by (auto simp: resolve_routed_fields)
  qed
qed simp


definition left_running :: "(nat, nat) routed_call" where
  "left_running = \<lparr>rc_enter = Inr (), rc_go = Inr (), rc_result = Inr 5, rc_close = Inr (), rc_active_count = 1\<rparr>"


text \<open>A managed asynchronous call never abandons its worker: the wrapper ends only after the blocking
  call has ended, however often its task is cancelled meanwhile; a cancellation before that end is
  raised afterwards, and without one the outcome is the call's own.\<close>

theorem managed_call_waits_for_worker:
  "(managed_wait evs = None \<longleftrightarrow> (\<forall>e\<in>set evs. e = Task_cancel))
   \<and> managed_wait (replicate (Suc n) Task_cancel @ Call_ended r # evs) = Some (Inl CancelledError)
   \<and> managed_wait (Call_ended r # evs) = Some r"
proof -
  have s: "settlement_wait evs \<longleftrightarrow> \<not> (\<forall>e\<in>set evs. e = Task_cancel)" for evs :: "'x wait_event list"
    by (induction evs rule: settlement_wait.induct) auto
  have "settlement_wait (replicate n Task_cancel @ Call_ended r # evs)" unfolding s by auto
  then show ?thesis by (cases evs rule: managed_wait.cases) (auto simp: s)
qed

end
