(* ===== verification/Scope_System.thy ===== *)
theory Scope_System
  imports Scope_Calls Callback_Props
begin

text \<open>
  A whole scope at work: every operation of \<open>Stage.py\<close> on its handles, admissions, adopted tasks,
  timers and backend, in any order and from any caller, as one step relation, with the invariant
  that ties the scope's bookkeeping to the work its handles hold.
\<close>

section \<open>The invariant\<close>

definition handles_ok :: "('v, 'e) world \<Rightarrow> bool" where
  "handles_ok w \<longleftrightarrow> (\<forall>i h. w_handles w i = Some h \<longrightarrow>
     i < w_next_handle w \<and> work_ok h \<and> (0 < h_pending_work h \<longrightarrow> i \<in> set (st_active_handles (w_stage w))))"

definition bound_ok :: "('v, 'e) world \<Rightarrow> bool" where
  "bound_ok w \<longleftrightarrow> handles_ok w \<and> distinct (st_active_handles (w_stage w))
     \<and> (\<forall>i\<in>set (st_active_handles (w_stage w)). w_handles w i \<noteq> None)
     \<and> (has_active_work (w_stage w) \<longrightarrow> st_active_backend (w_stage w) \<noteq> None)"

text \<open>\<open>_resolve_backend_locked\<close> may hold a lease for work that is about to be registered; between operations
  only a scope with work holds one.\<close>

definition world_ok :: "('v, 'e) world \<Rightarrow> bool" where
  "world_ok w \<longleftrightarrow> bound_ok w \<and> (\<not> has_active_work (w_stage w) \<longrightarrow> st_generation_lease (w_stage w) = None)"

lemma bound_okD:
  "bound_ok w \<Longrightarrow> w_handles w i = Some h \<Longrightarrow> i < w_next_handle w"
  "bound_ok w \<Longrightarrow> w_handles w i = Some h \<Longrightarrow> work_ok h"
  "bound_ok w \<Longrightarrow> w_handles w i = Some h \<Longrightarrow> 0 < h_pending_work h \<Longrightarrow> i \<in> set (st_active_handles (w_stage w))"
  "bound_ok w \<Longrightarrow> i \<in> set (st_active_handles (w_stage w)) \<Longrightarrow> \<exists>h. w_handles w i = Some h"
  by (auto simp: bound_ok_def handles_ok_def)

lemma world_ok_bound: "world_ok w \<Longrightarrow> bound_ok w"
  by (simp add: world_ok_def)

text \<open>What the invariant sees of a scope.\<close>

definition same_binding :: "'e stage \<Rightarrow> 'e stage \<Rightarrow> bool" where
  "same_binding st st' \<longleftrightarrow> st_active_handles st' = st_active_handles st \<and> st_adopted_tasks st' = st_adopted_tasks st
     \<and> st_active_backend st' = st_active_backend st \<and> st_generation_lease st' = st_generation_lease st"

lemma same_binding_refl [simp]: "same_binding st st"
  by (simp add: same_binding_def)

lemma same_binding_trans: "same_binding a b \<Longrightarrow> same_binding b c \<Longrightarrow> same_binding a c"
  by (simp add: same_binding_def)

lemma binding_cong:
  assumes "same_binding (w_stage w) (w_stage w')" "w_handles w' = w_handles w" "w_next_handle w' = w_next_handle w"
  shows "bound_ok w' \<longleftrightarrow> bound_ok w" "world_ok w' \<longleftrightarrow> world_ok w"
  using assms by (simp_all add: bound_ok_def handles_ok_def world_ok_def same_binding_def has_active_work_def)

lemma grant_next_binding: "same_binding st (grant_next st)"
proof (induction st rule: grant_next.induct)
  case (1 st)
  show ?case
  proof (cases "st_pending_admissions st")
    case (Cons a q)
    have "same_binding st (st\<lparr>st_pending_admissions := q\<rparr>)" by (simp add: same_binding_def)
    with 1 Cons show ?thesis
      by (subst grant_next.simps)
         (auto simp: Let_def same_binding_def split: option.splits)
  qed (simp add: grant_next.simps)
qed

lemma binding_ops [simp]:
  "same_binding st (touch now st)" "same_binding st (seal st)" "same_binding st (tick now st)"
  "same_binding st (owned_activity now st)"
  by (simp_all add: same_binding_def touch_def seal_def tick_def owned_activity_def schedule_idle_timer_def Let_def
      split: option.splits)

lemma finish_admission_binding [simp]: "same_binding st (finish_admission a st)"
proof (cases a)
  case (Some r)
  let ?st = "if admission_granted st r then st\<lparr>st_active_root_count := st_active_root_count st - 1\<rparr>
             else case r of Immediate_admission \<Rightarrow> st
                  | Queued_admission i \<Rightarrow> st\<lparr>st_pending_admissions := remove1 i (st_pending_admissions st)\<rparr>"
  have "same_binding st ?st" by (simp add: same_binding_def split: admission_ref.splits)
  from same_binding_trans [OF this grant_next_binding] show ?thesis by (simp add: finish_admission_def Some)
qed (simp add: finish_admission_def)

lemma admit_binding: "admit_root en st = (r, st') \<Longrightarrow> same_binding st st'"
  by (auto simp: admit_root_def same_binding_def Let_def split: if_splits)

lemma deadline_binding: "idle_deadline_reached origin now token st = (st', hs, ts) \<Longrightarrow> same_binding st st'"
  by (auto simp: idle_deadline_reached_def same_binding_def schedule_idle_timer_def Let_def
      split: option.splits if_splits)

section \<open>Updates of one handle\<close>

definition same_load :: "('v, 'e) handle \<Rightarrow> ('v, 'e) handle \<Rightarrow> bool" where
  "same_load h h' \<longleftrightarrow> h_pending_work h' = h_pending_work h \<and> h_settlement_done h' = h_settlement_done h"

lemma same_load_refl [simp]: "same_load h h"
  by (simp add: same_load_def)

lemma put_handle_frame [simp]:
  "w_stage (put_handle i h w) = w_stage w" "w_handles (put_handle i h w) = (w_handles w)(i \<mapsto> h)"
  "w_next_handle (put_handle i h w) = w_next_handle w" "w_carrier (put_handle i h w) = w_carrier w"
  by (simp_all add: put_handle_def)

lemma put_loaded:
  assumes "bound_ok w" "w_handles w i = Some h" "work_ok h'"
    "0 < h_pending_work h' \<Longrightarrow> i \<in> set (st_active_handles (w_stage w))"
  shows "bound_ok (put_handle i h' w)" "world_ok w \<Longrightarrow> world_ok (put_handle i h' w)"
proof -
  show b: "bound_ok (put_handle i h' w)"
    using assms by (auto simp: bound_ok_def handles_ok_def)
  show "world_ok (put_handle i h' w)" if "world_ok w" using that b by (simp add: world_ok_def)
qed

lemma put_same_load:
  assumes "bound_ok w" "w_handles w i = Some h" "same_load h h'"
  shows "bound_ok (put_handle i h' w)" "world_ok w \<Longrightarrow> world_ok (put_handle i h' w)"
proof -
  have "work_ok h'" using bound_okD(2) [OF assms(1,2)] assms(3) by (simp add: work_ok_def same_load_def)
  moreover have "i \<in> set (st_active_handles (w_stage w))" if "0 < h_pending_work h'"
    using bound_okD(3) [OF assms(1,2)] that assms(3) by (simp add: same_load_def)
  ultimately show "bound_ok (put_handle i h' w)" "world_ok w \<Longrightarrow> world_ok (put_handle i h' w)"
    using put_loaded [OF assms(1,2)] by blast+
qed

lemma put_retained:
  assumes "bound_ok w" "w_handles w i = Some h" "i \<in> set (st_active_handles (w_stage w))"
  shows "bound_ok (put_handle i (retain_work h) w)" "world_ok w \<Longrightarrow> world_ok (put_handle i (retain_work h) w)"
proof -
  have "work_ok (retain_work h)"
    using bound_okD(2) [OF assms(1,2)] by (auto simp: work_ok_def retain_work_def Let_def)
  then show "bound_ok (put_handle i (retain_work h) w)" "world_ok w \<Longrightarrow> world_ok (put_handle i (retain_work h) w)"
    using put_loaded [OF assms(1,2)] assms(3) by blast+
qed

lemma release_load:
  "work_ok h \<Longrightarrow> release_work h = Inr (h', q) \<Longrightarrow>
   work_ok h' \<and> (q \<longleftrightarrow> h_pending_work h' = 0) \<and> 0 < h_pending_work h"
  by (auto simp: work_ok_def release_work_def Let_def split: if_splits)

lemma same_load_ops [simp]:
  "same_load h (register_initial_callback k f c h)" "same_load h (record_settlement_error e h)"
  "same_load h (fst (set_body_outcome ign out h))" "same_load h (fst (set_body_exception e ign h))"
  "same_load h (fst (set_owner_task l t h))" "same_load h (fst (register_callback_locked k f c h))"
  "same_load h (register_callback_rollback h)" "same_load h (fst (register_owned_task t p h))"
  "same_load h (unregister_owned_task t h)" "same_load h (set_generation_id g h)"
  "same_load h (snd (take_unreported_stage_errors h))"
  by (auto simp: same_load_def register_initial_callback_def record_settlement_error_def set_body_outcome_def
      set_body_result_def set_body_exception_def set_body_cancelled_def finish_body_def set_owner_task_def
      activate_callback_drain_locked_def take_done_callbacks_locked_def register_callback_locked_def
      register_callback_rollback_def register_owned_task_def unregister_owned_task_def set_generation_id_def
      take_unreported_stage_errors_def Let_def split: outcome.splits if_splits)

section \<open>Quiescence\<close>

lemma return_lease_frame [simp]:
  "w_next_handle (snd (return_lease lease w)) = w_next_handle w"
  by (simp add: return_lease_def split: option.splits sum.splits)

lemma return_lease_ok [simp]:
  "bound_ok (snd (return_lease lease w)) = bound_ok w" "world_ok (snd (return_lease lease w)) = world_ok w"
  by (rule binding_cong; simp)+

text \<open>Dropping work from the scope, then letting go of the backend when none is left.\<close>

lemma drop_work_ok:
  assumes b: "bound_ok (w\<lparr>w_stage := st\<rparr>)" and lease: "\<not> has_active_work st \<Longrightarrow> q = release_backend_if_quiescent st"
    "has_active_work st \<Longrightarrow> q = (None, st)"
  shows "world_ok (snd (return_lease (fst q) (w\<lparr>w_stage := snd q\<rparr>)))"
proof (cases "has_active_work st")
  case True
  with lease b show ?thesis by (simp add: world_ok_def)
next
  case False
  then have a: "st_active_handles st = []" "st_adopted_tasks st = []" by (auto simp: has_active_work_def)
  from False lease(1) have q: "snd q = snd (release_backend_if_quiescent st)" by simp
  have "st_active_handles (snd q) = []" "st_adopted_tasks (snd q) = []" "st_generation_lease (snd q) = None"
    using False a by (simp_all add: q release_backend_if_quiescent_def)
  with b a show ?thesis
    by (simp add: world_ok_def bound_ok_def handles_ok_def has_active_work_def)
qed

lemma quiescent_ok:
  assumes w: "bound_ok w" and h: "w_handles w i = Some h" "h_pending_work h = 0"
  shows "world_ok (snd (handle_quiescent i w))"
proof -
  obtain errors h1 where t: "take_unreported_stage_errors h = (errors, h1)" by fastforce
  have h1: "h_pending_work h1 = 0" "same_load h h1"
    using h(2) t by (auto simp: take_unreported_stage_errors_def same_load_def)
  let ?st = "(w_stage w)\<lparr>st_scope_settlement_errors := st_scope_settlement_errors (w_stage w) @ errors,
    st_active_handles := removeAll i (st_active_handles (w_stage w))\<rparr>"
  let ?q = "if has_active_work ?st then (None, ?st) else release_backend_if_quiescent ?st"
  note p = put_same_load(1) [OF w h(1) h1(2)]
  have "bound_ok ((put_handle i h1 w)\<lparr>w_stage := ?st\<rparr>)"
    using p h1(1) by (auto simp: bound_ok_def handles_ok_def has_active_work_def distinct_removeAll split: if_splits)
  from drop_work_ok [OF this, of ?q]
  show ?thesis by (auto simp: handle_quiescent_def h(1) t Let_def split: if_splits prod.splits)
qed

lemma release_handle_ok:
  assumes "world_ok w \<or> bound_ok w \<and> has_active_work (w_stage w)"
  shows "world_ok (snd (release_handle_work i w))"
proof -
  have b: "bound_ok w" and w: "world_ok w" using assms by (auto simp: world_ok_def)
  show ?thesis
  proof (cases "w_handles w i")
    case (Some h)
    show ?thesis
    proof (cases "release_work h")
      case (Inr x)
      obtain h1 q where x: "x = (h1, q)" by fastforce
      note l = release_load [OF bound_okD(2) [OF b Some] Inr [unfolded x]]
      have p: "world_ok (put_handle i h1 w)"
        using put_loaded(2) [OF b Some _ _ w] l bound_okD(3) [OF b Some] by blast
      show ?thesis
      proof (cases q)
        case True
        with l quiescent_ok [OF world_ok_bound [OF p], of i h1] Some Inr x show ?thesis
          by (simp add: release_handle_work_def)
      qed (use Some Inr x p in \<open>simp add: release_handle_work_def\<close>)
    qed (use Some w in \<open>simp add: release_handle_work_def\<close>)
  qed (use w in \<open>simp add: release_handle_work_def\<close>)
qed

section \<open>Runners on a caller loop\<close>

lemma complete_body_ok:
  assumes "bound_ok w" "\<And>h. same_load h (fst (set_body h))"
  shows "bound_ok (snd (complete_body en i set_body w))"
    "world_ok w \<Longrightarrow> world_ok (snd (complete_body en i set_body w))"
    "same_binding (w_stage w) (w_stage (snd (complete_body en i set_body w)))"
proof -
  have "bound_ok (snd (complete_body en i set_body w)) \<and> (world_ok w \<longrightarrow> world_ok (snd (complete_body en i set_body w)))
    \<and> same_binding (w_stage w) (w_stage (snd (complete_body en i set_body w)))"
  proof (cases "w_handles w i")
    case (Some h)
    obtain h1 b cs where s: "set_body h = (h1, b, cs)" by (cases "set_body h")
    then have "same_load h h1" using assms(2) [of h] by simp
    note p = put_same_load [OF assms(1) Some this]
    let ?w = "(put_handle i h1 w)\<lparr>w_stage := (if h_body_completed h then w_stage w
                                             else owned_activity (en_now en) (w_stage w))\<rparr>"
    have f: "same_binding (w_stage (put_handle i h1 w)) (w_stage ?w)" by simp
    with p binding_cong [OF f] show ?thesis by (simp add: complete_body_def Some s)
  qed (simp add: complete_body_def assms(1))
  then show "bound_ok (snd (complete_body en i set_body w))"
    "world_ok w \<Longrightarrow> world_ok (snd (complete_body en i set_body w))"
    "same_binding (w_stage w) (w_stage (snd (complete_body en i set_body w)))" by blast+
qed

lemma admission_frame_ok [simp]:
  "world_ok (w\<lparr>w_stage := finish_admission a (w_stage w)\<rparr>) = world_ok w"
  by (rule binding_cong) simp_all

lemma lists_frame_ok [simp]:
  "world_ok (w\<lparr>w_calls := cs\<rparr>) = world_ok w" "world_ok (w\<lparr>w_tasks := ts\<rparr>) = world_ok w"
  "world_ok (w\<lparr>w_task_cancels := tc\<rparr>) = world_ok w" "world_ok (w\<lparr>w_next_task := n\<rparr>) = world_ok w"
  "world_ok (w\<lparr>w_cancel_calls := cc\<rparr>) = world_ok w" "world_ok (w\<lparr>w_carrier := c\<rparr>) = world_ok w"
  "bound_ok (w\<lparr>w_carrier := c\<rparr>) = bound_ok w"
  by (rule binding_cong; simp)+

lemma start_runner_ok:
  assumes w: "world_ok w"
  shows "world_ok (snd (start_runner en failure loop job w))"
proof (cases "w_handles w (rj_handle job)")
  case (Some h)
  note b = world_ok_bound [OF w]
  show ?thesis
  proof (cases failure)
    case None
    let ?t = "w_next_task w"
    let ?w1 = "w\<lparr>w_next_task := Suc ?t, w_tasks := w_tasks w @ [(?t, loop, job)]\<rparr>"
    have w1: "world_ok ?w1" using w by simp
    obtain h1 c where s: "set_owner_task loop ?t h = (h1, c)" by fastforce
    then have "same_load h h1" using same_load_ops(5) [of h loop ?t] by simp
    from put_same_load(2) [OF world_ok_bound [OF w1] _ this w1] Some
    have "world_ok (put_handle (rj_handle job) h1 ?w1)" by simp
    with w1 show ?thesis by (simp add: start_runner_def Some None Let_def s)
  next
    case e: (Some error)
    have "world_ok (snd (complete_body en (rj_handle job) (set_body_exception error False) w))"
      using complete_body_ok(2) [OF b _ w] by simp
    moreover have "world_ok (put_handle (rj_handle job) (record_settlement_error error h) w)"
      using put_same_load(2) [OF b Some _ w] by simp
    ultimately show ?thesis
      by (simp add: start_runner_def Some e Let_def release_handle_ok)
  qed
qed (simp add: start_runner_def w)

lemma snd_case_error [simp]:
  "snd (case p of (Inl e, w2) \<Rightarrow> (Inl (f e), w2) | (Inr x, w2) \<Rightarrow> (g x, w2)) = snd p"
  by (cases p; cases "fst p") auto

lemma schedule_runner_ok:
  assumes w: "world_ok w" and i: "rj_handle job \<in> set (st_active_handles (w_stage w))"
  shows "world_ok (snd (schedule_caller_runner en failure loop job w))"
proof (cases "w_handles w (rj_handle job)")
  case (Some h)
  have w1: "world_ok (put_handle (rj_handle job) (retain_work h) w)"
    using put_retained(2) [OF world_ok_bound [OF w] Some i w] .
  with w1 start_runner_ok [OF w1] show ?thesis
    by (simp add: schedule_caller_runner_def Some Let_def release_handle_ok split: option.splits)
qed (simp add: schedule_caller_runner_def w)

section \<open>Binding the scope\<close>

lemma resolve_ok:
  fixes w w' :: "('v, 'e) world"
  assumes "bound_ok w" "resolve_backend en w = (r, w')"
  shows "bound_ok w'" "st_active_handles (w_stage w') = st_active_handles (w_stage w)"
    "st_adopted_tasks (w_stage w') = st_adopted_tasks (w_stage w)" "w_handles w' = w_handles w"
    "w_next_handle w' = w_next_handle w" "isl r \<Longrightarrow> w_stage w' = w_stage w"
    "\<not> isl r \<Longrightarrow> st_active_backend (w_stage w') \<noteq> None"
proof -
  have f: "st_active_handles (w_stage w') = st_active_handles (w_stage w)
    \<and> st_adopted_tasks (w_stage w') = st_adopted_tasks (w_stage w) \<and> w_handles w' = w_handles w
    \<and> w_next_handle w' = w_next_handle w \<and> (isl r \<longrightarrow> w_stage w' = w_stage w)
    \<and> (\<not> isl r \<longrightarrow> st_active_backend (w_stage w') \<noteq> None)"
  proof (cases "choose_backend en (w_stage w) :: 'e exc + (backend_kind \<times> loop_ref option)")
    case (Inl e)
    show ?thesis
    proof (cases "st_active_backend (w_stage w)")
      case None
      with Inl assms(2) have "r = Inl e" "w' = w" by (simp_all add: resolve_backend_def Let_def)
      then show ?thesis by simp
    qed (use assms(2) in \<open>auto simp: resolve_backend_def\<close>)
  next
    case (Inr x)
    then obtain bk lp where c: "choose_backend en (w_stage w) = (Inr (bk, lp) :: 'e exc + (backend_kind \<times> loop_ref option))"
      by (cases x) simp
    from assms(2) show ?thesis
      by (cases bk) (auto simp: resolve_backend_def Let_def c split: option.splits sum.splits prod.splits)
  qed
  then show "st_active_handles (w_stage w') = st_active_handles (w_stage w)"
    "st_adopted_tasks (w_stage w') = st_adopted_tasks (w_stage w)" "w_handles w' = w_handles w"
    "w_next_handle w' = w_next_handle w" "isl r \<Longrightarrow> w_stage w' = w_stage w"
    "\<not> isl r \<Longrightarrow> st_active_backend (w_stage w') \<noteq> None" by blast+
  with assms(1) show "bound_ok w'"
    by (cases "isl r") (auto simp: bound_ok_def handles_ok_def has_active_work_def)
qed

lemma resolve_error_ok: "world_ok w \<Longrightarrow> resolve_backend en w = (Inl e, w') \<Longrightarrow> world_ok w'"
  using resolve_ok [of w en "Inl e" w', OF world_ok_bound] binding_cong(2) [of w w'] by simp

lemma list_insert_not_Nil [simp]: "List.insert x xs \<noteq> []" "[] \<noteq> List.insert x xs"
  by (simp_all add: List.insert_def) auto

lemma new_handle_ok:
  assumes w: "world_ok w" and n: "new_handle en origin allow w = (r, w')"
  shows "world_ok w'" "r = Inr (i, backend, loop) \<Longrightarrow> i \<in> set (st_active_handles (w_stage w'))"
proof -
  show "i \<in> set (st_active_handles (w_stage w'))" if "r = Inr (i, backend, loop)"
    using n that by (auto simp: new_handle_def Let_def split: if_splits prod.splits sum.splits)
  show "world_ok w'"
  proof (cases "st_sealed (w_stage w) \<and> \<not> allow")
    case True
    with n w show ?thesis by (simp add: new_handle_def)
  next
    case False
    obtain q w1 where q: "resolve_backend en w = (q, w1)" by fastforce
    note f = resolve_ok [OF world_ok_bound [OF w] q]
    show ?thesis
    proof (cases q)
      case (Inl e)
      with resolve_error_ok [OF w] q n False show ?thesis by (simp add: new_handle_def)
    next
      case (Inr x)
      obtain bk lp where x: "x = (bk, lp)" by fastforce
      let ?i = "w_next_handle w1"
      let ?st = "touch (en_now en) ((w_stage w1)\<lparr>st_active_handles := List.insert ?i (st_active_handles (w_stage w1))\<rparr>)"
      have "w' = (put_handle ?i (handle_init origin bk) w1)\<lparr>w_next_handle := Suc ?i, w_stage := ?st\<rparr>"
        using n False by (simp add: new_handle_def q Inr x Let_def)
      moreover have "work_ok (handle_init origin bk)" by (simp add: work_ok_def handle_init_def)
      moreover have "st_active_backend (w_stage w1) \<noteq> None" using f(7) Inr by simp
      ultimately show ?thesis
        using f(1) by (auto simp: world_ok_def bound_ok_def handles_ok_def has_active_work_def less_Suc_eq)
    qed
  qed
qed

lemma register_initial_ok:
  assumes "world_ok w"
  shows "world_ok (register_initial k f ctx i w)" "w_stage (register_initial k f ctx i w) = w_stage w"
  using put_same_load(2) [OF world_ok_bound [OF assms] _ _ assms]
  by (auto simp: register_initial_def assms split: option.splits)

section \<open>Submission\<close>

lemma carrier_submit_load:
  assumes "carrier_submit sm preferred cl h c = (r, h', q, c')" "work_ok h"
  shows "work_ok h'" "q \<Longrightarrow> h_pending_work h' = 0"
proof -
  have ret: "work_ok (retain_work h)" using assms(2) by (auto simp: work_ok_def retain_work_def Let_def)
  have slot: "work_ok h2 \<and> (q2 \<longrightarrow> h_pending_work h2 = 0)"
    if "slot_submit sid sm pref h c1 = (r1, h2, q2, c2)" for sid pref c1 r1 h2 q2 c2
    using that ret release_load [OF ret]
    by (auto simp: slot_submit_def set_generation_id_def work_ok_def Let_def
        split: prod.splits sum.splits option.splits if_splits)
  have "work_ok h' \<and> (q \<longrightarrow> h_pending_work h' = 0)"
    using assms slot by (auto simp: carrier_submit_def split: option.splits prod.splits sum.splits)
  then show "work_ok h'" "q \<Longrightarrow> h_pending_work h' = 0" by blast+
qed

lemma submit_handle_ok:
  assumes w: "world_ok w" and i: "sm_handle sm \<in> set (st_active_handles (w_stage w))"
  shows "world_ok (snd (submit_handle en sm preferred w))"
proof (cases "w_handles w (sm_handle sm)")
  case (Some h)
  obtain r h1 q c where s: "carrier_submit sm preferred (en_caller en) h (w_carrier w) = (r, h1, q, c)"
    by (metis surj_pair)
  note b = world_ok_bound [OF w]
  note l = carrier_submit_load [OF s bound_okD(2) [OF b Some]]
  let ?w = "(put_handle (sm_handle sm) h1 w)\<lparr>w_carrier := c\<rparr>"
  have p: "world_ok ?w" using put_loaded(2) [OF b Some l(1) i w] by simp
  have "world_ok (snd (handle_quiescent (sm_handle sm) ?w))" if q
    using quiescent_ok [OF world_ok_bound [OF p], of "sm_handle sm" h1] l(2) [OF that] by simp
  moreover have "snd (submit_handle en sm preferred w) = (if q then snd (handle_quiescent (sm_handle sm) ?w) else ?w)"
    using Some s by (simp add: submit_handle_def Let_def split: prod.splits sum.splits)
  ultimately show ?thesis using p by simp
qed (simp add: submit_handle_def w)

lemma go_locked_ok:
  assumes w: "world_ok w" and g: "go_locked en a w = (r, w')"
  shows "world_ok w'" "r = Inr (admission, i, backend, loop, c) \<Longrightarrow> i \<in> set (st_active_handles (w_stage w'))"
proof -
  let ?owned = "en_active_stage en = Some (st_ref (w_stage w))"
  have "world_ok w' \<and> (r = Inr (admission, i, backend, loop, c) \<longrightarrow> i \<in> set (st_active_handles (w_stage w')))"
  proof (cases "st_sealed (w_stage w) \<and> \<not> ?owned")
    case True
    with g w show ?thesis by (auto simp: go_locked_def Let_def)
  next
    case False
    obtain x st where adm: "admit_root en (w_stage w) = (x, st)" by fastforce
    let ?w1 = "w\<lparr>w_stage := st\<rparr>"
    have w1: "world_ok ?w1" using binding_cong(2) [of w ?w1] admit_binding [OF adm] w by simp
    show ?thesis
    proof (cases x)
      case (Inl e)
      with g False adm w1 show ?thesis by (auto simp: go_locked_def Let_def)
    next
      case (Inr ad)
      obtain n w2 where n: "new_handle en (ga_origin a) ?owned ?w1 = (n, w2)" by fastforce
      note w2 = new_handle_ok [OF w1 n]
      show ?thesis
      proof (cases n)
        case (Inl e)
        with g False adm Inr n w2(1) show ?thesis by (auto simp: go_locked_def Let_def)
      next
        case n': (Inr y)
        obtain j bk lp where y: "y = (j, bk, lp)" by (cases y)
        with g False adm Inr n n' w2 show ?thesis
          by (auto simp: go_locked_def Let_def register_initial_ok)
      qed
    qed
  qed
  then show "world_ok w'" "r = Inr (admission, i, backend, loop, c) \<Longrightarrow> i \<in> set (st_active_handles (w_stage w'))"
    by blast+
qed

lemma cancel_handle_ok: "world_ok w \<Longrightarrow> world_ok (snd (cancel_handle lc i w))"
  using put_same_load(2) [OF world_ok_bound, of w i _ "_\<lparr>h_cancel_requested := True\<rparr>"]
  by (auto simp: cancel_handle_def cancel_request_def same_load_def split: option.splits if_splits)

lemma go_scalar_ok:
  assumes w: "world_ok w" and g: "go_scalar en failure a w = (r, w')"
  shows "world_ok w'"
proof -
  obtain l w1 where l: "go_locked en a w = (l, w1)" by fastforce
  note w1 = go_locked_ok [OF w l]
  show ?thesis
  proof (cases l)
    case (Inl e)
    with g l w1(1) show ?thesis by (simp add: go_scalar_def)
  next
    case (Inr x)
    obtain ad i bk lp c where x: "l = Inr (ad, i, bk, lp, c)" using Inr by (cases x) auto
    note i = w1(2) [OF x]
    define sent where "sent = (case bk of
        Backend_stage \<Rightarrow>
          submit_handle en \<lparr>sm_handle = i, sm_runner = ga_runner a, sm_owner = True, sm_context = ga_context a,
            sm_phase = Phase_body, sm_blocked = st_blocked_generation_ids (w_stage w1)\<rparr> (st_generation_lease (w_stage w1)) w1
      | Backend_caller \<Rightarrow>
          (case lp of
             None \<Rightarrow> (Inl StageLifecycleError, w1)
           | Some l \<Rightarrow> schedule_caller_runner en failure l
               \<lparr>rj_handle = i, rj_runner = ga_runner a, rj_owner = True, rj_admission = ad\<rparr> w1))"
    have s: "world_ok (snd sent)"
      using w1(1) i by (auto simp: sent_def submit_handle_ok schedule_runner_ok split: backend_kind.splits option.splits)
    have "world_ok (snd (go_scalar en failure a w))"
      using s cancel_handle_ok [OF s, of "en_closed en" i] unfolding go_scalar_def l x
      by (auto simp: Let_def sent_def [symmetric] split: prod.splits sum.splits)
    with g show ?thesis by simp
  qed
qed

section \<open>Bodies, callbacks and descendants\<close>

lemma task_factory_load:
  "task_factory active g t h c = Inr (h', b, c') \<Longrightarrow> same_load h h' \<or> same_load (retain_work h) h'"
  by (auto simp: task_factory_def split: option.splits if_splits sum.splits prod.splits)
     (metis same_load_ops(8) fst_conv)

lemma owned_task_ok:
  assumes w: "world_ok w" and h: "w_handles w i = Some h" "i \<in> set (st_active_handles (w_stage w))"
    and t: "task_factory active g t h (w_carrier w) = Inr (h', b, c')"
  shows "world_ok ((put_handle i h' w)\<lparr>w_carrier := c'\<rparr>)"
proof -
  note b = world_ok_bound [OF w]
  from task_factory_load [OF t] have "world_ok (put_handle i h' w)"
  proof
    assume "same_load h h'"
    then show ?thesis using put_same_load(2) [OF b h(1) _ w] by blast
  next
    assume l: "same_load (retain_work h) h'"
    have "work_ok h'" using bound_okD(2) [OF b h(1)] l by (auto simp: work_ok_def retain_work_def same_load_def Let_def)
    then show ?thesis using put_loaded(2) [OF b h(1) _ _ w] h(2) by blast
  qed
  then show ?thesis by simp
qed

lemma start_drain_ok:
  assumes w: "world_ok w" and i: "i \<in> set (st_active_handles (w_stage w))"
  shows "world_ok (snd (start_callback_drain_from_owner en unavailable failure drain i w))"
proof (cases "w_handles w i")
  case (Some h)
  have "world_ok (put_handle i (record_settlement_error unavailable h) w)"
    using put_same_load(2) [OF world_ok_bound [OF w] Some _ w] by simp
  moreover have "world_ok ((put_handle i h' w)\<lparr>w_carrier := c, w_next_task := t\<rparr>)"
    if "task_factory ec g u h (w_carrier w) = (Inr (h', b, c) :: 'b exc + _)" for ec g u h' b c t
    using owned_task_ok [OF w Some i that] by simp
  ultimately show ?thesis
    using w i Some schedule_runner_ok [OF w]
    by (auto simp: start_callback_drain_from_owner_def Let_def split: sum.splits option.splits prod.splits)
qed (simp add: start_callback_drain_from_owner_def w)

lemma body_finished_ok:
  assumes w: "world_ok w" and i: "i \<in> set (st_active_handles (w_stage w))"
  shows "world_ok (snd (body_finished en unavailable failure drain ignored admission out i w))"
proof -
  obtain s w1 where c: "complete_body en i (set_body_outcome ignored out) w = (s, w1)" by fastforce
  have w1: "world_ok w1" "same_binding (w_stage w) (w_stage w1)"
    using complete_body_ok(2,3) [OF world_ok_bound [OF w], of "set_body_outcome ignored out" en i] w c by simp_all
  then have "world_ok (snd (if s then start_callback_drain_from_owner en unavailable failure drain i w1 else (Inr (), w1)))"
    using start_drain_ok [OF w1(1), of i] i by (simp add: same_binding_def)
  then show ?thesis by (auto simp: body_finished_def c split: prod.splits)
qed

lemma run_submission_ok:
  assumes w: "world_ok w"
  shows "world_ok (snd (run_submission loop current g sm w))"
proof (cases "w_handles w (sm_handle sm)")
  case (Some h)
  show ?thesis
  proof (cases current)
    case t: (Some t)
    obtain h1 c where s: "set_owner_task loop t h = (h1, c)" by fastforce
    then have "same_load h h1" using same_load_ops(5) [of h loop t] by simp
    from put_same_load(2) [OF world_ok_bound [OF w] Some this w] w show ?thesis
      by (simp add: run_submission_def Some t s)
  qed (simp add: run_submission_def w)
qed (use w in \<open>simp add: run_submission_def split: option.split\<close>)

lemma stage_runner_ended_ok: "world_ok w \<Longrightarrow> world_ok (snd (stage_runner_ended gen i w))"
  by (simp add: stage_runner_ended_def release_handle_ok split: sum.splits)

text \<open>A drain submitted for a settled handle makes the handle active again.\<close>

lemma reactivated_ok:
  assumes "bound_ok w" "w_handles w i = Some h" "st_active_backend (w_stage w) \<noteq> None"
  shows "world_ok (w\<lparr>w_stage := (w_stage w)\<lparr>st_active_handles := List.insert i (st_active_handles (w_stage w))\<rparr>\<rparr>)"
  using assms by (auto simp: world_ok_def bound_ok_def handles_ok_def has_active_work_def)

lemma bind_for_drain_ok:
  assumes w: "world_ok w" and d: "bind_for_drain en h w = (r, w')"
  shows "bound_ok w'" "w_handles w' = w_handles w" "isl r \<Longrightarrow> world_ok w'"
    "\<not> isl r \<Longrightarrow> st_active_backend (w_stage w') \<noteq> None"
proof -
  have "bound_ok w' \<and> w_handles w' = w_handles w \<and> (isl r \<longrightarrow> world_ok w')
    \<and> (\<not> isl r \<longrightarrow> st_active_backend (w_stage w') \<noteq> None)"
    using assms
    by (auto simp: bind_for_drain_def world_ok_def bound_ok_def handles_ok_def has_active_work_def Let_def
        split: option.splits sum.splits prod.splits if_splits)
  then show "bound_ok w'" "w_handles w' = w_handles w" "isl r \<Longrightarrow> world_ok w'"
    "\<not> isl r \<Longrightarrow> st_active_backend (w_stage w') \<noteq> None" by blast+
qed

lemma submit_drain_ok:
  assumes w: "world_ok w"
  shows "world_ok (snd (submit_callback_drain en failure drain i w))"
proof (cases "w_handles w i")
  case (Some h)
  obtain q w1 where b: "bind_for_drain en h w = (q, w1)" by fastforce
  note f = bind_for_drain_ok [OF w b]
  show ?thesis
  proof (cases q)
    case (Inl e)
    with Some b f(3) show ?thesis by (simp add: submit_callback_drain_def)
  next
    case (Inr u)
    let ?w2 = "w1\<lparr>w_stage := (w_stage w1)\<lparr>st_active_handles := List.insert i (st_active_handles (w_stage w1))\<rparr>\<rparr>"
    have w2: "world_ok ?w2" using reactivated_ok [OF f(1), of i h] f(2,4) Some Inr by simp
    show ?thesis
      using Some b Inr w2 schedule_runner_ok [OF w2] submit_handle_ok [OF w2]
      by (auto simp: submit_callback_drain_def Let_def)
  qed
qed (simp add: submit_callback_drain_def w)

lemma register_callback_ok:
  assumes w: "world_ok w"
  shows "world_ok (snd (register_callback en failure drain kind f ctx i w))"
proof (cases "w_handles w i")
  case (Some h)
  obtain h1 s where r: "register_callback_locked kind f ctx h = (h1, s)" by fastforce
  then have "same_load h h1" using same_load_ops(6) [of h kind f ctx] by simp
  then have w1: "world_ok (put_handle i h1 w)" using put_same_load(2) [OF world_ok_bound [OF w] Some _ w] by blast
  obtain q w2 where d: "submit_callback_drain en failure drain i (put_handle i h1 w) = (q, w2)" by fastforce
  have w2: "world_ok w2" using submit_drain_ok [OF w1, of en failure drain i] d by simp
  then have "world_ok (case w_handles w2 i of None \<Rightarrow> w2 | Some h2 \<Rightarrow> put_handle i (register_callback_rollback h2) w2)"
    using put_same_load(2) [OF world_ok_bound [OF w2] _ _ w2] by (auto split: option.splits)
  with w w1 w2 show ?thesis
    by (auto simp: register_callback_def Some r d Let_def split: sum.splits)
qed (simp add: register_callback_def w)

section \<open>Adopted tasks\<close>

lemma refuse_backend_ok: "bound_ok w \<Longrightarrow> world_ok (snd (refuse_backend w))"
  using drop_work_ok [where w = w and st = "w_stage w" and q = "release_backend_if_quiescent (w_stage w)"]
  by (auto simp: refuse_backend_def release_backend_if_quiescent_def split: prod.splits)

lemma resolve_caller_ok:
  fixes w w' :: "('v, 'e) world"
  assumes w: "world_ok w" and r: "resolve_backend en w = (Inr (Backend_caller, l), w')"
  shows "world_ok w'"
proof -
  have "st_generation_lease (w_stage w') = st_generation_lease (w_stage w)"
  proof (cases "choose_backend en (w_stage w) :: 'e exc + (backend_kind \<times> loop_ref option)")
    case (Inl e)
    with r show ?thesis by (cases "st_active_backend (w_stage w)") (simp_all add: resolve_backend_def Let_def)
  next
    case (Inr x)
    then obtain bk lp where c: "choose_backend en (w_stage w) = (Inr (bk, lp) :: 'e exc + (backend_kind \<times> loop_ref option))"
      by (cases x) simp
    from r show ?thesis
      by (cases bk) (auto simp: resolve_backend_def Let_def c split: option.splits sum.splits prod.splits)
  qed
  with resolve_ok [OF world_ok_bound [OF w] r] w show ?thesis by (simp add: world_ok_def has_active_work_def)
qed

lemma adopt_ok:
  assumes w: "world_ok w"
  shows "world_ok (snd (adopt en t l origin w))"
proof -
  obtain q w1 where r: "resolve_backend en w = (q, w1)" by fastforce
  note f = resolve_ok [OF world_ok_bound [OF w] r]
  note ref = refuse_backend_ok [OF f(1)]
  have added: "world_ok (w1\<lparr>w_stage := touch now ((w_stage w1)\<lparr>st_adopted_tasks := st_adopted_tasks (w_stage w1) @ [(t, origin)]\<rparr>),
      w_task_cancels := tc\<rparr>)" if "\<not> isl q" for now tc
    using f(1,7) that
    by (auto simp: world_ok_def bound_ok_def handles_ok_def has_active_work_def)
  show ?thesis
    using w ref added r resolve_error_ok [OF w]
    by (auto simp: adopt_def Let_def split: option.splits sum.splits)
qed

lemma create_task_ok:
  assumes w: "world_ok w"
  shows "world_ok (snd (create_task en is_coroutine failure origin w))"
proof -
  obtain q w1 where r: "resolve_backend en w = (q, w1)" by fastforce
  note f = resolve_ok [OF world_ok_bound [OF w] r]
  note ref = refuse_backend_ok [OF f(1)]
  have err: "world_ok w1" if "isl q" using resolve_error_ok [OF w] r that by (cases q) auto
  have own: "world_ok w1" if "q = Inr (Backend_caller, l)" for l using resolve_caller_ok [OF w] r that by blast
  have adopted: "world_ok w3" if "world_ok w1" "adopt en t l origin (w1\<lparr>w_next_task := n\<rparr>) = (x, w3)" for t l n x w3
    using adopt_ok [of "w1\<lparr>w_next_task := n\<rparr>" en t l origin] that by simp
  show ?thesis
    using w ref r err own adopted
    by (auto simp: create_task_def Let_def split: option.splits sum.splits prod.splits)
qed

lemma adopted_done_ok:
  assumes w: "world_ok w"
  shows "world_ok (snd (adopted_task_done en t w))"
proof (cases "map_of (st_adopted_tasks (w_stage w)) t")
  case (Some origin)
  let ?st = "touch (en_now en) ((w_stage w)\<lparr>st_adopted_tasks := filter (\<lambda>p. fst p \<noteq> t) (st_adopted_tasks (w_stage w))\<rparr>)"
  have "bound_ok (w\<lparr>w_stage := ?st\<rparr>)"
    using world_ok_bound [OF w] by (auto simp: bound_ok_def handles_ok_def has_active_work_def)
  from drop_work_ok [OF this, of "if has_active_work ?st then (None, ?st) else release_backend_if_quiescent ?st"]
  have "world_ok (snd (return_lease (fst (if has_active_work ?st then (None, ?st) else release_backend_if_quiescent ?st))
     (w\<lparr>w_stage := snd (if has_active_work ?st then (None, ?st) else release_backend_if_quiescent ?st)\<rparr>)))" by simp
  then show ?thesis
    by (auto simp: adopted_task_done_def Some Let_def split: prod.splits sum.splits if_splits)
qed (simp add: adopted_task_done_def w)

section \<open>Timers, cancellation and collection\<close>

lemma cancel_all_ok: "world_ok w \<Longrightarrow> world_ok (snd (cancel_all lc task_done hs ts w))"
proof (induction hs arbitrary: w)
  case (Cons i hs)
  have "world_ok (snd (cancel_handle lc i w))" by (rule cancel_handle_ok [OF Cons.prems])
  with Cons.IH show ?case by (auto split: prod.splits sum.splits)
qed simp

lemma same_binding_ok: "world_ok w \<Longrightarrow> same_binding (w_stage w) st \<Longrightarrow> world_ok (w\<lparr>w_stage := st\<rparr>)"
  using binding_cong(2) [of w "w\<lparr>w_stage := st\<rparr>"] by simp

lemma timer_fires_ok: "world_ok w \<Longrightarrow> world_ok (snd (idle_timer_fires lc task_done now token w))"
  by (auto simp: idle_timer_fires_def split: prod.splits intro!: cancel_all_ok same_binding_ok deadline_binding)

lemma cancel_scope_binding: "cancel_scope en st = (r, st') \<Longrightarrow> same_binding st st'"
  by (auto simp: cancel_scope_def same_binding_def split: sum.splits if_splits)

lemma cancel_and_wait_ok:
  assumes w: "world_ok w"
  shows "world_ok (snd (cancel_and_wait_settled en task_done waited w))"
proof -
  obtain r st where c: "cancel_scope en (w_stage w) = (r, st)" by fastforce
  have w1: "world_ok (w\<lparr>w_stage := st\<rparr>)" by (rule same_binding_ok [OF w cancel_scope_binding [OF c]])
  then show ?thesis
    using cancel_all_ok [OF w1]
    by (auto simp: cancel_and_wait_settled_def c split: sum.splits option.splits prod.splits)
qed

lemma collect_errors_ok:
  assumes w: "world_ok w"
  shows "world_ok (collect_handle_errors i w)"
proof (cases "w_handles w i")
  case (Some h)
  obtain es h1 where t: "take_unreported_stage_errors h = (es, h1)" by fastforce
  then have "same_load h h1" using same_load_ops(11) [of h] by simp
  then have "world_ok (put_handle i h1 w)" using put_same_load(2) [OF world_ok_bound [OF w] Some _ w] by blast
  from same_binding_ok [OF this, of "(w_stage w)\<lparr>st_scope_settlement_errors := st_scope_settlement_errors (w_stage w) @ es\<rparr>"]
  show ?thesis by (simp add: collect_handle_errors_def Some t same_binding_def)
qed (simp add: collect_handle_errors_def w)

section \<open>Every order of operations\<close>

lemma finished_load:
  assumes "submission_finished g h c = Inr (h', q, c')" "work_ok h"
  shows "work_ok h'" "q \<longleftrightarrow> h_pending_work h' = 0" "0 < h_pending_work h"
  using assms release_load [of h h' q]
  by (auto simp: submission_finished_def split: sum.splits prod.splits)

text \<open>The end of a submission or of a descendant task for the scope: \<open>_handle_quiescent\<close> follows the last
  release.\<close>

lemma caller_runner_ok: "world_ok w \<Longrightarrow> world_ok (snd (caller_runner_ended i w))"
  by (simp add: caller_runner_ended_def release_handle_ok)

definition work_done :: "nat \<Rightarrow> ('v, 'e) handle \<Rightarrow> bool \<Rightarrow> carrier \<Rightarrow> ('v, 'e) world \<Rightarrow> ('v, 'e) world" where
  "work_done i h q c w =
     (let w1 = (put_handle i h w)\<lparr>w_carrier := c\<rparr> in if q then snd (handle_quiescent i w1) else w1)"

lemma work_done_ok:
  assumes w: "world_ok w" and h: "w_handles w i = Some h" and s: "same_load h h0"
    "submission_finished g h0 c0 = Inr (h', q, c)"
  shows "world_ok (work_done i h' q c w)"
proof -
  note b = world_ok_bound [OF w]
  have "work_ok h0" using bound_okD(2) [OF b h] s(1) by (simp add: work_ok_def same_load_def)
  note f = finished_load [OF s(2) this]
  have "i \<in> set (st_active_handles (w_stage w))" using bound_okD(3) [OF b h] f(3) s(1) by (simp add: same_load_def)
  then have p: "world_ok ((put_handle i h' w)\<lparr>w_carrier := c\<rparr>)" using put_loaded(2) [OF b h f(1) _ w] by simp
  then show ?thesis
    using f(2) quiescent_ok [OF world_ok_bound [OF p], of i h'] by (simp add: work_done_def Let_def)
qed

inductive scope_step :: "('v, 'e) world \<Rightarrow> ('v, 'e) world \<Rightarrow> bool" where
  scope_go: "go_scalar en failure a w = (r, w') \<Longrightarrow> scope_step w w'"
| scope_runner_starts: "(loop, job) \<in> set (w_calls w) \<Longrightarrow>
    start_runner en failure loop job (w\<lparr>w_calls := remove1 (loop, job) (w_calls w)\<rparr>) = (r, w') \<Longrightarrow> scope_step w w'"
| scope_body_ends: "w_handles w i = Some h \<Longrightarrow> 0 < h_pending_work h \<Longrightarrow>
    body_finished en unavailable failure drain ignored admission out i w = (r, w') \<Longrightarrow> scope_step w w'"
| scope_runner_ends: "caller_runner_ended i w = (r, w') \<Longrightarrow> scope_step w w'"
| scope_submission_starts: "run_submission loop current g sm w = (r, w') \<Longrightarrow> scope_step w w'"
| scope_submission_ends: "stage_runner_ended g i w = (r, w') \<Longrightarrow> scope_step w w'"
| scope_descendant: "w_handles w i = Some h \<Longrightarrow> 0 < h_pending_work h \<Longrightarrow>
    task_factory active g t h (w_carrier w) = (Inr (h', b, c) :: 'e exc + _) \<Longrightarrow>
    scope_step w ((put_handle i h' w)\<lparr>w_carrier := c\<rparr>)"
| scope_descendant_done: "w_handles w i = Some h \<Longrightarrow>
    descendant_done g t error h (w_carrier w) = (Inr (h', q, c) :: 'e exc + _) \<Longrightarrow>
    scope_step w (work_done i h' q c w)"
| scope_late_callback: "register_callback en failure drain kind f ctx i w = (r, w') \<Longrightarrow> scope_step w w'"
| scope_callback_taken: "w_handles w i = Some h \<Longrightarrow> drain_pop h = (act, h') \<Longrightarrow> scope_step w (put_handle i h' w)"
| scope_callback_raises: "w_handles w i = Some h \<Longrightarrow> scope_step w (put_handle i (record_settlement_error e h) w)"
| scope_adopt: "adopt en t l origin w = (r, w') \<Longrightarrow> scope_step w w'"
| scope_create_task: "create_task en is_coroutine failure origin w = (r, w') \<Longrightarrow> scope_step w w'"
| scope_adopted_done: "adopted_task_done en t w = (r, w') \<Longrightarrow> scope_step w w'"
| scope_timer: "idle_timer_fires lc task_done now token w = (r, w') \<Longrightarrow> scope_step w w'"
| scope_cancel: "cancel_and_wait_settled en task_done waited w = (r, w') \<Longrightarrow> scope_step w w'"
| scope_cancel_handle: "cancel_handle lc i w = (r, w') \<Longrightarrow> scope_step w w'"
| scope_collect: "scope_step w (collect_handle_errors i w)"
| scope_seal: "scope_step w (w\<lparr>w_stage := seal (w_stage w)\<rparr>)"
| scope_tick: "scope_step w (w\<lparr>w_stage := tick now (w_stage w)\<rparr>)"
| scope_admission_ends: "scope_step w (w\<lparr>w_stage := finish_admission admission (w_stage w)\<rparr>)"
| scope_others: "carrier_step (w_carrier w) c \<Longrightarrow> scope_step w (w\<lparr>w_carrier := c\<rparr>)"

definition scope_start :: "('v, 'e) world \<Rightarrow> bool" where
  "scope_start w \<longleftrightarrow> (\<exists>ref now a. stage_init ref now a = (Inr (w_stage w) :: 'e exc + 'e stage)) \<and> w_handles w = Map.empty"

lemma scope_start_ok: "scope_start w \<Longrightarrow> world_ok w"
  using stage_init_fresh
  by (fastforce simp: scope_start_def world_ok_def bound_ok_def handles_ok_def has_active_work_def fresh_stage_def)

lemma pop_load: "drain_pop h = (act, h') \<Longrightarrow> same_load h h'"
  by (auto simp: drain_pop_def same_load_def split: list.splits option.splits)

lemma stepped: "f = (r, w') \<Longrightarrow> world_ok (snd f) \<Longrightarrow> world_ok w'"
  by simp

lemma scope_step_ok:
  assumes w: "world_ok w" and "scope_step w w'"
  shows "world_ok w'"
  using assms(2)
proof cases
  case (scope_body_ends i h en unavailable failure drain ignored admission out r)
  then show ?thesis using body_finished_ok [OF w] bound_okD(3) [OF world_ok_bound [OF w]] by (metis snd_conv)
next
  case (scope_runner_starts loop job en failure r)
  then show ?thesis using start_runner_ok [of "w\<lparr>w_calls := remove1 (loop, job) (w_calls w)\<rparr>"] w by (metis lists_frame_ok(1) snd_conv)
next
  case (scope_descendant i h active g t h' b c)
  then show ?thesis using owned_task_ok [OF w] bound_okD(3) [OF world_ok_bound [OF w]] by blast
next
  case (scope_descendant_done i h g t error h' q c)
  let ?h = "case error of None \<Rightarrow> unregister_owned_task t h
      | Some e \<Rightarrow> record_settlement_error e (unregister_owned_task t h)"
  have l: "same_load h ?h"
    by (cases error) (simp_all add: same_load_def unregister_owned_task_def record_settlement_error_def)
  have "submission_finished g ?h (w_carrier w) = Inr (h', q, c)"
    using scope_descendant_done(3) by (simp add: descendant_done_def Let_def)
  from work_done_ok [OF w scope_descendant_done(2) l this] scope_descendant_done(1) show ?thesis by simp
next
  case (scope_callback_taken i h act h')
  then show ?thesis using put_same_load(2) [OF world_ok_bound [OF w] _ pop_load w] by blast
next
  case (scope_callback_raises i h e)
  then show ?thesis using put_same_load(2) [OF world_ok_bound [OF w] _ _ w] by simp
next
  case scope_collect
  then show ?thesis using collect_errors_ok [OF w] by simp
next
  case (scope_go en failure a r)
  then show ?thesis using go_scalar_ok [OF w] by blast
qed (auto intro: w same_binding_ok [OF w]
      elim!: stepped intro!: caller_runner_ok run_submission_ok stage_runner_ended_ok register_callback_ok adopt_ok create_task_ok
        adopted_done_ok timer_fires_ok cancel_and_wait_ok cancel_handle_ok)

interpretation scopes: inductive_invariant scope_start scope_step world_ok
  by unfold_locales (auto intro: scope_start_ok scope_step_ok)

section \<open>Properties\<close>


lemma settled_handles:
  "world_ok w \<Longrightarrow> \<not> has_active_work (w_stage w) \<Longrightarrow> w_handles w i = Some h \<Longrightarrow>
   h_pending_work h = 0 \<and> h_settlement_done h"
  using bound_okD(2,3) [of w i h, OF world_ok_bound]
  by (fastforce simp: has_active_work_def work_ok_def)

lemma wait_loop_settled:
  "wait_loop origin deadline (map (\<lambda>x. (w_stage (fst x), snd x)) obs) = Some (Inr v) \<Longrightarrow>
   \<exists>x\<in>set obs. \<not> has_active_work (w_stage (fst x))"
proof (induction obs)
  case (Cons x obs)
  show ?case
  proof (cases "has_active_work (w_stage (fst x))")
    case True
    with Cons.prems have "wait_loop origin deadline (map (\<lambda>x. (w_stage (fst x), snd x)) obs) = Some (Inr v)"
      by (cases x) (simp split: option.splits if_splits)
    with Cons.IH show ?thesis by simp
  qed simp
qed simp



section \<open>A scope at work\<close>

text \<open>A root that runs on the caller loop 4, and the scope after it has ended.\<close>

definition job_args :: go_args where
  "job_args = \<lparr>ga_origin = ''go:f'', ga_runner = 1, ga_context = 0, ga_on_success = None, ga_on_error = None,
     ga_on_finally = None\<rparr>"

definition busy_world :: "(nat, nat) world" where
  "busy_world = snd (go_scalar on_loop None job_args empty_world)"

definition ended_world :: "(nat, nat) world" where
  "ended_world = snd (caller_runner_ended 0
     (snd (body_finished on_loop 0 None 0 False (Some Immediate_admission) (Returned 5) 0 busy_world)))"

lemma busy_world_reachable: "reachable scope_start scope_step busy_world"
proof -
  have "stage_init 0 0 (limited_args\<lparr>sa_loop := Arg_auto\<rparr>) = (Inr (w_stage empty_world) :: nat exc + nat stage)"
    by (simp add: stage_init_Inr empty_world_def) (simp add: limited_args_def fresh_stage_def)
  then have "scope_start empty_world" unfolding scope_start_def by (auto simp: empty_world_def)
  then show ?thesis
    unfolding busy_world_def by (blast intro: reach_step reach_start scope_go surjective_pairing)
qed

lemmas scope_eval = job_args_def go_scalar_def go_locked_def admit_root_def new_handle_def resolve_backend_def
  choose_backend_def inherited_caller_loop_for_sync_def register_initial_def schedule_caller_runner_def start_runner_def
  retain_work_def handle_init_def set_owner_task_def empty_world_def fresh_stage_def limited_args_def
  on_loop_def outside_def plain_caller_def touch_def has_active_work_def schedule_idle_timer_def
  put_handle_def Let_def

lemma busy_world_value:
  "w_handles busy_world = [0 \<mapsto> (handle_init ''go:f'' Backend_caller)\<lparr>h_pending_work := 1, h_settlement_epoch := 1,
     h_settlement_done := False, h_owner_loop := Some 4, h_owner_task := Some 0\<rparr>]"
  "st_active_handles (w_stage busy_world) = [0]" "st_adopted_tasks (w_stage busy_world) = []"
  "st_idle_timeout (w_stage busy_world) = Some 5" "st_last_activity (w_stage busy_world) = 0"
  "\<not> st_sealed (w_stage busy_world)" "st_pending_admissions (w_stage busy_world) = []"
  "st_generation_lease (w_stage busy_world) = None" "w_next_handle busy_world = 1"
  by (simp_all add: busy_world_def scope_eval)


lemma ended_world_reachable: "reachable scope_start scope_step ended_world"
proof -
  let ?w = "snd (body_finished on_loop 0 None 0 False (Some Immediate_admission) (Returned 5) 0 busy_world)"
  obtain h where "w_handles busy_world 0 = Some h" "0 < h_pending_work h"
    by (simp add: busy_world_value handle_init_def)
  then have "scope_step busy_world ?w" by (rule scope_body_ends [OF _ _ surjective_pairing])
  then have "reachable scope_start scope_step ?w" by (rule reach_step [OF busy_world_reachable])
  moreover have "scope_step ?w ended_world"
    unfolding ended_world_def by (rule scope_runner_ends [OF surjective_pairing])
  ultimately show ?thesis by (rule reach_step)
qed

lemma ended_world_settled: "\<not> has_active_work (w_stage ended_world)" "w_handles ended_world 0 \<noteq> None"
proof -
  let ?h = "(handle_init ''go:f'' Backend_caller)\<lparr>h_pending_work := 1, h_settlement_epoch := 1,
     h_settlement_done := False, h_owner_loop := Some 4, h_owner_task := Some (0::nat)\<rparr> :: (nat, nat) handle"
  have "w_handles busy_world 0 = Some ?h" "just_started ?h"
    by (simp_all add: busy_world_value just_started_def handle_init_def)
  from caller_root_ends [OF this busy_world_value(2,3,7,8), of on_loop 0 0 "Returned 5"]
  obtain r w2 w3 h3 where "body_finished on_loop 0 None 0 False (Some Immediate_admission) (Returned 5) 0 busy_world = (r, w2)"
    "caller_runner_ended 0 w2 = (Inr () :: nat exc + unit, w3)" "w_handles w3 0 = Some h3" "\<not> has_active_work (w_stage w3)"
    by blast
  then show "\<not> has_active_work (w_stage ended_world)" "w_handles ended_world 0 \<noteq> None"
    by (simp_all add: ended_world_def)
qed



end
