(* ===== verification/Scope_History.thy ===== *)
theory Scope_History
  imports Scope_System Handle_Props
begin

text \<open>
  What a scope never takes back. Along every interleaving of its operations, on every path and with every
  failure, a preorder on worlds only goes up: handles are not forgotten, outcomes are final, recorded
  errors, cancellation requests and issued cancellations stay, and a sealed scope stays sealed.
\<close>

section \<open>The preorder\<close>

definition handle_le :: "('v, 'e) handle \<Rightarrow> ('v, 'e) handle \<Rightarrow> bool" where
  "handle_le h h' \<longleftrightarrow> keeps_history h h' \<and> (h_cancel_requested h \<longrightarrow> h_cancel_requested h')
     \<and> h_origin h' = h_origin h \<and> h_backend_kind h' = h_backend_kind h"

definition stage_le :: "'e stage \<Rightarrow> 'e stage \<Rightarrow> bool" where
  "stage_le st st' \<longleftrightarrow> st_ref st' = st_ref st \<and> st_backend_mode st' = st_backend_mode st
     \<and> st_max_concurrency st' = st_max_concurrency st \<and> st_idle_timeout st' = st_idle_timeout st
     \<and> prefix (st_scope_settlement_errors st) (st_scope_settlement_errors st')
     \<and> (st_sealed st \<longrightarrow> st_sealed st' \<and> st_idle_timeout_error st' = st_idle_timeout_error st)"

definition world_le :: "('v, 'e) world \<Rightarrow> ('v, 'e) world \<Rightarrow> bool" where
  "world_le w w' \<longleftrightarrow> stage_le (w_stage w) (w_stage w')
     \<and> (\<forall>i h. w_handles w i = Some h \<longrightarrow> (\<exists>h'. w_handles w' i = Some h' \<and> handle_le h h'))
     \<and> w_next_handle w \<le> w_next_handle w' \<and> prefix (w_tasks w) (w_tasks w')
     \<and> prefix (w_task_cancels w) (w_task_cancels w') \<and> prefix (w_cancel_calls w) (w_cancel_calls w')"

lemma same_outcome_refl: "h_body_completed h \<Longrightarrow> same_outcome h h"
  by (simp add: same_outcome_def)

lemma handle_le_refl [simp]: "handle_le h h"
  by (simp add: handle_le_def keeps_history_def same_outcome_refl)

lemma handle_le_trans: "handle_le a b \<Longrightarrow> handle_le b c \<Longrightarrow> handle_le a c"
  by (auto simp: handle_le_def keeps_history_def same_outcome_def intro: prefix_order.trans)

lemma stage_le_refl [simp]: "stage_le st st"
  by (simp add: stage_le_def)

lemma stage_le_trans: "stage_le a b \<Longrightarrow> stage_le b c \<Longrightarrow> stage_le a c"
  by (auto simp: stage_le_def intro: prefix_order.trans)

lemma world_le_refl [simp]: "world_le w w"
  by (simp add: world_le_def)

lemma world_le_trans: "world_le a b \<Longrightarrow> world_le b c \<Longrightarrow> world_le a c"
  unfolding world_le_def
  by (meson handle_le_trans stage_le_trans le_trans prefix_order.trans)

lemma world_leD:
  "world_le w w' \<Longrightarrow> w_handles w i = Some h \<Longrightarrow> \<exists>h'. w_handles w' i = Some h' \<and> handle_le h h'"
  by (simp add: world_le_def)

section \<open>Elementary updates\<close>

lemma world_le_frame [simp]:
  "world_le w (w'\<lparr>w_carrier := c\<rparr>) = world_le w w'" "world_le w (w'\<lparr>w_calls := cs\<rparr>) = world_le w w'"
  "world_le w (w'\<lparr>w_next_task := t\<rparr>) = world_le w w'"
  "world_le (w\<lparr>w_carrier := c\<rparr>) w' = world_le w w'" "world_le (w\<lparr>w_calls := cs\<rparr>) w' = world_le w w'"
  "world_le (w\<lparr>w_next_task := t\<rparr>) w' = world_le w w'"
  by (simp_all add: world_le_def)

lemma world_le_more:
  "world_le w w' \<Longrightarrow> world_le w (w'\<lparr>w_task_cancels := w_task_cancels w' @ ts\<rparr>)"
  "world_le w w' \<Longrightarrow> world_le w (w'\<lparr>w_cancel_calls := w_cancel_calls w' @ cs\<rparr>)"
  "world_le w w' \<Longrightarrow> world_le w (w'\<lparr>w_tasks := w_tasks w' @ us\<rparr>)"
  "world_le w w' \<Longrightarrow> stage_le (w_stage w') st \<Longrightarrow> world_le w (w'\<lparr>w_stage := st\<rparr>)"
  by (auto simp: world_le_def intro: prefix_order.trans stage_le_trans)

lemma put_handle_lists [simp]:
  "w_cancel_calls (put_handle i h w) = w_cancel_calls w" "w_task_cancels (put_handle i h w) = w_task_cancels w"
  "w_tasks (put_handle i h w) = w_tasks w" "w_next_task (put_handle i h w) = w_next_task w"
  by (simp_all add: put_handle_def)

lemma put_le: "w_handles w i = Some h \<Longrightarrow> handle_le h h' \<Longrightarrow> world_le w (put_handle i h' w)"
  by (auto simp: world_le_def put_handle_def)

lemma put_later: "world_le w w' \<Longrightarrow> w_handles w' i = Some h \<Longrightarrow> handle_le h h' \<Longrightarrow> world_le w (put_handle i h' w')"
  using world_le_trans put_le by blast

lemma stage_le_simps [simp]:
  "stage_le st (st\<lparr>st_active_handles := hs\<rparr>)" "stage_le st (st\<lparr>st_adopted_tasks := ts\<rparr>)"
  "stage_le st (st\<lparr>st_active_root_count := n\<rparr>)" "stage_le st (st\<lparr>st_pending_admissions := q\<rparr>)"
  "stage_le st (st\<lparr>st_cancelling := b\<rparr>)" "stage_le st (seal st)" "stage_le st (tick now st)"
  "stage_le st (touch now st)" "stage_le st (owned_activity now st)"
  "stage_le st (snd (release_backend_if_quiescent st))"
  by (simp_all add: stage_le_def seal_def tick_def touch_def owned_activity_def schedule_idle_timer_def
      release_backend_if_quiescent_def Let_def split: option.splits)

lemma grant_next_le: "stage_le st (grant_next st)"
proof (induction st rule: grant_next.induct)
  case (1 st)
  then show ?case
    by (subst grant_next.simps) (auto simp: Let_def stage_le_def split: list.splits option.splits)
qed

lemma finish_admission_le [simp]: "stage_le st (finish_admission a st)"
proof (cases a)
  case (Some r)
  let ?st = "if admission_granted st r then st\<lparr>st_active_root_count := st_active_root_count st - 1\<rparr>
             else case r of Immediate_admission \<Rightarrow> st
                  | Queued_admission i \<Rightarrow> st\<lparr>st_pending_admissions := remove1 i (st_pending_admissions st)\<rparr>"
  have "stage_le st ?st" by (simp split: admission_ref.splits)
  from stage_le_trans [OF this grant_next_le] show ?thesis by (simp add: finish_admission_def Some)
qed (simp add: finish_admission_def)

lemma admit_le: "admit_root en st = (r, st') \<Longrightarrow> stage_le st st'"
  by (auto simp: admit_root_def stage_le_def Let_def split: if_splits)

lemma deadline_le: "idle_deadline_reached origin now token st = (st', hs, ts) \<Longrightarrow> stage_le st st'"
  by (auto simp: idle_deadline_reached_def stage_le_def schedule_idle_timer_def Let_def split: option.splits if_splits)

lemma cancel_scope_le: "cancel_scope en st = (r, st') \<Longrightarrow> stage_le st st'"
  by (auto simp: cancel_scope_def split: sum.splits if_splits)

lemma handle_le_ops [simp]:
  "handle_le h (register_initial_callback k f c h)" "handle_le h (record_settlement_error e h)"
  "handle_le h (fst (set_body_outcome ign out h))" "handle_le h (fst (set_body_exception e ign h))"
  "handle_le h (fst (set_owner_task l t h))" "handle_le h (fst (register_callback_locked k f c h))"
  "handle_le h (register_callback_rollback h)" "handle_le h (fst (register_owned_task t p h))"
  "handle_le h (unregister_owned_task t h)" "handle_le h (set_generation_id g h)"
  "handle_le h (snd (take_unreported_stage_errors h))" "handle_le h (retain_work h)"
  "handle_le h (h\<lparr>h_cancel_requested := True\<rparr>)"
  by (auto simp: handle_le_def keeps_history_def same_outcome_def register_initial_callback_def record_settlement_error_def
      set_body_outcome_def set_body_result_def set_body_exception_def set_body_cancelled_def finish_body_def
      set_owner_task_def activate_callback_drain_locked_def take_done_callbacks_locked_def register_callback_locked_def
      register_callback_rollback_def register_owned_task_def unregister_owned_task_def set_generation_id_def
      take_unreported_stage_errors_def retain_work_def Let_def split: outcome.splits if_splits)

lemma release_le: "release_work h = Inr (h', q) \<Longrightarrow> handle_le h h'"
  by (auto simp: handle_le_def keeps_history_def same_outcome_def release_work_def Let_def split: if_splits)

lemma pop_le: "drain_pop h = (act, h') \<Longrightarrow> handle_le h h'"
  by (auto simp: handle_le_def keeps_history_def same_outcome_def drain_pop_def split: list.splits option.splits)

section \<open>Every operation goes up\<close>

text \<open>An operation as a function that returns the world second.\<close>

lemma world_le_pair: "f = (r, w') \<Longrightarrow> world_le w (snd f) \<Longrightarrow> world_le w w'"
  by simp

lemma return_lease_le [simp]: "world_le w (snd (return_lease lease w')) = world_le w w'"
  by (simp add: return_lease_def split: option.split sum.split)

lemma quiescent_le: "world_le w (snd (handle_quiescent i w))"
proof (cases "w_handles w i")
  case (Some h)
  obtain es h1 where t: "take_unreported_stage_errors h = (es, h1)" by fastforce
  then have p: "world_le w (put_handle i h1 w)" using put_le [OF Some] handle_le_ops(11) [of h] by simp
  let ?st = "(w_stage w)\<lparr>st_scope_settlement_errors := st_scope_settlement_errors (w_stage w) @ es,
    st_active_handles := removeAll i (st_active_handles (w_stage w))\<rparr>"
  have "stage_le (w_stage w) ?st" by (simp add: stage_le_def)
  with stage_le_trans [OF this stage_le_simps(10)]
  have "world_le w ((put_handle i h1 w)\<lparr>w_stage := ?st\<rparr>)"
    "world_le w ((put_handle i h1 w)\<lparr>w_stage := snd (release_backend_if_quiescent ?st)\<rparr>)"
    by (auto intro!: world_le_more(4) [OF p])
  then show ?thesis
    by (cases "has_active_work ?st") (simp_all add: handle_quiescent_def Some t Let_def split_beta)
qed (simp add: handle_quiescent_def)

lemma release_handle_le: "world_le w (snd (release_handle_work i w))"
proof (cases "w_handles w i")
  case (Some h)
  have "world_le w (snd (handle_quiescent i (put_handle i h1 w))) \<and> world_le w (put_handle i h1 w)"
    if "release_work h = Inr (h1, q)" for h1 q
    using put_le [OF Some release_le [OF that]] quiescent_le world_le_trans by blast
  then show ?thesis by (simp add: release_handle_work_def Some split: sum.split prod.split)
qed (simp add: release_handle_work_def)

lemma ended_le: "world_le w w' \<Longrightarrow>
   world_le w (snd (release_handle_work i (w'\<lparr>w_stage := finish_admission ad (w_stage w')\<rparr>)))"
  by (rule world_le_trans [OF world_le_more(4) release_handle_le]) simp_all

lemma complete_body_le:
  assumes "\<And>h. handle_le h (fst (set_body h))"
  shows "world_le w (snd (complete_body en i set_body w))"
proof (cases "w_handles w i")
  case (Some h)
  obtain h1 b cs where s: "set_body h = (h1, b, cs)" by (cases "set_body h")
  then have "world_le w (put_handle i h1 w)" using put_le [OF Some] assms [of h] by simp
  from world_le_more(4) [OF this] show ?thesis by (simp add: complete_body_def Some s)
qed (simp add: complete_body_def)

lemma start_runner_le: "world_le w (snd (start_runner en failure loop job w))"
proof (cases "w_handles w (rj_handle job)")
  case (Some h)
  show ?thesis
  proof (cases failure)
    case None
    let ?w1 = "w\<lparr>w_next_task := Suc (w_next_task w), w_tasks := w_tasks w @ [(w_next_task w, loop, job)]\<rparr>"
    obtain h1 c where s: "set_owner_task loop (w_next_task w) h = (h1, c)" by fastforce
    have w1: "world_le w ?w1" using world_le_more(3) [of w w] world_le_frame(3) by (simp add: world_le_def)
    have "world_le w (put_handle (rj_handle job) h1 ?w1)"
      using put_later [OF w1, of "rj_handle job" h] Some s handle_le_ops(5) [of h loop "w_next_task w"] by simp
    from world_le_more(1) [OF this, of "if c then [w_next_task w] else []"] w1 show ?thesis
      by (cases c) (simp_all add: start_runner_def Some None Let_def s put_handle_def)
  next
    case e: (Some error)
    have "world_le w (snd (complete_body en (rj_handle job) (set_body_exception error False) w))"
      by (rule complete_body_le) simp
    moreover have "world_le w (put_handle (rj_handle job) (record_settlement_error error h) w)"
      by (rule put_le [OF Some]) simp
    ultimately show ?thesis
      using ended_le [of w _ "rj_handle job" "rj_admission job"]
      by (cases "rj_owner job") (simp_all add: start_runner_def Some e Let_def del: put_handle_frame)
  qed
qed (simp add: start_runner_def)

lemma schedule_runner_le: "world_le w (snd (schedule_caller_runner en failure loop job w))"
proof (cases "w_handles w (rj_handle job)")
  case (Some h)
  have w1: "world_le w (put_handle (rj_handle job) (retain_work h) w)" by (rule put_le [OF Some]) simp
  with world_le_trans [OF w1 start_runner_le] world_le_trans [OF w1 release_handle_le] show ?thesis
    by (simp add: schedule_caller_runner_def Some Let_def split: option.splits)
qed (simp add: schedule_caller_runner_def)

lemma resolve_le:
  fixes w :: "('v, 'e) world"
  shows "world_le w (snd (resolve_backend en w))" "w_handles (snd (resolve_backend en w)) = w_handles w"
    "w_next_handle (snd (resolve_backend en w)) = w_next_handle w"
  by (auto simp: resolve_backend_def Let_def world_le_def stage_le_def split: option.splits sum.splits prod.splits backend_kind.splits)

lemma new_handle_le:
  assumes w: "handles_ok w"
  shows "world_le w (snd (new_handle en origin allow w))"
proof -
  obtain r w1 where q: "resolve_backend en w = (r, w1)" by fastforce
  note f = resolve_le [where en = en and w = w, unfolded q snd_conv]
  have "w_handles w1 (w_next_handle w1) = None"
    using w f(2,3) by (auto simp: handles_ok_def intro: ccontr)
  then have new: "world_le w1 ((put_handle (w_next_handle w1) (handle_init origin bk) w1)\<lparr>w_next_handle := Suc (w_next_handle w1),
      w_stage := touch now ((w_stage w1)\<lparr>st_active_handles := List.insert (w_next_handle w1) (st_active_handles (w_stage w1))\<rparr>)\<rparr>)"
    for bk now
    using stage_le_trans [OF stage_le_simps(1) stage_le_simps(8)] by (auto simp: world_le_def put_handle_def)
  show ?thesis
  proof (cases r)
    case (Inr x)
    then show ?thesis using world_le_trans [OF f(1) new] by (cases x) (simp add: new_handle_def q Let_def)
  qed (simp add: new_handle_def q f(1))
qed

lemma register_initial_le: "world_le w w' \<Longrightarrow> world_le w (register_initial k f ctx i w')"
  by (auto simp: register_initial_def intro: put_later split: option.splits)

lemma carrier_submit_le:
  assumes "carrier_submit sm preferred cl h c = (r, h', q, c')"
  shows "handle_le h h'"
proof -
  have "handle_le h h2" if "slot_submit sid sm pref h c1 = (r1, h2, q2, c2)" for sid pref c1 r1 h2 q2 c2
  proof -
    have "handle_le h (retain_work h)" "\<And>h1 q1. release_work (retain_work h) = Inr (h1, q1) \<Longrightarrow> handle_le h h1"
      "\<And>g. handle_le h (set_generation_id g (retain_work h))"
      using handle_le_trans [OF handle_le_ops(12) release_le] handle_le_trans [OF handle_le_ops(12) handle_le_ops(10)]
      by simp_all
    with that show ?thesis
      by (auto simp: slot_submit_def Let_def split: prod.splits sum.splits option.splits if_splits)
  qed
  with assms show ?thesis
    by (auto simp: carrier_submit_def split: option.splits prod.splits sum.splits)
qed

lemma submit_handle_le: "world_le w (snd (submit_handle en sm preferred w))"
proof (cases "w_handles w (sm_handle sm)")
  case (Some h)
  obtain r h1 q c where s: "carrier_submit sm preferred (en_caller en) h (w_carrier w) = (r, h1, q, c)"
    by (cases "carrier_submit sm preferred (en_caller en) h (w_carrier w)")
  have p: "world_le w ((put_handle (sm_handle sm) h1 w)\<lparr>w_carrier := c\<rparr>)"
    using put_le [OF Some carrier_submit_le [OF s]] by simp
  from world_le_trans [OF this quiescent_le] p show ?thesis
    by (auto simp: submit_handle_def Some s Let_def split: prod.splits sum.splits) (metis snd_conv)+
qed (simp add: submit_handle_def)

lemma go_locked_le:
  assumes w: "handles_ok w"
  shows "world_le w (snd (go_locked en a w))"
proof -
  obtain r st where a: "admit_root en (w_stage w) = (r, st)" by fastforce
  have w1: "world_le w (w\<lparr>w_stage := st\<rparr>)" by (rule world_le_more(4)) (simp_all add: admit_le [OF a])
  have "handles_ok (w\<lparr>w_stage := st\<rparr>)"
    using w admit_binding [OF a] by (simp add: handles_ok_def same_binding_def)
  note n = world_le_trans [OF w1 new_handle_le [OF this]]
  obtain q w2 where q: "new_handle en (ga_origin a) (en_active_stage en = Some (st_ref (w_stage w))) (w\<lparr>w_stage := st\<rparr>) = (q, w2)"
    by fastforce
  have "world_le w w2" using n [of en "ga_origin a" "en_active_stage en = Some (st_ref (w_stage w))"] q by simp
  then have "world_le w (w2\<lparr>w_stage := finish_admission adm (w_stage w2)\<rparr>)"
    "world_le w (register_initial On_finally (ga_on_finally a) (ga_context a) i
       (register_initial On_error (ga_on_error a) (ga_context a) i
         (register_initial On_success (ga_on_success a) (ga_context a) i w2)))" for adm i
    by (auto intro!: register_initial_le world_le_more(4))
  with w1 show ?thesis
    by (auto simp: go_locked_def Let_def a q split: sum.splits)
qed

lemma cancel_handle_le: "world_le w (snd (cancel_handle lc i w))"
proof (cases "w_handles w i")
  case (Some h)
  have p: "world_le w (put_handle i h1 w)" if "cancel_request h = Some (h1, call)" for h1 call
    by (rule put_le [OF Some]) (use that in \<open>auto simp: cancel_request_def split: if_splits option.splits\<close>)
  then have "world_le w ((put_handle i h1 w)\<lparr>w_cancel_calls := w_cancel_calls w @ cs\<rparr>)"
    if "cancel_request h = Some (h1, call)" for h1 call cs
    using world_le_more(2) [OF p [OF that], of cs] by simp
  with p show ?thesis
    by (auto simp: cancel_handle_def Some split: option.splits)
qed (simp add: cancel_handle_def)

lemma go_scalar_le:
  assumes w: "handles_ok w"
  shows "world_le w (snd (go_scalar en failure a w))"
proof -
  obtain r w1 where l: "go_locked en a w = (r, w1)" by fastforce
  then have w1: "world_le w w1" using go_locked_le [OF w, of en a] by simp
  note sent = world_le_trans [OF w1 submit_handle_le] world_le_trans [OF w1 schedule_runner_le]
  have later: "world_le w (w2\<lparr>w_stage := finish_admission adm (w_stage w2)\<rparr>)" "world_le w (snd (cancel_handle lc i w2))"
    if "world_le w w2" for w2 adm lc i
    using that world_le_trans [OF that cancel_handle_le] by (auto intro!: world_le_more(4))
  show ?thesis
  proof (cases r)
    case (Inr x)
    obtain adm i bk lp sc where x: "x = (adm, i, bk, lp, sc)" by (cases x)
    define f where "f = (case bk of
        Backend_stage \<Rightarrow>
          submit_handle en \<lparr>sm_handle = i, sm_runner = ga_runner a, sm_owner = True, sm_context = ga_context a,
            sm_phase = Phase_body, sm_blocked = st_blocked_generation_ids (w_stage w1)\<rparr> (st_generation_lease (w_stage w1)) w1
      | Backend_caller \<Rightarrow>
          (case lp of None \<Rightarrow> (Inl StageLifecycleError, w1)
           | Some l \<Rightarrow> schedule_caller_runner en failure l
               \<lparr>rj_handle = i, rj_runner = ga_runner a, rj_owner = True, rj_admission = adm\<rparr> w1))"
    have "world_le w (snd f)" using w1 sent by (auto simp: f_def split: backend_kind.split option.split)
    then have f: "world_le w (snd (q, w2))" if "f = (q, w2)" for q w2 using that by simp
    obtain q w2 where q: "f = (q, w2)" by fastforce
    with f have "world_le w w2" by simp
    with later show ?thesis
      unfolding go_scalar_def l Inr x Let_def prod.case sum.case f_def [symmetric] q
      by (cases q) (auto split: prod.splits sum.splits)
  qed (simp add: go_scalar_def l w1)
qed

section \<open>Bodies, callbacks, adopted tasks and timers go up\<close>

lemma owned_task_le: "handle_le h (fst (register_owned_task t p (retain_work h)))"
  by (rule handle_le_trans [OF handle_le_ops(12) handle_le_ops(8)])

lemma task_factory_le: "task_factory active g t h c = Inr (h', b, c') \<Longrightarrow> handle_le h h'"
  by (auto simp: task_factory_def split: option.splits if_splits sum.splits prod.splits) (metis fst_conv owned_task_le)

lemma start_drain_le: "world_le w (snd (start_callback_drain_from_owner en unavailable failure drain i w))"
proof (cases "w_handles w i")
  case (Some h)
  have "world_le w (put_handle i (record_settlement_error unavailable h) w)" by (rule put_le [OF Some]) simp
  with put_le [OF Some task_factory_le] show ?thesis
    using schedule_runner_le
    by (auto simp: start_callback_drain_from_owner_def Some Let_def split: sum.splits option.splits prod.splits)
qed (simp add: start_callback_drain_from_owner_def)

lemma body_finished_le:
  "world_le w (snd (body_finished en unavailable failure drain ignored admission out i w))"
proof -
  obtain b w1 where c: "complete_body en i (set_body_outcome ignored out) w = (b, w1)" by fastforce
  then have w1: "world_le w w1" using complete_body_le [of "set_body_outcome ignored out" w en i] by simp
  obtain r w2 where s: "(if b then start_callback_drain_from_owner en unavailable failure drain i w1 else (Inr (), w1)) = (r, w2)"
    by fastforce
  have "world_le w (snd (r, w2))"
    using world_le_trans [OF w1 start_drain_le] w1 by (simp add: s [symmetric])
  then show ?thesis
    by (auto simp: body_finished_def c s intro!: world_le_more(4))
qed

lemma run_submission_le: "world_le w (snd (run_submission loop current g sm w))"
proof (cases "w_handles w (sm_handle sm)")
  case (Some h)
  have "world_le w (put_handle (sm_handle sm) (fst (set_owner_task loop t h)) w)" for t by (rule put_le [OF Some]) simp
  from world_le_more(1) [OF this] this show ?thesis
    by (auto simp: run_submission_def Some split: option.split prod.split)
      (metis append_Nil2 fst_conv put_handle_lists(2))+
qed (simp add: run_submission_def split: option.split)

lemma stage_runner_ended_le: "world_le w (snd (stage_runner_ended g i w))"
  using release_handle_le [of "w\<lparr>w_carrier := c\<rparr>" i for c]
  by (auto simp: stage_runner_ended_def split: sum.splits)

lemma bind_for_drain_le: "world_le w (snd (bind_for_drain en h w))"
  by (auto simp: bind_for_drain_def Let_def world_le_def stage_le_def split: option.splits sum.splits prod.splits)

lemma submit_drain_le: "world_le w (snd (submit_callback_drain en failure drain i w))"
proof (cases "w_handles w i")
  case (Some h)
  obtain r w1 where b: "bind_for_drain en h w = (r, w1)" by fastforce
  then have w1: "world_le w w1" using bind_for_drain_le [of w en h] by simp
  let ?w2 = "w1\<lparr>w_stage := (w_stage w1)\<lparr>st_active_handles := List.insert i (st_active_handles (w_stage w1))\<rparr>\<rparr>"
  have w2: "world_le w ?w2" by (rule world_le_more(4) [OF w1]) simp
  from w1 w2 world_le_trans [OF w2 submit_handle_le] world_le_trans [OF w2 schedule_runner_le] show ?thesis
    by (cases r) (simp_all add: submit_callback_drain_def Some b Let_def)
qed (simp add: submit_callback_drain_def)

lemma register_callback_le: "world_le w (snd (register_callback en failure drain kind f ctx i w))"
proof (cases "w_handles w i")
  case (Some h)
  obtain h1 start where g: "register_callback_locked kind f ctx h = (h1, start)" by fastforce
  have w1: "world_le w (put_handle i h1 w)" using put_le [OF Some] handle_le_ops(6) [of h kind f ctx] g by simp
  obtain r w2 where s: "submit_callback_drain en failure drain i (put_handle i h1 w) = (r, w2)" by fastforce
  then have w2: "world_le w w2" using world_le_trans [OF w1 submit_drain_le] by (metis snd_conv)
  then have "world_le w (put_handle i (register_callback_rollback h2) w2)" if "w_handles w2 i = Some h2" for h2
    by (rule put_later [OF _ that]) simp
  with w1 w2 show ?thesis
    by (cases r) (simp_all add: register_callback_def Some g s Let_def split: option.split)
qed (simp add: register_callback_def)

lemma refuse_le:
  fixes w :: "('v, 'e) world"
  assumes w: "world_le w w'"
  shows "world_le w (snd (refuse_backend w'))"
proof -
  obtain lease st where q: "release_backend_if_quiescent (w_stage w') = (lease, st)" by fastforce
  then have p: "world_le w (w'\<lparr>w_stage := st\<rparr>)" using world_le_more(4) [OF w stage_le_simps(10)] by simp
  moreover have "w1 = snd (return_lease lease (w'\<lparr>w_stage := st\<rparr>))"
    if "return_lease lease (w'\<lparr>w_stage := st\<rparr>) = (r, w1)" for r and w1 :: "('v, 'e) world"
    by (simp add: that)
  ultimately show ?thesis
    by (auto simp: refuse_backend_def q split: prod.splits sum.splits)
qed

lemma touched_le: "stage_le st st' \<Longrightarrow> stage_le st (touch now st')"
  using stage_le_trans stage_le_simps(8) by blast

lemma adopt_le: "world_le w (snd (adopt en t l origin w))"
proof -
  obtain r w1 where q: "resolve_backend en w = (r, w1)" by fastforce
  then have w1: "world_le w w1" using resolve_le(1) [of w en] by simp
  have adopted: "world_le w (w1\<lparr>w_stage := touch now ((w_stage w1)\<lparr>st_adopted_tasks := ts\<rparr>),
      w_task_cancels := w_task_cancels w1 @ cs\<rparr>)" for now ts cs
    using world_le_more(1) [OF world_le_more(4) [OF w1 touched_le [OF stage_le_simps(2)]], of now ts cs] by simp
  from adopted [of _ _ "[]"] adopted refuse_le [OF w1] w1 show ?thesis
    by (auto simp: adopt_def q Let_def split: sum.splits option.splits)
qed

lemma create_task_le: "world_le w (snd (create_task en is_coroutine failure origin w))"
proof -
  obtain r w1 where q: "resolve_backend en w = (r, w1)" by fastforce
  then have w1: "world_le w w1" using resolve_le(1) [of w en] by simp
  have "world_le w (w1\<lparr>w_next_task := n\<rparr>)" for n using w1 by simp
  then have a: "world_le w (snd (adopt en t l origin (w1\<lparr>w_next_task := n\<rparr>)))" for t l n
    using world_le_trans adopt_le by blast
  have "world_le w w3 \<and> world_le w (w3\<lparr>w_task_cancels := w_task_cancels w3 @ [t]\<rparr>)"
    if "adopt en t l origin (w1\<lparr>w_next_task := n\<rparr>) = (x, w3)" for t l n x w3
    using a [of t l n] that world_le_more(1) by auto
  with refuse_le [OF w1] w1 show ?thesis
    by (auto simp: create_task_def q Let_def split: sum.splits option.splits prod.splits)
qed

lemma adopted_done_le: "world_le w (snd (adopted_task_done en t w))"
proof (cases "map_of (st_adopted_tasks (w_stage w)) t")
  case (Some origin)
  let ?st = "touch (en_now en) ((w_stage w)\<lparr>st_adopted_tasks := filter (\<lambda>p. fst p \<noteq> t) (st_adopted_tasks (w_stage w))\<rparr>)"
  have "stage_le (w_stage w) ?st" by (rule touched_le) simp
  with stage_le_trans [OF this stage_le_simps(10)]
  have "world_le w (snd (return_lease lease (w\<lparr>w_stage := ?st\<rparr>)))"
    "world_le w (snd (return_lease lease (w\<lparr>w_stage := snd (release_backend_if_quiescent ?st)\<rparr>)))" for lease
    by (auto intro!: world_le_more(4) [OF world_le_refl])
  then show ?thesis
    by (auto simp: adopted_task_done_def Some Let_def split_beta split: sum.splits)
qed (simp add: adopted_task_done_def)

lemma cancel_all_le: "world_le w w' \<Longrightarrow> world_le w (snd (cancel_all lc task_done hs ts w'))"
proof (induction hs arbitrary: w')
  case Nil
  from world_le_more(1) [OF Nil] show ?case by simp
next
  case (Cons i hs)
  from world_le_trans [OF Cons.prems cancel_handle_le] have "world_le w (snd (cancel_handle lc i w'))" .
  with Cons.IH show ?case by (auto split: prod.splits sum.splits)
qed

lemma timer_fires_le: "world_le w (snd (idle_timer_fires lc task_done now token w))"
proof -
  obtain st hs ts where d: "idle_deadline_reached (origin_in w) now token (w_stage w) = (st, hs, ts)"
    by (cases "idle_deadline_reached (origin_in w) now token (w_stage w)")
  from cancel_all_le [OF world_le_more(4) [OF world_le_refl deadline_le [OF d]]]
  show ?thesis by (simp add: idle_timer_fires_def d)
qed

lemma cancel_and_wait_le: "world_le w (snd (cancel_and_wait_settled en task_done waited w))"
proof -
  obtain r st where c: "cancel_scope en (w_stage w) = (r, st)" by fastforce
  have w1: "world_le w (w\<lparr>w_stage := st\<rparr>)" by (rule world_le_more(4) [OF world_le_refl cancel_scope_le [OF c]])
  with cancel_all_le [OF this] show ?thesis
    by (auto simp: cancel_and_wait_settled_def c split: sum.splits option.splits prod.splits)
qed

lemma collect_errors_le: "world_le w (collect_handle_errors i w)"
proof (cases "w_handles w i")
  case (Some h)
  obtain es h1 where t: "take_unreported_stage_errors h = (es, h1)" by fastforce
  then have "world_le w (put_handle i h1 w)" using put_le [OF Some] handle_le_ops(11) [of h] by simp
  from world_le_more(4) [OF this, of "(w_stage w)\<lparr>st_scope_settlement_errors := st_scope_settlement_errors (w_stage w) @ es\<rparr>"]
  show ?thesis by (simp add: collect_handle_errors_def Some t stage_le_def)
qed (simp add: collect_handle_errors_def)

lemma work_done_le:
  assumes "w_handles w i = Some h" "handle_le h h'"
  shows "world_le w (work_done i h' q c w)"
proof -
  have "world_le w ((put_handle i h' w)\<lparr>w_carrier := c\<rparr>)" using put_le [OF assms] by simp
  with world_le_trans [OF this quiescent_le] show ?thesis by (simp add: work_done_def Let_def)
qed

lemma descendant_done_le: "descendant_done g t error h c = Inr (h', q, c') \<Longrightarrow> handle_le h h'"
  using handle_le_trans [OF handle_le_trans [OF handle_le_ops(9) handle_le_ops(2)] release_le]
    handle_le_trans [OF handle_le_ops(9) release_le]
  by (fastforce simp: descendant_done_def submission_finished_def Let_def split: sum.splits option.splits prod.splits)

section \<open>Along every interleaving\<close>

lemma stepped_le: "f = (r, w') \<Longrightarrow> world_le w (snd f) \<Longrightarrow> world_le w w'"
  by simp

lemma scope_step_le:
  assumes w: "world_ok w" and "scope_step w w'"
  shows "world_le w w'"
  using assms(2)
proof cases
  case (scope_runner_starts loop job en failure r)
  have "world_le w (w\<lparr>w_calls := remove1 (loop, job) (w_calls w)\<rparr>)" by simp
  from world_le_trans [OF this start_runner_le] scope_runner_starts(2) show ?thesis by (metis snd_conv)
next
  case (scope_descendant i h active g t h' b c)
  then show ?thesis using put_le [OF _ task_factory_le] by simp
next
  case (scope_descendant_done i h g t error h' q c)
  then show ?thesis using work_done_le [OF _ descendant_done_le] by blast
next
  case scope_seal
  then show ?thesis by (auto intro: world_le_more(4))
next
  case scope_tick
  then show ?thesis by (auto intro: world_le_more(4))
next
  case scope_admission_ends
  then show ?thesis by (auto intro: world_le_more(4))
next
  case (scope_go en failure a r)
  then show ?thesis using go_scalar_le [of w en failure a] w by (simp add: world_ok_def bound_ok_def)
qed (auto intro: put_le pop_le collect_errors_le elim!: stepped_le intro!: body_finished_le release_handle_le run_submission_le
      stage_runner_ended_le register_callback_le adopt_le create_task_le adopted_done_le timer_fires_le
      cancel_and_wait_le cancel_handle_le simp: caller_runner_ended_def)

interpretation past: monotone_system scope_start scope_step world_ok world_le
  by unfold_locales (auto intro: world_le_trans scope_step_le)

text \<open>C19. The history of a scope is final: along every interleaving of submissions, runners, bodies, callbacks,
  descendants, adopted tasks, timers and cancellations, and with every failure, no handle is forgotten
  and its origin and backend stay; an outcome that is decided is the one seen ever after; a request to cancel
  is not withdrawn; recorded errors, of handles and of the scope, and issued cancellations are neither lost
  nor reordered; and a sealed scope stays sealed with the same idle-timeout error.\<close>

theorem scope_history_is_final:
  assumes "reachable scope_start scope_step w" "scope_step\<^sup>*\<^sup>* w w'"
  shows "(\<forall>i h. w_handles w i = Some h \<longrightarrow> (\<exists>h'. w_handles w' i = Some h'
        \<and> h_origin h' = h_origin h \<and> h_backend_kind h' = h_backend_kind h
        \<and> (h_body_completed h \<longrightarrow> same_outcome h h') \<and> (h_cancel_requested h \<longrightarrow> h_cancel_requested h')
        \<and> (\<exists>later. h_settlement_errors h' = h_settlement_errors h @ later)))
    \<and> (\<exists>later. st_scope_settlement_errors (w_stage w') = st_scope_settlement_errors (w_stage w) @ later)
    \<and> (\<exists>later. w_task_cancels w' = w_task_cancels w @ later)
    \<and> (\<exists>later. w_cancel_calls w' = w_cancel_calls w @ later)
    \<and> (st_sealed (w_stage w) \<longrightarrow>
         st_sealed (w_stage w') \<and> st_idle_timeout_error (w_stage w') = st_idle_timeout_error (w_stage w))"
  using past.reachable_le [OF assms]
  by (fastforce simp: world_le_def handle_le_def keeps_history_def stage_le_def prefix_def)

text \<open>A cancelled root whose body returns all the same.\<close>

definition cancelled_world :: "(nat, nat) world" where
  "cancelled_world = snd (cancel_handle (\<lambda>_. False) 0 busy_world)"

definition stubborn_world :: "(nat, nat) world" where
  "stubborn_world =
     snd (body_finished on_loop 0 None 0 False (Some Immediate_admission) (Returned 5) 0 cancelled_world)"

theorem scope_history_is_final_witness:
  "\<exists>h'. w_handles stubborn_world 0 = Some h' \<and> h_cancel_requested h' \<and> h_origin h' = ''go:f''"
proof -
  let ?h = "(handle_init ''go:f'' Backend_caller)\<lparr>h_pending_work := 1, h_settlement_epoch := 1,
     h_settlement_done := False, h_owner_loop := Some 4, h_owner_task := Some 0, h_cancel_requested := True\<rparr> :: (nat, nat) handle"
  have h: "w_handles cancelled_world 0 = Some ?h"
    by (simp add: cancelled_world_def cancel_handle_def cancel_request_def busy_world_value body_done_def handle_init_def
        put_handle_def)
  have "reachable scope_start scope_step cancelled_world"
    unfolding cancelled_world_def
    by (rule reach_step [OF busy_world_reachable scope_cancel_handle [OF surjective_pairing]])
  moreover have "scope_step cancelled_world stubborn_world"
    unfolding stubborn_world_def by (rule scope_body_ends [OF h _ surjective_pairing]) simp
  ultimately have "\<exists>h'. w_handles stubborn_world 0 = Some h' \<and> h_origin h' = h_origin ?h
      \<and> (h_cancel_requested ?h \<longrightarrow> h_cancel_requested h')"
    using scope_history_is_final [OF _ r_into_rtranclp [where r = scope_step], of cancelled_world stubborn_world] h
    by blast
  then show ?thesis by (auto simp: handle_init_def)
qed

end
