(* ===== verification/Bridge_Streams.thy ===== *)
theory Bridge_Streams
  imports Call_Bridge Stream_Props
begin

text \<open>
  \<open>StageCallBridge.iter_sync\<close> and \<open>iter_async\<close>: generators that own a scope and a stream of it. The two
  differ in the loop of the scope and in the exception that ends them, so one machine models both;
  \<open>sc_pull\<close> is one step of the iterator of the stream, \<open>None\<close> while it waits.
\<close>

section \<open>The generator\<close>

datatype generator_phase = Gen_created | Gen_suspended | Gen_finished

datatype 'a bridge_event = Stage_created | Source_submitted | Yielded 'a | Stream_closed | Stage_closed

record ('a, 's) stream_generator =
  sg_phase :: generator_phase
  sg_source :: "'s option"
  sg_trace :: "'a bridge_event list"

text \<open>What the calls of the generator body give: \<open>stage.go(source)\<close> with the iterator of the stream, a
  step of that iterator, the exception that ends it, and the two closes.\<close>

record ('a, 'e, 's) stream_calls =
  sc_go :: "'e exc + 's"
  sc_pull :: "'s \<Rightarrow> (('e exc + 'a) \<times> 's) option"
  sc_end :: "'e exc"
  sc_close_stream :: "'e exc + unit"
  sc_close_stage :: "'e exc + unit"

definition generator_new :: "('a, 's) stream_generator" where
  "generator_new = \<lparr>sg_phase = Gen_created, sg_source = None, sg_trace = []\<rparr>"

text \<open>The call of \<open>iter_sync\<close> or \<open>iter_async\<close> itself: the body runs at the first \<open>next\<close> only.\<close>

definition bridge_iter :: "bridge \<Rightarrow> 'e exc + ('a, 's) stream_generator" where
  "bridge_iter br = (case bridge_ensure_open br of Inl e \<Rightarrow> Inl e | Inr _ \<Rightarrow> Inr generator_new)"

text \<open>The two nested \<open>finally\<close> clauses; \<open>ended\<close> is how the loop ended.\<close>

definition generator_finally ::
  "('a, 'e, 's) stream_calls \<Rightarrow> 'e exc + unit \<Rightarrow> ('a, 's) stream_generator
   \<Rightarrow> ('e exc + unit) \<times> ('a, 's) stream_generator" where
  "generator_finally sc ended g =
     (iterate_stream ended (sc_close_stream sc) (sc_close_stage sc),
      g\<lparr>sg_phase := Gen_finished, sg_trace := sg_trace g @ [Stream_closed, Stage_closed]\<rparr>)"

definition generator_pull ::
  "('a, 'e, 's) stream_calls \<Rightarrow> 's \<Rightarrow> ('a, 's) stream_generator
   \<Rightarrow> (('e exc + 'a) \<times> ('a, 's) stream_generator) option" where
  "generator_pull sc s g =
     (case sc_pull sc s of
        None \<Rightarrow> None
      | Some (Inr x, s') \<Rightarrow>
          Some (Inr x, g\<lparr>sg_phase := Gen_suspended, sg_source := Some s', sg_trace := sg_trace g @ [Yielded x]\<rparr>)
      | Some (Inl e, s') \<Rightarrow>
          (case generator_finally sc (if e = sc_end sc then Inr () else Inl e) (g\<lparr>sg_source := Some s'\<rparr>) of
             (r, g') \<Rightarrow> Some (Inl (case r of Inl e' \<Rightarrow> e' | Inr _ \<Rightarrow> sc_end sc), g')))"

definition generator_next ::
  "('a, 'e, 's) stream_calls \<Rightarrow> ('a, 's) stream_generator \<Rightarrow> (('e exc + 'a) \<times> ('a, 's) stream_generator) option" where
  "generator_next sc g =
     (case (sg_phase g, sg_source g) of
        (Gen_created, _) \<Rightarrow>
          (case sc_go sc of
             Inl e \<Rightarrow> Some (Inl e, g\<lparr>sg_phase := Gen_finished, sg_trace := sg_trace g @ [Stage_created]\<rparr>)
           | Inr s \<Rightarrow> generator_pull sc s (g\<lparr>sg_trace := sg_trace g @ [Stage_created, Source_submitted]\<rparr>))
      | (Gen_suspended, Some s) \<Rightarrow> generator_pull sc s g
      | _ \<Rightarrow> Some (Inl (sc_end sc), g))"

text \<open>\<open>close\<close> of the generator: at a \<open>yield\<close> it raises \<open>GeneratorExit\<close> there, which it absorbs.\<close>

definition generator_close ::
  "('a, 'e, 's) stream_calls \<Rightarrow> ('a, 's) stream_generator \<Rightarrow> ('e exc + unit) \<times> ('a, 's) stream_generator" where
  "generator_close sc g =
     (case sg_phase g of
        Gen_created \<Rightarrow> (Inr (), g\<lparr>sg_phase := Gen_finished\<rparr>)
      | Gen_suspended \<Rightarrow> generator_finally sc (Inr ()) g
      | Gen_finished \<Rightarrow> (Inr (), g))"

fun generator_nexts ::
  "nat \<Rightarrow> ('a, 'e, 's) stream_calls \<Rightarrow> ('a, 's) stream_generator
   \<Rightarrow> (('e exc + 'a) list \<times> ('a, 's) stream_generator) option" where
  "generator_nexts 0 sc g = Some ([], g)"
| "generator_nexts (Suc n) sc g =
     (case generator_next sc g of
        None \<Rightarrow> None
      | Some (r, g1) \<Rightarrow> map_option (apfst ((#) r)) (generator_nexts n sc g1))"

section \<open>The scope of a generator is always closed\<close>

inductive generator_step :: "('a, 'e, 's) stream_calls \<Rightarrow> ('a, 's) stream_generator \<Rightarrow> ('a, 's) stream_generator \<Rightarrow> bool"
  for sc :: "('a, 'e, 's) stream_calls" where
  generator_resumed: "generator_next sc g = Some (r, g') \<Longrightarrow> generator_step sc g g'"
| generator_closed: "generator_close sc g = (r, g') \<Longrightarrow> generator_step sc g g'"

definition opened :: "'a list \<Rightarrow> 'a bridge_event list" where
  "opened xs = [Stage_created, Source_submitted] @ map Yielded xs"

definition generator_inv :: "('a, 'e, 's) stream_calls \<Rightarrow> ('a, 's) stream_generator \<Rightarrow> bool" where
  "generator_inv sc g \<longleftrightarrow>
     (case sg_phase g of
        Gen_created \<Rightarrow> sg_trace g = []
      | Gen_suspended \<Rightarrow> sg_source g \<noteq> None \<and> (\<exists>xs. sg_trace g = opened xs)
      | Gen_finished \<Rightarrow> sg_trace g = [] \<or> sg_trace g = [Stage_created] \<and> (\<exists>e. sc_go sc = Inl e)
          \<or> (\<exists>xs. sg_trace g = opened xs @ [Stream_closed, Stage_closed]))"

lemma opened_snoc: "opened xs @ [Yielded x] = opened (xs @ [x])"
  by (simp add: opened_def)

lemma opened_eq [simp]: "opened xs = opened ys \<longleftrightarrow> xs = ys"
  by (auto simp: opened_def intro: map_injective [of Yielded] injI)

lemma generator_pull_inv:
  assumes "sg_trace g = opened xs" "generator_pull sc s g = Some (r, g')"
  shows "generator_inv sc g'"
  using assms
  by (auto simp: generator_pull_def generator_finally_def generator_inv_def opened_snoc
      split: option.splits sum.splits)

lemma generator_next_inv:
  assumes "generator_inv sc g" "generator_next sc g = Some (r, g')"
  shows "generator_inv sc g'"
proof (cases "sg_phase g")
  case Gen_created
  show ?thesis
  proof (cases "sc_go sc")
    case (Inr s)
    with Gen_created assms have "generator_pull sc s (g\<lparr>sg_trace := opened []\<rparr>) = Some (r, g')"
      by (simp add: generator_next_def generator_inv_def opened_def)
    then show ?thesis by (rule generator_pull_inv [rotated]) simp
  qed (use Gen_created assms in \<open>auto simp: generator_next_def generator_inv_def\<close>)
next
  case Gen_suspended
  then obtain s xs where s: "sg_source g = Some s" and x: "sg_trace g = opened xs"
    using assms(1) by (auto simp: generator_inv_def)
  with Gen_suspended assms(2) have "generator_pull sc s g = Some (r, g')" by (simp add: generator_next_def)
  with x show ?thesis by (rule generator_pull_inv)
qed (use assms in \<open>auto simp: generator_next_def\<close>)

interpretation generators: inductive_invariant "\<lambda>g. g = generator_new" "generator_step sc" "generator_inv sc"
  for sc :: "('a, 'e, 's) stream_calls"
proof
  fix g g' :: "('a, 's) stream_generator"
  assume i: "generator_inv sc g" and "generator_step sc g g'"
  from this(2) show "generator_inv sc g'"
  proof cases
    case (generator_resumed r)
    then show ?thesis using generator_next_inv [OF i] by blast
  next
    case (generator_closed r)
    with i show ?thesis
      by (auto simp: generator_close_def generator_finally_def generator_inv_def split: generator_phase.splits)
  qed
qed (simp add: generator_inv_def generator_new_def)

text \<open>C26. A stream routed through the bridge never leaks its scope. However a generator of \<open>iter_sync\<close> or
  \<open>iter_async\<close> is driven (any interleaving of \<open>next\<close> and \<open>close\<close>, with any failure of the stream or of
  the closes), it creates its scope at most once, yields only between submission and closing, and once it
  has finished, a submitted stream has been closed exactly once and its scope exactly once, in that order,
  as the last thing it did; the finished generator does nothing more.
\<close>

theorem bridge_stream_closed_exactly_once:
  assumes "reachable (\<lambda>g. g = generator_new) (generator_step sc) g"
  shows "case sg_phase g of
      Gen_created \<Rightarrow> sg_trace g = []
    | Gen_suspended \<Rightarrow> \<exists>xs. sg_trace g = [Stage_created, Source_submitted] @ map Yielded xs
    | Gen_finished \<Rightarrow>
        (Source_submitted \<in> set (sg_trace g) \<longrightarrow>
           (\<exists>xs. sg_trace g = [Stage_created, Source_submitted] @ map Yielded xs @ [Stream_closed, Stage_closed]))
        \<and> (Source_submitted \<notin> set (sg_trace g) \<longrightarrow> sg_trace g = [] \<or> sg_trace g = [Stage_created])
        \<and> generator_next sc g = Some (Inl (sc_end sc), g) \<and> generator_close sc g = (Inr (), g)"
  using generators.reachable_inv [OF assms]
  by (auto simp: generator_inv_def opened_def generator_next_def generator_close_def split: generator_phase.splits)

lemma bridge_stream_closed_exactly_once_witness:
  "let sc = \<lparr>sc_go = Inr (0::nat), sc_pull = (\<lambda>s. Some (Inr s, Suc s)), sc_end = StopIteration :: nat exc,
             sc_close_stream = Inl (Raised 7), sc_close_stage = Inr ()\<rparr>;
       g = snd (generator_close sc (snd (the (generator_next sc generator_new))))
   in sg_trace g = [Stage_created, Source_submitted, Yielded 0, Stream_closed, Stage_closed]
      \<and> generator_next sc g = Some (Inl StopIteration, g)"
proof -
  define sc where "sc = \<lparr>sc_go = Inr (0::nat), sc_pull = (\<lambda>s. Some (Inr s, Suc s)), sc_end = StopIteration :: nat exc,
             sc_close_stream = Inl (Raised 7), sc_close_stage = Inr ()\<rparr>"
  define g1 where "g1 = snd (the (generator_next sc generator_new))"
  define g where "g = snd (generator_close sc g1)"
  have "generator_next sc generator_new = Some (Inr 0, g1)"
    by (simp add: g1_def generator_next_def generator_new_def generator_pull_def sc_def)
  moreover have "reachable (\<lambda>g. g = generator_new) (generator_step sc) generator_new"
    by (rule reach_start) simp
  ultimately have "reachable (\<lambda>g. g = generator_new) (generator_step sc) g1"
    by (metis reach_step generator_resumed)
  then have "reachable (\<lambda>g. g = generator_new) (generator_step sc) g"
    by (metis reach_step generator_closed g_def prod.collapse)
  from bridge_stream_closed_exactly_once [OF this] show ?thesis
    by (simp add: g_def g1_def generator_close_def generator_finally_def generator_next_def generator_new_def
        generator_pull_def sc_def)
qed

section \<open>Iterating a consumed stream\<close>

text \<open>The iterator of a stream is a subscription of its tunnel.\<close>

definition tunnel_pull ::
  "'e exc \<Rightarrow> ('a, 'e) tunnel \<times> subscription \<Rightarrow> (('e exc + 'a) \<times> (('a, 'e) tunnel \<times> subscription)) option" where
  "tunnel_pull stop p =
     (case read_pass stop (fst p) (snd p) of
        (Must_wait, s') \<Rightarrow> None
      | (Item x, s') \<Rightarrow> Some (Inr x, (fst p, s'))
      | (Raises e, s') \<Rightarrow> Some (Inl e, (fst p, s')))"

definition stream_calls_of :: "'e exc \<Rightarrow> ('a, 'e) tunnel \<Rightarrow> ('a, 'e, ('a, 'e) tunnel \<times> subscription) stream_calls" where
  "stream_calls_of stop t = \<lparr>sc_go = map_sum id (Pair t) (tunnel_iter t), sc_pull = tunnel_pull stop, sc_end = stop,
     sc_close_stream = Inr (), sc_close_stage = Inr ()\<rparr>"

definition tunnel_end :: "'e exc \<Rightarrow> ('a, 'e) tunnel \<Rightarrow> 'e exc" where
  "tunnel_end stop t = (case tun_failure t of Some e \<Rightarrow> Raised e | None \<Rightarrow> stop)"

lemma pull_item:
  "\<not> sub_terminated s \<Longrightarrow> sub_cursor s = tun_base_sequence t + int k \<Longrightarrow> k < length (tun_items t) \<Longrightarrow>
   tunnel_pull stop (t, s) = Some (Inr (tun_items t ! k), (t, s\<lparr>sub_cursor := sub_cursor s + 1\<rparr>))"
  by (simp add: tunnel_pull_def read_pass_def Let_def)

lemma pull_end:
  "\<not> sub_terminated s \<Longrightarrow> sub_cursor s = tun_base_sequence t + int (length (tun_items t)) \<Longrightarrow> tun_terminal t \<Longrightarrow>
   tunnel_pull stop (t, s) = Some (Inl (tunnel_end stop t), (t, s\<lparr>sub_terminated := True\<rparr>))"
  by (auto simp: tunnel_pull_def read_pass_def Let_def tunnel_end_def tun_terminal_def split: option.splits)

lemma pulls_to_the_end:
  assumes "tun_terminal t" "\<not> sub_terminated s" "sub_cursor s = tun_base_sequence t + int k"
    "drop k (tun_items t) = xs" "k \<le> length (tun_items t)"
    "sg_phase g = Gen_suspended" "sg_source g = Some (t, s)"
  shows "\<exists>g'. generator_nexts (Suc (length xs)) (stream_calls_of stop t) g
      = Some (map Inr xs @ [Inl (tunnel_end stop t)], g')
    \<and> sg_phase g' = Gen_finished \<and> sg_trace g' = sg_trace g @ map Yielded xs @ [Stream_closed, Stage_closed]"
  using assms(2-)
proof (induction xs arbitrary: s k g)
  case Nil
  then have "k = length (tun_items t)" by simp
  with Nil assms(1) show ?case
    by (auto simp: generator_next_def generator_pull_def generator_finally_def stream_calls_of_def
        pull_end iterate_stream_def)
next
  case (Cons x xs)
  then have k: "k < length (tun_items t)" "tun_items t ! k = x" "drop (Suc k) (tun_items t) = xs"
    by (metis drop_all linorder_not_le list.distinct(1), metis nth_via_drop, metis list.sel(3) tl_drop drop_Suc)
  define s1 where "s1 = s\<lparr>sub_cursor := sub_cursor s + 1\<rparr>"
  define g1 where "g1 = g\<lparr>sg_source := Some (t, s1), sg_trace := sg_trace g @ [Yielded x]\<rparr>"
  have n: "generator_next (stream_calls_of stop t) g = Some (Inr x, g1)"
    using Cons.prems k pull_item [OF Cons.prems(1,2) k(1)]
    by (simp add: generator_next_def generator_pull_def stream_calls_of_def s1_def g1_def)
  from Cons.IH [of s1 "Suc k" g1] Cons.prems k obtain g' where
    "generator_nexts (Suc (length xs)) (stream_calls_of stop t) g1 = Some (map Inr xs @ [Inl (tunnel_end stop t)], g')"
    "sg_phase g' = Gen_finished" "sg_trace g' = sg_trace g1 @ map Yielded xs @ [Stream_closed, Stage_closed]"
    by (auto simp: s1_def g1_def)
  with n show ?case by (auto simp: g1_def simp del: generator_nexts.simps(2) simp: generator_nexts.simps(2) [of "Suc (length xs)"])
qed

lemma generator_first_next:
  "sc_go sc = Inr s \<Longrightarrow>
   generator_nexts (Suc n) sc generator_new
     = generator_nexts (Suc n) sc \<lparr>sg_phase = Gen_suspended, sg_source = Some s, sg_trace = opened []\<rparr>"
  by (simp add: generator_next_def generator_new_def opened_def generator_pull_def generator_finally_def
      split: option.split sum.split prod.split)

lemma consumed_source:
  assumes "complete_open t" "tun_items t = []" "\<And>k. \<not> stop k" "ending \<noteq> Source_cancelled"
    and "t' = snd (consume_async_source lc stop xs ending None t) \<or> t' = snd (consume_sync_source lc stop xs ending ce None t)"
  shows "tun_items t' = xs \<and> tun_terminal t' \<and> tun_failure t' = (case ending of Source_raises e \<Rightarrow> Some e | _ \<Rightarrow> None)"
proof -
  obtain u where u: "complete_open u" "tun_items u = tun_items t @ xs"
    "sync_loop lc stop 1 xs ending ce t = (case ending of Exhausted \<Rightarrow> (None, u)
      | Source_raises e \<Rightarrow> (Some (Raised e), fst (tunnel_fail lc e u))
      | Source_cancelled \<Rightarrow> (Some CancelledError, fst (tunnel_fail lc ce u)))"
    using sync_loop_unstopped [OF assms(1), where stop = stop and k = 1 and xs = xs and ending = ending and ce = ce and lc = lc] assms(3) by blast
  have a: "async_loop lc stop 1 xs ending t = sync_loop lc stop 1 xs ending ce t"
    by (rule async_loop_unstopped [OF assms(1,3,4)])
  have o: "\<not> tun_closed u" "tun_failure u = None" using u(1) by (simp_all add: complete_open_def tun_terminal_def)
  have f: "tun_failure (fst (tunnel_close lc u)) = None" "tun_failure (fst (tunnel_fail lc e u)) = Some e" for e
    using o by (simp_all add: tunnel_close_def tunnel_fail_def)
  have "snd (consume_async_source lc stop xs ending None t) = snd (finish_source lc None (sync_loop lc stop 1 xs ending ce t))"
    "snd (consume_sync_source lc stop xs ending ce None t) = snd (finish_source lc None (sync_loop lc stop 1 xs ending ce t))"
    unfolding consume_async_source_def consume_sync_source_def a using assms(3) by simp_all
  with assms(5) have "t' = snd (finish_source lc None (sync_loop lc stop 1 xs ending ce t))" by auto
  then show ?thesis
    using u assms(2,4) f by (cases ending) (simp_all add: finish_source_def Let_def)
qed



section \<open>After closing\<close>

text \<open>
  Once closing has begun, whether or not it succeeds, the bridge takes no new work: every blocking entry
  point raises \<open>StageLifecycleError\<close> and changes nothing, an awaitable given to a routed call is closed
  instead of being left unawaited, and only functions that were asynchronous to begin with still run,
  since the bridge hands them out unchanged.
\<close>

theorem closed_bridge_refuses_work:
  assumes "bridge_close cl br = (r, tried, br1)" "\<not> br_closed br"
  shows "bridge_as_sync br1 called resolved = Inl StageLifecycleError
    \<and> bridge_as_async managed br1 evs = Some (Inl StageLifecycleError)
    \<and> bridge_submit on_close go task br1 w = (Inl StageLifecycleError, w)
    \<and> bridge_iter br1 = (Inl StageLifecycleError :: 'e exc + ('a, 's) stream_generator)
    \<and> (case resolve_in_routed_scope managed s rc br1 of (b, br2) \<Rightarrow>
          rb_outcome b = Inl StageLifecycleError \<and> rb_awaitable_closed b \<and> \<not> rb_entered b \<and> br2 = br1)
    \<and> (po_coroutinefunction p \<longrightarrow> bridge_async_wrapper flag True p heap br1 = (Inr Function_itself :: 'e exc + async_wrapper))"
proof -
  have c: "br_closing br1"
    using assms by (auto simp: bridge_close_def Let_def split: prod.splits sum.splits)
  then have "bridge_ensure_open br1 = (Inl StageLifecycleError :: 'x exc + unit)" by (simp add: bridge_ensure_open_def)
  then show ?thesis
    using c by (simp add: bridge_as_sync_def bridge_as_async_def bridge_submit_def bridge_iter_def
        resolve_in_routed_scope_def bridge_async_wrapper_def is_async_callable_def bridge_ensure_open_def)
qed

lemma closed_bridge_refuses_work_witness:
  "let br1 = snd (snd (bridge_close (\<lambda>s. if s = 1 then Inl (TimeoutError []) else Inr () :: nat exc + unit) (bridge_init None False 0 1)))
   in \<not> br_closed br1 \<and> bridge_as_sync br1 (Call_returns 3) id = (Inl StageLifecycleError :: nat exc + nat)"
proof -
  let ?cl = "\<lambda>s. if s = 1 then Inl (TimeoutError []) else Inr () :: nat exc + unit"
  obtain r tried br1 where c: "bridge_close ?cl (bridge_init None False 0 1) = (r, tried, br1)" by (metis prod_cases3)
  have "\<not> br_closed (bridge_init None False 0 1)" by (simp add: bridge_init_def)
  then have "bridge_as_sync br1 (Call_returns 3) id = (Inl StageLifecycleError :: nat exc + nat)"
    by (rule conjunct1 [OF closed_bridge_refuses_work [OF c]])
  moreover have "\<not> br_closed br1" using c by (auto simp: bridge_close_def bridge_init_def Let_def)
  ultimately show ?thesis using c by simp
qed

end
