(* ===== verification/Replay_Candidates.thy ===== *)
theory Replay_Candidates
  imports Tunnel_Props
begin

text \<open>
  \<open>docs/performance-strategy/candidates.py\<close>: the storage and wake-up mechanisms that were measured
  against the tunnel's own. Here the storage: \<open>ChunkStore\<close> keeps the replay history in blocks, and
  \<open>ReplayTunnel\<close> is a tunnel on one of three stores.
\<close>

section \<open>Stores\<close>

datatype store_error = Index_error int | Key_error | Zero_division | Attribute_error

text \<open>Reading and writing a Python list by index; a negative index counts from the end.\<close>

definition py_position :: "'a list \<Rightarrow> int \<Rightarrow> nat option" where
  "py_position xs i =
     (if 0 \<le> i \<and> i < int (length xs) then Some (nat i)
      else if - int (length xs) \<le> i \<and> i < 0 then Some (nat (i + int (length xs))) else None)"

definition py_read :: "'a list \<Rightarrow> int \<Rightarrow> store_error + 'a" where
  "py_read xs i = (case py_position xs i of None \<Rightarrow> Inl (Index_error i) | Some k \<Rightarrow> Inr (xs ! k))"

definition py_write :: "'a list \<Rightarrow> int \<Rightarrow> 'a \<Rightarrow> store_error + 'a list" where
  "py_write xs i x = (case py_position xs i of None \<Rightarrow> Inl (Index_error i) | Some k \<Rightarrow> Inr (xs[k := x]))"

text \<open>The operations of a replay history, and what a client sees of them. A stored value may be read
  as Python's \<open>None\<close> (here \<open>None\<close>), which is what \<open>popleft\<close> leaves behind in a block.\<close>

datatype 'a store_op = Append 'a | Popleft | Length | Index int

datatype 'a store_answer = Done | Size int | Value "'a option" | Refused store_error

record ('a, 's) store_ops =
  so_append :: "'a \<Rightarrow> 's \<Rightarrow> store_error + 's"
  so_popleft :: "'s \<Rightarrow> store_error + ('a option \<times> 's)"
  so_len :: "'s \<Rightarrow> int"
  so_index :: "int \<Rightarrow> 's \<Rightarrow> store_error + 'a option"

fun store_step :: "('a, 's) store_ops \<Rightarrow> 'a store_op \<Rightarrow> 's \<Rightarrow> 'a store_answer \<times> 's" where
  "store_step so (Append x) s = (case so_append so x s of Inl e \<Rightarrow> (Refused e, s) | Inr s' \<Rightarrow> (Done, s'))"
| "store_step so Popleft s = (case so_popleft so s of Inl e \<Rightarrow> (Refused e, s) | Inr (v, s') \<Rightarrow> (Value v, s'))"
| "store_step so Length s = (Size (so_len so s), s)"
| "store_step so (Index i) s = ((case so_index so i s of Inl e \<Rightarrow> Refused e | Inr v \<Rightarrow> Value v), s)"

fun store_run :: "('a, 's) store_ops \<Rightarrow> 'a store_op list \<Rightarrow> 's \<Rightarrow> 'a store_answer list \<times> 's" where
  "store_run so [] s = ([], s)"
| "store_run so (p # ps) s =
     (case store_step so p s of (a, s') \<Rightarrow> (case store_run so ps s' of (as, s'') \<Rightarrow> (a # as, s'')))"

text \<open>The reference: \<open>collections.deque\<close>, read at a list.\<close>

definition same_refusal :: "'a store_answer \<Rightarrow> 'a store_answer \<Rightarrow> bool" where
  "same_refusal a b \<longleftrightarrow> (case (a, b) of (Refused _, Refused _) \<Rightarrow> True | _ \<Rightarrow> a = b)"

definition deque_ops :: "('a, 'a list) store_ops" where
  "deque_ops = \<lparr>so_append = (\<lambda>x xs. Inr (xs @ [x])),
     so_popleft = (\<lambda>xs. case xs of [] \<Rightarrow> Inl (Index_error 0) | x # ys \<Rightarrow> Inr (Some x, ys)),
     so_len = (\<lambda>xs. int (length xs)),
     so_index = (\<lambda>i xs. map_sum id Some (py_read xs i))\<rparr>"

text \<open>The part of \<open>put\<close> that keeps the history, on any store: the items, \<open>_base_sequence\<close> and
  \<open>_next_sequence\<close>.\<close>

definition store_retain ::
  "('a, 's) store_ops \<Rightarrow> int option \<Rightarrow> 'a \<Rightarrow> 's \<times> int \<times> int \<Rightarrow> store_error + ('s \<times> int \<times> int)" where
  "store_retain so max_history x h =
     (case h of (s, base, next) \<Rightarrow>
        (case so_append so x s of
           Inl e \<Rightarrow> Inl e
         | Inr s1 \<Rightarrow>
             (if max_history \<noteq> None \<and> the max_history < so_len so s1
              then (case so_popleft so s1 of Inl e \<Rightarrow> Inl e | Inr (_, s2) \<Rightarrow> Inr (s2, base + 1, next + 1))
              else Inr (s1, base, next + 1))))"

fun store_retain_all ::
  "('a, 's) store_ops \<Rightarrow> int option \<Rightarrow> 'a list \<Rightarrow> 's \<times> int \<times> int \<Rightarrow> store_error + ('s \<times> int \<times> int)" where
  "store_retain_all so max_history [] h = Inr h"
| "store_retain_all so max_history (x # xs) h =
     (case store_retain so max_history x h of Inl e \<Rightarrow> Inl e | Inr h' \<Rightarrow> store_retain_all so max_history xs h')"

locale replay_store =
  fixes so :: "('a, 's) store_ops" and ok :: "'s \<Rightarrow> bool" and items :: "'s \<Rightarrow> 'a list"
  assumes append_law: "ok s \<Longrightarrow> \<exists>s'. so_append so x s = Inr s' \<and> ok s' \<and> items s' = items s @ [x]"
    and popleft_law: "ok s \<Longrightarrow> items s = x # xs \<Longrightarrow> \<exists>s'. so_popleft so s = Inr (Some x, s') \<and> ok s' \<and> items s' = xs"
    and popleft_empty: "ok s \<Longrightarrow> items s = [] \<Longrightarrow> \<exists>e. so_popleft so s = Inl e"
    and len_law: "ok s \<Longrightarrow> so_len so s = int (length (items s))"
    and index_law: "ok s \<Longrightarrow> py_position (items s) i = Some k \<Longrightarrow> so_index so i s = Inr (Some (items s ! k))"
    and index_refused: "ok s \<Longrightarrow> py_position (items s) i = None \<Longrightarrow> \<exists>e. so_index so i s = Inl e"
begin

lemma step_refines:
  assumes "ok s" "store_step so p s = (a, s')" "store_step deque_ops p (items s) = (b, xs)"
  shows "same_refusal a b \<and> ok s' \<and> items s' = xs"
proof (cases p)
  case (Append x)
  with assms append_law [OF assms(1), of x] show ?thesis
    by (auto simp: deque_ops_def same_refusal_def)
next
  case Popleft
  with assms popleft_law [OF assms(1)] popleft_empty [OF assms(1)] show ?thesis
    by (cases "items s") (fastforce simp: deque_ops_def same_refusal_def)+
next
  case Length
  with assms len_law [OF assms(1)] show ?thesis
    by (auto simp: deque_ops_def same_refusal_def)
next
  case (Index i)
  with assms index_law [OF assms(1), of i] index_refused [OF assms(1), of i] show ?thesis
    by (cases "py_position (items s) i") (auto simp: deque_ops_def py_read_def same_refusal_def)
qed

lemma run_refines:
  "ok s \<Longrightarrow> store_run so ps s = (as, s') \<Longrightarrow> store_run deque_ops ps (items s) = (bs, xs) \<Longrightarrow>
   list_all2 same_refusal as bs \<and> ok s' \<and> items s' = xs"
proof (induction ps arbitrary: s as bs)
  case (Cons p ps)
  obtain a s1 where a: "store_step so p s = (a, s1)" by fastforce
  obtain b xs1 where b: "store_step deque_ops p (items s) = (b, xs1)" by fastforce
  note st = step_refines [OF Cons.prems(1) a b]
  obtain as' bs' where r: "store_run so ps s1 = (as', s')" "store_run deque_ops ps (items s1) = (bs', xs)"
    "as = a # as'" "bs = b # bs'"
    using Cons.prems(2,3) a b st by (auto split: prod.splits)
  with Cons.IH [OF _ r(1,2)] st show ?case by simp
qed simp

lemma retain_refines:
  assumes "ok s" and t: "tun_items t = items s"
  shows "\<exists>s'. store_retain so (tun_max_history t) x (s, tun_base_sequence t, tun_next_sequence t)
      = Inr (s', tun_base_sequence (append_item x t), tun_next_sequence (append_item x t))
      \<and> ok s' \<and> items s' = tun_items (append_item x t)"
proof -
  obtain s1 where a: "so_append so x s = Inr s1" "ok s1" "items s1 = items s @ [x]"
    using append_law [OF assms(1)] by blast
  note l = len_law [OF a(2)]
  obtain y ys where y: "items s1 = y # ys"
    using a(3) by (metis append_is_Nil_conv list.distinct(1) list.exhaust)
  obtain s2 where p: "so_popleft so s1 = Inr (Some y, s2)" "ok s2" "items s2 = ys"
    using popleft_law [OF a(2) y] by blast
  have "items s2 = tl (items s @ [x])" using a(3) y p(3) by (metis list.sel(3))
  with t a l p show ?thesis
    by (auto simp: store_retain_def append_item_def Let_def split: option.splits)
qed

lemma append_item_config: "tun_max_history (append_item x t) = tun_max_history t"
  by (simp add: append_item_def Let_def split: option.splits)

lemma retain_all_refines:
  "ok s \<Longrightarrow> tun_items t = items s \<Longrightarrow>
   \<exists>s'. store_retain_all so (tun_max_history t) xs (s, tun_base_sequence t, tun_next_sequence t)
          = Inr (s', tun_base_sequence (fold append_item xs t), tun_next_sequence (fold append_item xs t))
        \<and> ok s' \<and> items s' = tun_items (fold append_item xs t)"
proof (induction xs arbitrary: s t)
  case (Cons x xs)
  from retain_refines [OF Cons.prems, of x]
  obtain s1 where s1: "store_retain so (tun_max_history t) x (s, tun_base_sequence t, tun_next_sequence t)
      = Inr (s1, tun_base_sequence (append_item x t), tun_next_sequence (append_item x t))"
    "ok s1" "items s1 = tun_items (append_item x t)" by blast
  with Cons.IH [OF s1(2), of "append_item x t"] show ?case
    by (simp add: append_item_config)
qed auto

end

lemma py_position_len [simp]: "py_position [] i = None"
  by (simp add: py_position_def)

interpretation deque: replay_store deque_ops "\<lambda>_. True" "\<lambda>xs. xs"
  by unfold_locales (auto simp: deque_ops_def py_read_def)

section \<open>ChunkStore\<close>

text \<open>A slot holds \<open>Some x\<close>, or \<open>None\<close> once \<open>popleft\<close> has overwritten it with Python's \<open>None\<close>.\<close>

record 'a chunk_store =
  cs_size :: int
  cs_blocks :: "int \<rightharpoonup> 'a option list"
  cs_start :: int
  cs_end :: int

definition chunk_init :: "int \<Rightarrow> 'a chunk_store" where
  "chunk_init sz = \<lparr>cs_size = sz, cs_blocks = Map.empty, cs_start = 0, cs_end = 0\<rparr>"

definition chunk_len :: "'a chunk_store \<Rightarrow> int" where
  "chunk_len s = cs_end s - cs_start s"

definition py_divmod :: "int \<Rightarrow> int \<Rightarrow> store_error + (int \<times> int)" where
  "py_divmod a b = (if b = 0 then Inl Zero_division else Inr (a div b, a mod b))"

definition chunk_append :: "'a \<Rightarrow> 'a chunk_store \<Rightarrow> store_error + 'a chunk_store" where
  "chunk_append x s =
     (case py_divmod (cs_end s) (cs_size s) of
        Inl e \<Rightarrow> Inl e
      | Inr (block, offset) \<Rightarrow>
          (let blocks = (if offset = 0 then (cs_blocks s)(block \<mapsto> []) else cs_blocks s) in
             case blocks block of
               None \<Rightarrow> Inl Key_error
             | Some b \<Rightarrow> Inr (s\<lparr>cs_blocks := blocks(block \<mapsto> b @ [Some x]), cs_end := cs_end s + 1\<rparr>)))"

definition chunk_getitem :: "int \<Rightarrow> 'a chunk_store \<Rightarrow> store_error + 'a option" where
  "chunk_getitem index s =
     (let i = (if index < 0 then index + chunk_len s else index) in
        if \<not> (0 \<le> i \<and> i < chunk_len s) then Inl (Index_error i)
        else (case py_divmod (cs_start s + i) (cs_size s) of
                Inl e \<Rightarrow> Inl e
              | Inr (block, offset) \<Rightarrow>
                  (case cs_blocks s block of None \<Rightarrow> Inl Key_error | Some b \<Rightarrow> py_read b offset)))"

definition chunk_popleft :: "'a chunk_store \<Rightarrow> store_error + ('a option \<times> 'a chunk_store)" where
  "chunk_popleft s =
     (case chunk_getitem 0 s of
        Inl e \<Rightarrow> Inl e
      | Inr v \<Rightarrow>
          (case py_divmod (cs_start s) (cs_size s) of
             Inl e \<Rightarrow> Inl e
           | Inr (block, offset) \<Rightarrow>
               (case cs_blocks s block of
                  None \<Rightarrow> Inl Key_error
                | Some b \<Rightarrow>
                    (case py_write b offset None of
                       Inl e \<Rightarrow> Inl e
                     | Inr b' \<Rightarrow>
                         (let s1 = s\<lparr>cs_blocks := (cs_blocks s)(block \<mapsto> b'), cs_start := cs_start s + 1\<rparr> in
                            Inr (v, if cs_start s1 mod cs_size s1 = 0
                                    then s1\<lparr>cs_blocks := (cs_blocks s1)(block := None)\<rparr> else s1))))))"

text \<open>\<open>for index in range(len(self)): yield self[index]\<close>, exhausted by its reader.\<close>

fun chunk_reads :: "int list \<Rightarrow> 'a chunk_store \<Rightarrow> store_error + 'a option list" where
  "chunk_reads [] s = Inr []"
| "chunk_reads (i # is) s =
     (case chunk_getitem i s of Inl e \<Rightarrow> Inl e | Inr v \<Rightarrow> map_sum id ((#) v) (chunk_reads is s))"

definition chunk_iter :: "'a chunk_store \<Rightarrow> store_error + 'a option list" where
  "chunk_iter s = chunk_reads [0..chunk_len s - 1] s"

definition chunk_ops :: "('a, 'a chunk_store) store_ops" where
  "chunk_ops = \<lparr>so_append = chunk_append, so_popleft = chunk_popleft, so_len = chunk_len,
     so_index = chunk_getitem\<rparr>"

subsection \<open>Slots and the invariant\<close>

definition chunk_slot :: "'a chunk_store \<Rightarrow> int \<Rightarrow> 'a option option" where
  "chunk_slot s p =
     (case cs_blocks s (p div cs_size s) of
        None \<Rightarrow> None
      | Some b \<Rightarrow> (if nat (p mod cs_size s) < length b then Some (b ! nat (p mod cs_size s)) else None))"

definition chunk_items :: "'a chunk_store \<Rightarrow> 'a list" where
  "chunk_items s = map (\<lambda>p. the (the (chunk_slot s p))) [cs_start s..cs_end s - 1]"

definition chunk_window :: "'a chunk_store \<Rightarrow> int set" where
  "chunk_window s = {b. cs_start s div cs_size s \<le> b \<and> b * cs_size s < cs_end s}"

definition chunk_ok :: "'a chunk_store \<Rightarrow> bool" where
  "chunk_ok s \<longleftrightarrow> 0 < cs_size s \<and> 0 \<le> cs_start s \<and> cs_start s \<le> cs_end s \<and>
     dom (cs_blocks s) = chunk_window s \<and>
     (\<forall>b xs. cs_blocks s b = Some xs \<longrightarrow> int (length xs) = min (cs_size s) (cs_end s - b * cs_size s)) \<and>
     (\<forall>p. cs_start s \<le> p \<and> p < cs_end s \<longrightarrow> (\<exists>x. chunk_slot s p = Some (Some x)))"

lemma chunk_init_ok: "0 < sz \<Longrightarrow> chunk_ok (chunk_init sz)"
  by (auto simp: chunk_ok_def chunk_init_def chunk_window_def mult_less_0_iff)

lemma chunk_init_items [simp]: "chunk_items (chunk_init sz) = []"
  by (simp add: chunk_items_def chunk_init_def)

lemma chunk_len_items: "chunk_ok s \<Longrightarrow> chunk_len s = int (length (chunk_items s))"
  by (simp add: chunk_items_def chunk_len_def chunk_ok_def)

lemma nth_upto_shift: "i \<le> j \<Longrightarrow> k < nat (j - i) \<Longrightarrow> [i..j - 1] ! k = i + int k"
  by (simp add: nth_upto)

lemma chunk_item_at:
  assumes "chunk_ok s" "cs_start s \<le> p" "p < cs_end s"
  shows "chunk_slot s p = Some (Some (chunk_items s ! nat (p - cs_start s)))"
proof -
  obtain x where "chunk_slot s p = Some (Some x)" using assms by (auto simp: chunk_ok_def)
  with assms(2,3) show ?thesis by (simp add: chunk_items_def nth_upto)
qed

lemma chunk_slot_read:
  assumes "chunk_slot s p = Some v" "0 < cs_size s"
  shows "\<exists>b. cs_blocks s (p div cs_size s) = Some b \<and> nat (p mod cs_size s) < length b \<and>
    b ! nat (p mod cs_size s) = v \<and> py_read b (p mod cs_size s) = Inr v"
  using assms by (auto simp: chunk_slot_def py_read_def py_position_def split: option.splits if_splits)

lemma chunk_getitem_in:
  assumes ok: "chunk_ok s" and k: "py_position (chunk_items s) i = Some k"
  shows "chunk_getitem i s = Inr (Some (chunk_items s ! k))"
proof -
  define j where "j = (if i < 0 then i + chunk_len s else i)"
  have j: "0 \<le> j" "j < chunk_len s" "k = nat j"
    using k chunk_len_items [OF ok] by (auto simp: py_position_def j_def split: if_splits)
  have "chunk_slot s (cs_start s + j) = Some (Some (chunk_items s ! k))"
    using chunk_item_at [OF ok, of "cs_start s + j"] j by (simp add: chunk_len_def)
  from chunk_slot_read [OF this] ok j(1,2) show ?thesis
    by (auto simp: chunk_getitem_def chunk_ok_def py_divmod_def Let_def simp flip: j_def)
qed

lemma chunk_getitem_out:
  "chunk_ok s \<Longrightarrow> py_position (chunk_items s) i = None \<Longrightarrow> \<exists>e. chunk_getitem i s = Inl e"
  by (auto simp: chunk_getitem_def py_position_def Let_def chunk_len_items split: if_splits)

subsection \<open>append\<close>

lemma block_of_end:
  assumes "chunk_ok s" "cs_end s mod cs_size s \<noteq> 0"
  shows "\<exists>b. cs_blocks s (cs_end s div cs_size s) = Some b \<and> int (length b) = cs_end s mod cs_size s"
proof -
  have pos: "0 < cs_size s" using assms(1) by (simp add: chunk_ok_def)
  have m: "cs_end s - cs_end s div cs_size s * cs_size s = cs_end s mod cs_size s"
    by (simp add: minus_div_mult_eq_mod)
  have "0 < cs_end s mod cs_size s" using assms(2) pos pos_mod_sign [of "cs_size s" "cs_end s"] by linarith
  then have "cs_end s div cs_size s \<in> dom (cs_blocks s)"
    using assms(1) pos m by (auto simp: chunk_ok_def chunk_window_def zdiv_mono1)
  then obtain b where "cs_blocks s (cs_end s div cs_size s) = Some b" by auto
  with assms(1) m pos pos_mod_bound [OF pos, of "cs_end s"] show ?thesis by (auto simp: chunk_ok_def)
qed

lemma chunk_slot_append_old:
  assumes "p < cs_end s" "b = (if cs_end s mod cs_size s = 0 then [] else the (cs_blocks s (cs_end s div cs_size s)))"
    "chunk_ok s" "cs_start s \<le> p"
  shows "chunk_slot (s\<lparr>cs_blocks := (cs_blocks s)(cs_end s div cs_size s \<mapsto> b @ [v]), cs_end := e\<rparr>) p = chunk_slot s p"
proof (cases "p div cs_size s = cs_end s div cs_size s")
  case True
  have pos: "0 < cs_size s" using assms(3) by (simp add: chunk_ok_def)
  have lt: "p mod cs_size s < cs_end s mod cs_size s"
    using True assms(1) by (metis add_less_cancel_left mult_div_mod_eq)
  then have ne: "cs_end s mod cs_size s \<noteq> 0" using pos pos_mod_sign [of "cs_size s" p] by linarith
  from block_of_end [OF assms(3) ne] obtain c where
    c: "cs_blocks s (cs_end s div cs_size s) = Some c" "int (length c) = cs_end s mod cs_size s" by blast
  then have "nat (p mod cs_size s) < length c" using lt pos pos_mod_sign [of "cs_size s" p] by linarith
  with True ne c assms(2) show ?thesis by (simp add: chunk_slot_def nth_append)
qed (auto simp: chunk_slot_def split: option.splits)

lemma le_div_int_iff:
  assumes "0 < (n::int)" shows "b * n \<le> e \<longleftrightarrow> b \<le> e div n"
proof
  assume "b * n \<le> e"
  from zdiv_mono1 [OF this assms] show "b \<le> e div n" using assms by simp
next
  assume "b \<le> e div n"
  then have "b * n \<le> e div n * n" using assms by simp
  also have "\<dots> \<le> e" using assms pos_mod_sign [OF assms, of e] by (simp add: minus_mod_eq_div_mult [symmetric])
  finally show "b * n \<le> e" .
qed

lemma chunk_window_interval:
  assumes "0 < cs_size s"
  shows "chunk_window s = {cs_start s div cs_size s..(cs_end s - 1) div cs_size s}"
proof -
  have "b * cs_size s < cs_end s \<longleftrightarrow> b \<le> (cs_end s - 1) div cs_size s" for b
    using le_div_int_iff [OF assms, of b "cs_end s - 1"] by (simp only: zle_diff1_eq)
  then show ?thesis
    by (simp only: chunk_window_def set_eq_iff mem_Collect_eq atLeastAtMost_iff) simp
qed

lemma div_succ_cases:
  assumes "0 < (n::int)"
  shows "(a + 1) div n = (if (a + 1) mod n = 0 then a div n + 1 else a div n)"
proof -
  define q r where "q = a div n" and "r = a mod n"
  have a: "a = r + n * q" by (simp add: q_def r_def)
  have r: "0 \<le> r" "r < n" using assms by (auto simp: r_def)
  show ?thesis
  proof (cases "r + 1 = n")
    case True
    then have e: "a + 1 = n * (q + 1)" using a by (simp add: distrib_left)
    have "(a + 1) div n = q + 1" "(a + 1) mod n = 0" unfolding e using assms by auto
    then show ?thesis by (simp add: q_def)
  next
    case False
    have e: "a + 1 = r + 1 + n * q" using a by linarith
    have "(r + 1) div n = 0" "(r + 1) mod n = r + 1" using r False by auto
    then have "(a + 1) div n = q" "(a + 1) mod n = r + 1" unfolding e using assms by simp_all
    then show ?thesis using r by (simp add: q_def)
  qed
qed

lemma chunk_append_law:
  assumes ok: "chunk_ok s"
  shows "\<exists>s'. chunk_append x s = Inr s' \<and> chunk_ok s' \<and> chunk_items s' = chunk_items s @ [x]"
proof -
  define n q where "n = cs_size s" and "q = cs_end s div n"
  define b where "b = (if cs_end s mod n = 0 then [] else the (cs_blocks s q))"
  define s' where "s' = s\<lparr>cs_blocks := (cs_blocks s)(q \<mapsto> b @ [Some x]), cs_end := cs_end s + 1\<rparr>"
  have n: "0 < n" and se: "0 \<le> cs_start s" "cs_start s \<le> cs_end s" using ok by (auto simp: chunk_ok_def n_def)
  have lb: "int (length b) = cs_end s mod n"
    using block_of_end [OF ok] by (auto simp: b_def n_def q_def)
  have run: "chunk_append x s = Inr s'"
    using n block_of_end [OF ok] by (auto simp: chunk_append_def py_divmod_def s'_def b_def q_def n_def Let_def)
  have old: "chunk_slot s' p = chunk_slot s p" if "cs_start s \<le> p" "p < cs_end s" for p
    using chunk_slot_append_old [OF that(2) _ ok that(1), where b = b and v = "Some x" and e = "cs_end s + 1"]
    unfolding s'_def q_def n_def by (simp only: b_def q_def n_def)
  have new: "chunk_slot s' (cs_end s) = Some (Some x)"
  proof -
    have "nat (cs_end s mod n) = length b" using lb by (metis nat_int)
    then show ?thesis by (simp add: chunk_slot_def s'_def n_def q_def)
  qed
  have aq: "cs_start s div n \<le> q" using se(2) n by (simp add: q_def zdiv_mono1)
  have last: "(cs_end s - 1) div n = (if cs_end s mod n = 0 then q - 1 else q)"
    using div_succ_cases [OF n, of "cs_end s - 1"] by (simp add: q_def split: if_splits)
  have w: "chunk_window s = {cs_start s div n..(cs_end s - 1) div n}"
    using chunk_window_interval [of s] n by (simp add: n_def)
  have "chunk_window s' = {cs_start s div n..q}"
    using chunk_window_interval [of s'] n by (simp add: n_def q_def s'_def)
  moreover have "dom (cs_blocks s') = insert q (chunk_window s)"
    using ok by (simp add: s'_def chunk_ok_def)
  moreover have "insert q {cs_start s div n..(cs_end s - 1) div n} = {cs_start s div n..q}"
    using aq unfolding last by auto
  ultimately have win: "dom (cs_blocks s') = chunk_window s'" by (simp add: w)
  have qm: "cs_end s - q * n = cs_end s mod n" by (simp add: q_def minus_div_mult_eq_mod)
  have len: "int (length xs) = min n (cs_end s + 1 - c * n)" if "cs_blocks s' c = Some xs" for c xs
  proof (cases "c = q")
    case True
    then show ?thesis using that lb qm pos_mod_bound [OF n, of "cs_end s"] by (auto simp: s'_def)
  next
    case False
    then have c: "cs_blocks s c = Some xs" using that by (simp add: s'_def)
    then have "c \<in> chunk_window s" using ok unfolding chunk_ok_def by (metis domI)
    then have "c \<le> q - 1" using last False unfolding w by (simp split: if_splits)
    then have "(c + 1) * n \<le> cs_end s" using le_div_int_iff [OF n, of "c + 1" "cs_end s"] by (simp add: q_def)
    then show ?thesis using ok c by (auto simp: chunk_ok_def n_def distrib_right)
  qed
  have slots: "\<exists>y. chunk_slot s' p = Some (Some y)" if "cs_start s \<le> p" "p < cs_end s + 1" for p
    using that old [of p] new ok by (cases "p = cs_end s") (auto simp: chunk_ok_def)
  have sel: "cs_size s' = n" "cs_start s' = cs_start s" "cs_end s' = cs_end s + 1"
    by (simp_all add: s'_def n_def)
  have "chunk_ok s'"
    unfolding chunk_ok_def sel using n se win len slots by auto
  moreover have "chunk_items s' = chunk_items s @ [x]"
    unfolding chunk_items_def sel using se old new by (simp add: upto_rec2)
  ultimately show ?thesis using run by blast
qed

subsection \<open>popleft\<close>

definition chunk_advance :: "'a option list \<Rightarrow> 'a chunk_store \<Rightarrow> 'a chunk_store" where
  "chunk_advance b s =
     (let q = cs_start s div cs_size s; s1 = s\<lparr>cs_blocks := (cs_blocks s)(q \<mapsto> b), cs_start := cs_start s + 1\<rparr> in
        if (cs_start s + 1) mod cs_size s = 0 then s1\<lparr>cs_blocks := (cs_blocks s1)(q := None)\<rparr> else s1)"

lemma chunk_advance_sel [simp]:
  "cs_size (chunk_advance b s) = cs_size s" "cs_start (chunk_advance b s) = cs_start s + 1"
  "cs_end (chunk_advance b s) = cs_end s"
  by (simp_all add: chunk_advance_def Let_def)

lemma chunk_advance_blocks:
  "cs_blocks (chunk_advance b s) = (cs_blocks s)(cs_start s div cs_size s :=
     (if (cs_start s + 1) mod cs_size s = 0 then None else Some b))"
  by (simp add: chunk_advance_def Let_def)

lemma chunk_slot_advance:
  assumes "0 < cs_size s" "cs_blocks s (cs_start s div cs_size s) = Some b" "cs_start s < p"
  shows "chunk_slot (chunk_advance (b[nat (cs_start s mod cs_size s) := v]) s) p = chunk_slot s p"
proof (cases "p div cs_size s = cs_start s div cs_size s")
  case True
  have "cs_start s mod cs_size s \<noteq> p mod cs_size s"
    using True assms(3) by (metis mult_div_mod_eq less_irrefl)
  then have i: "nat (cs_start s mod cs_size s) \<noteq> nat (p mod cs_size s)"
    using pos_mod_sign [OF assms(1)] by (metis nat_eq_iff)
  have "(cs_start s + 1) div cs_size s \<le> p div cs_size s"
    using assms(1,3) by (simp add: zdiv_mono1)
  then have "(cs_start s + 1) mod cs_size s \<noteq> 0"
    using True div_succ_cases [OF assms(1), of "cs_start s"] by (auto split: if_splits)
  with True i assms(2) show ?thesis by (simp add: chunk_slot_def chunk_advance_blocks)
qed (auto simp: chunk_slot_def chunk_advance_blocks split: option.splits)

lemma chunk_popleft_runs:
  assumes ok: "chunk_ok s" and lt: "cs_start s < cs_end s"
  shows "\<exists>b. cs_blocks s (cs_start s div cs_size s) = Some b \<and>
    chunk_popleft s = Inr (Some (chunk_items s ! 0), chunk_advance (b[nat (cs_start s mod cs_size s) := None]) s)"
proof -
  have n: "0 < cs_size s" using ok by (simp add: chunk_ok_def)
  have "py_position (chunk_items s) 0 = Some 0"
    using lt chunk_len_items [OF ok] by (auto simp: py_position_def chunk_len_def)
  note g = chunk_getitem_in [OF ok this]
  from chunk_slot_read [OF chunk_item_at [OF ok order_refl lt] n] obtain b where
    b: "cs_blocks s (cs_start s div cs_size s) = Some b" "nat (cs_start s mod cs_size s) < length b" by blast
  then have "py_write b (cs_start s mod cs_size s) None = Inr (b[nat (cs_start s mod cs_size s) := None])"
    using n by (simp add: py_write_def py_position_def nat_less_iff)
  with g b(1) n show ?thesis by (simp add: chunk_popleft_def py_divmod_def chunk_advance_def Let_def)
qed

lemma chunk_popleft_law:
  assumes ok: "chunk_ok s" and items: "chunk_items s = x # xs"
  shows "\<exists>s'. chunk_popleft s = Inr (Some x, s') \<and> chunk_ok s' \<and> chunk_items s' = xs"
proof -
  define n q where "n = cs_size s" and "q = cs_start s div n"
  have n: "0 < n" and se: "0 \<le> cs_start s" using ok by (auto simp: chunk_ok_def n_def)
  have lt: "cs_start s < cs_end s" using chunk_len_items [OF ok] items by (simp add: chunk_len_def)
  from chunk_popleft_runs [OF ok lt] obtain b where b: "cs_blocks s q = Some b"
    and run: "chunk_popleft s = Inr (Some x, chunk_advance (b[nat (cs_start s mod n) := None]) s)"
    using items by (auto simp: q_def n_def)
  define s' where "s' = chunk_advance (b[nat (cs_start s mod n) := None]) s"
  have sel: "cs_size s' = n" "cs_start s' = cs_start s + 1" "cs_end s' = cs_end s"
    by (simp_all add: s'_def n_def)
  have old: "chunk_slot s' p = chunk_slot s p" if "cs_start s < p" for p
    using chunk_slot_advance [OF _ _ that] n b unfolding s'_def n_def q_def by blast
  have blocks: "cs_blocks s' = (cs_blocks s)(q := if (cs_start s + 1) mod n = 0 then None
      else Some (b[nat (cs_start s mod n) := None]))"
    by (simp add: s'_def chunk_advance_blocks n_def q_def)
  have w: "chunk_window s = {q..(cs_end s - 1) div n}" "chunk_window s' = {(cs_start s + 1) div n..(cs_end s - 1) div n}"
    using chunk_window_interval [of s] chunk_window_interval [of s'] n sel by (simp_all add: n_def q_def)
  have "q \<in> chunk_window s" using ok b unfolding chunk_ok_def by (metis domI)
  then have win: "dom (cs_blocks s') = chunk_window s'"
    using ok n div_succ_cases [OF n, of "cs_start s"]
    unfolding blocks w chunk_ok_def by (auto simp: q_def [symmetric])
  have len: "int (length ys) = min n (cs_end s - c * n)" if "cs_blocks s' c = Some ys" for c ys
    using that b ok by (auto simp: blocks chunk_ok_def n_def split: if_splits)
  have slots: "\<exists>y. chunk_slot s' p = Some (Some y)" if "cs_start s + 1 \<le> p" "p < cs_end s" for p
    using that old [of p] ok by (auto simp: chunk_ok_def)
  have "chunk_ok s'"
    unfolding chunk_ok_def sel using n se lt win len slots by auto
  moreover have "chunk_items s' = xs"
  proof -
    have "chunk_items s = the (the (chunk_slot s (cs_start s))) # chunk_items s'"
      unfolding chunk_items_def sel using lt old by (simp add: upto_rec1 [of "cs_start s"])
    then show ?thesis using items by simp
  qed
  ultimately show ?thesis using run by (auto simp: s'_def)
qed

subsection \<open>The store is a deque\<close>

lemma chunk_popleft_empty: "chunk_ok s \<Longrightarrow> chunk_items s = [] \<Longrightarrow> \<exists>e. chunk_popleft s = Inl e"
  using chunk_getitem_out [of s 0] by (auto simp: chunk_popleft_def)

interpretation chunks: replay_store chunk_ops chunk_ok chunk_items
  by unfold_locales
     (simp_all add: chunk_ops_def chunk_append_law chunk_popleft_law chunk_popleft_empty chunk_len_items
        chunk_getitem_in chunk_getitem_out)

lemma chunk_reads_all:
  assumes "chunk_ok s" "\<forall>i \<in> set is. 0 \<le> i \<and> i < chunk_len s"
  shows "chunk_reads is s = Inr (map (\<lambda>i. Some (chunk_items s ! nat i)) is)"
  using assms(2)
proof (induction "is")
  case (Cons i "is")
  then have "py_position (chunk_items s) i = Some (nat i)"
    using chunk_len_items [OF assms(1)] by (simp add: py_position_def)
  with Cons chunk_getitem_in [OF assms(1)] show ?case by simp
qed simp

lemma chunk_iter_items: "chunk_ok s \<Longrightarrow> chunk_iter s = Inr (map Some (chunk_items s))"
  by (simp add: chunk_iter_def chunk_reads_all chunk_len_items) (auto intro!: nth_equalityI simp: nth_upto)

lemma chunk_blocks_bound:
  assumes ok: "chunk_ok s"
  shows "int (card (dom (cs_blocks s))) \<le> (chunk_len s + cs_size s - 2) div cs_size s + 1"
proof -
  define n where "n = cs_size s"
  have n: "0 < n" and le: "cs_start s \<le> cs_end s" using ok by (auto simp: chunk_ok_def n_def)
  have "dom (cs_blocks s) = {cs_start s div n..(cs_end s - 1) div n}"
    using ok chunk_window_interval [of s] n by (simp add: chunk_ok_def n_def)
  then have card: "int (card (dom (cs_blocks s))) = max 0 ((cs_end s - 1) div n + 1 - cs_start s div n)"
    by simp
  have e: "cs_end s - 1 = (cs_start s mod n + chunk_len s - 1) + n * (cs_start s div n)"
    using mult_div_mod_eq [of n "cs_start s"] unfolding chunk_len_def by linarith
  have "(cs_end s - 1) div n = cs_start s div n + (cs_start s mod n + chunk_len s - 1) div n"
    unfolding e by (rule div_mult_self2) (use n in simp)
  moreover have "(cs_start s mod n + chunk_len s - 1) div n \<le> (chunk_len s + n - 2) div n"
    using n pos_mod_bound [OF n, of "cs_start s"] by (intro zdiv_mono1) linarith+
  moreover have "- 1 \<le> (chunk_len s + n - 2) div n"
    using n le le_div_int_iff [OF n, of "- 1" "chunk_len s + n - 2"] by (simp add: chunk_len_def)
  ultimately show ?thesis by (simp add: card flip: n_def)
qed

section \<open>ReplayTunnel\<close>

text \<open>A plain list has no \<open>popleft\<close>.\<close>

definition list_ops :: "('a, 'a list) store_ops" where
  "list_ops = deque_ops\<lparr>so_popleft := (\<lambda>xs. Inl Attribute_error)\<rparr>"

datatype 'a replay_items = Deque_items "'a list" | List_items "'a list" | Chunk_items "'a chunk_store"

definition replay_tunnel_init ::
  "string \<Rightarrow> clock \<Rightarrow> clock option \<Rightarrow> bool \<Rightarrow> int option \<Rightarrow> string \<Rightarrow>
   'e exc + (('a, 'e) tunnel \<times> 'a replay_items)" where
  "replay_tunnel_init storage wait_interval timeout timeout_after_start max_history wake_mode =
     (case tunnel_init wait_interval timeout timeout_after_start max_history wake_mode of
        Inl e \<Rightarrow> Inl e
      | Inr t \<Rightarrow>
          (if storage = ''list''
           then (if max_history \<noteq> None then Inl ValueError else Inr (t, List_items []))
           else if storage = ''chunk'' then Inr (t, Chunk_items (chunk_init 256))
           else Inr (t, Deque_items [])))"

text \<open>The inherited \<open>put\<close> on the store the constructor chose, and reading it back in order.\<close>

fun replay_retain_all ::
  "int option \<Rightarrow> 'a list \<Rightarrow> 'a replay_items \<times> int \<times> int \<Rightarrow> store_error + ('a replay_items \<times> int \<times> int)" where
  "replay_retain_all mh xs (Deque_items s, h) = map_sum id (apfst Deque_items) (store_retain_all deque_ops mh xs (s, h))"
| "replay_retain_all mh xs (List_items s, h) = map_sum id (apfst List_items) (store_retain_all list_ops mh xs (s, h))"
| "replay_retain_all mh xs (Chunk_items s, h) = map_sum id (apfst Chunk_items) (store_retain_all chunk_ops mh xs (s, h))"

fun replay_read :: "'a replay_items \<Rightarrow> store_error + 'a option list" where
  "replay_read (Deque_items xs) = Inr (map Some xs)"
| "replay_read (List_items xs) = Inr (map Some xs)"
| "replay_read (Chunk_items s) = chunk_iter s"

lemma list_retains_like_deque:
  "store_retain_all list_ops None xs h = store_retain_all deque_ops None xs h"
proof (induction xs arbitrary: h)
  case (Cons x xs)
  have "store_retain list_ops None x h = store_retain deque_ops None x h"
    by (simp add: store_retain_def list_ops_def split: prod.split sum.split)
  with Cons.IH show ?case by (simp split: sum.split)
qed simp

lemma tunnel_init_fields:
  "tunnel_init w to tas mh wm = Inr t \<Longrightarrow>
   tun_items t = [] \<and> tun_base_sequence t = 0 \<and> tun_next_sequence t = 0 \<and> tun_max_history t = mh"
  by (auto simp: tunnel_init_def split: if_splits)

lemma replay_tunnel_init_cases:
  "replay_tunnel_init storage w to tas mh wm = Inr (t, it) \<Longrightarrow>
   tunnel_init w to tas mh wm = Inr t \<and>
   (it = Deque_items [] \<or> it = List_items [] \<and> mh = None \<or> it = Chunk_items (chunk_init 256))"
  by (auto simp: replay_tunnel_init_def split: sum.splits if_splits)

section \<open>Properties\<close>

text \<open>C30. A \<open>ChunkStore\<close> is a deque. From an empty store of any positive block size, any sequence of appends,
  \<open>popleft\<close>s, lengths and indexings (negative and out-of-range ones included) is answered as
  \<open>collections.deque\<close> answers it, both refusing the same operations; iterating the store afterwards yields the
  deque's items; and the blocks it keeps are at most one more than the items need.
\<close>

theorem chunk_store_is_a_deque:
  assumes "0 < sz"
  shows "case (store_run chunk_ops ps (chunk_init sz), store_run deque_ops ps []) of
    ((answers, s), (deque_answers, xs)) \<Rightarrow>
      list_all2 same_refusal answers deque_answers
      \<and> chunk_iter s = Inr (map Some xs)
      \<and> int (card (dom (cs_blocks s))) \<le> (int (length xs) + cs_size s - 2) div cs_size s + 1"
proof -
  obtain as s where r: "store_run chunk_ops ps (chunk_init sz) = (as, s)" by fastforce
  obtain bs xs where d: "store_run deque_ops ps [] = (bs, xs)" by fastforce
  have d': "store_run deque_ops ps (chunk_items (chunk_init sz)) = (bs, xs)" by (simp add: d)
  from chunks.run_refines [OF chunk_init_ok [OF assms] r d'] show ?thesis
    using chunk_iter_items [of s] chunk_blocks_bound [of s] chunk_len_items [of s] by (auto simp: r d)
qed

lemma chunk_store_is_a_deque_witness:
  "list_all2 same_refusal
      (fst (store_run chunk_ops [Append 5, Append 6, Append (7::int), Popleft, Index (- 1), Popleft, Index 1] (chunk_init 2)))
      [Done, Done, Done, Value (Some 5), Value (Some 7), Value (Some 6), Refused (Index_error 1)]"
proof -
  let ?ps = "[Append 5, Append 6, Append (7::int), Popleft, Index (- 1), Popleft, Index 1]"
  have d: "store_run deque_ops ?ps []
      = ([Done, Done, Done, Value (Some 5), Value (Some 7), Value (Some 6), Refused (Index_error 1)], [7])"
    by (simp add: deque_ops_def py_read_def py_position_def)
  obtain as s where r: "store_run chunk_ops ?ps (chunk_init 2) = (as, s)" by fastforce
  show ?thesis
    using chunk_store_is_a_deque [of 2 ?ps] unfolding d r by simp
qed

text \<open>\<open>ReplayTunnel\<close> retains what \<open>Tunnel\<close> retains. Whatever storage its constructor accepts, publishing
  any items leaves the items, the base sequence and the next sequence of the ordinary tunnel.
\<close>

theorem replay_tunnel_retains_the_same:
  assumes "replay_tunnel_init storage w to tas mh wm = Inr (t, it)"
  shows "case replay_retain_all mh xs (it, tun_base_sequence t, tun_next_sequence t) of
      Inl _ \<Rightarrow> False
    | Inr (it', base, next) \<Rightarrow>
        base = tun_base_sequence (fold append_item xs t) \<and> next = tun_next_sequence (fold append_item xs t)
        \<and> replay_read it' = Inr (map Some (tun_items (fold append_item xs t)))"
proof -
  note init = replay_tunnel_init_cases [OF assms]
  then have f: "tun_items t = []" "tun_max_history t = mh"
    using tunnel_init_fields [of w to tas mh wm t] by auto
  from init show ?thesis
    using deque.retain_all_refines [of t "[]" xs] chunks.retain_all_refines [OF chunk_init_ok, of 256 t xs]
      list_retains_like_deque [of xs "([], tun_base_sequence t, tun_next_sequence t)"] f
    by (auto simp: chunk_iter_items)
qed

lemma replay_tunnel_retains_the_same_witness:
  "\<exists>(t :: (nat, nat) tunnel) it.
     replay_tunnel_init ''chunk'' 1 None False (Some 2) ''individual'' = Inr (t, it)
   \<and> (case replay_retain_all (Some 2) [5, 6, 7] (it, 0, 0) of
        Inl _ \<Rightarrow> False
      | Inr (it', base, next) \<Rightarrow> base = 1 \<and> next = 3 \<and> replay_read it' = Inr [Some 6, Some 7])"
proof -
  obtain t :: "(nat, nat) tunnel" and it where
    r: "replay_tunnel_init ''chunk'' 1 None False (Some 2) ''individual'' = Inr (t, it)"
    by (auto simp: replay_tunnel_init_def tunnel_init_def)
  then have "t = \<lparr>tun_items = [], tun_wake_mode = ''individual'', tun_base_sequence = 0, tun_next_sequence = 0,
       tun_closed = False, tun_failure = None, tun_async_waiters = [], tun_timeout = None,
       tun_max_history = Some 2, tun_wait_interval = 1, tun_timeout_after_start = False\<rparr>"
    by (auto simp: replay_tunnel_init_def tunnel_init_def)
  with replay_tunnel_retains_the_same [OF r, of "[5, 6, 7]"] r show ?thesis
    by (auto simp: append_item_def Let_def split: sum.splits prod.splits)
qed

end
