(* ===== verification/Wake_Candidates.thy ===== *)
theory Wake_Candidates
  imports Tunnel_Props
begin

text \<open>
  \<open>docs/performance-strategy/candidates.py\<close>: \<open>WakeTunnel\<close>, a tunnel whose wake-up is grouped by event
  loop and may use \<open>call_soon\<close> on the loop that runs the producer, with counters for the notifications
  sent and the futures resolved.
\<close>

section \<open>WakeTunnel\<close>

record ('a, 'e) wake_tunnel =
  wt_tunnel :: "('a, 'e) tunnel"
  wt_wake :: string
  wt_notifications :: int
  wt_resolutions :: int

definition wake_tunnel_init ::
  "string \<Rightarrow> clock \<Rightarrow> clock option \<Rightarrow> bool \<Rightarrow> int option \<Rightarrow> string \<Rightarrow> 'e exc + ('a, 'e) wake_tunnel" where
  "wake_tunnel_init wake wait_interval timeout timeout_after_start max_history wake_mode =
     (case tunnel_init wait_interval timeout timeout_after_start max_history wake_mode of
        Inl e \<Rightarrow> Inl e
      | Inr t \<Rightarrow> Inr \<lparr>wt_tunnel = t, wt_wake = wake, wt_notifications = 0, wt_resolutions = 0\<rparr>)"

text \<open>\<open>groups[waiter.loop].append(waiter)\<close> on a \<open>defaultdict(list)\<close>, in insertion order.\<close>

fun wake_groups_add ::
  "(loop_ref \<times> async_waiter list) list \<Rightarrow> async_waiter \<Rightarrow> (loop_ref \<times> async_waiter list) list" where
  "wake_groups_add [] w = [(w_loop w, [w])]"
| "wake_groups_add ((l, ws) # gs) w =
     (if l = w_loop w then (l, ws @ [w]) # gs else (l, ws) # wake_groups_add gs w)"

definition wake_groups :: "async_waiter list \<Rightarrow> (loop_ref \<times> async_waiter list) list" where
  "wake_groups ws = foldl wake_groups_add [] ws"

text \<open>What the loop over the groups does, in order; on a closed loop either call raises.\<close>

datatype wake_effect =
    Baseline_callback wake_callback
  | Call_soon loop_ref "async_waiter list"
  | Call_soon_threadsafe loop_ref "async_waiter list"
  | Cancel_future future_ref

definition wake_group ::
  "(loop_ref \<Rightarrow> bool) \<Rightarrow> string \<Rightarrow> loop_ref option \<Rightarrow> loop_ref \<times> async_waiter list \<Rightarrow> wake_effect list" where
  "wake_group lc wake current g =
     (case g of (l, ws) \<Rightarrow>
        if lc l then map (\<lambda>w. Cancel_future (w_future w)) ws
        else if wake = ''local'' \<and> current = Some l then [Call_soon l ws]
        else [Call_soon_threadsafe l ws])"

definition wake_tunnel_wake ::
  "(loop_ref \<Rightarrow> bool) \<Rightarrow> loop_ref option \<Rightarrow> ('a, 'e) wake_tunnel \<Rightarrow> ('a, 'e) wake_tunnel \<times> wake_effect list" where
  "wake_tunnel_wake lc current w =
     (let waiters = tun_async_waiters (wt_tunnel w); n = int (length waiters) in
        if wt_wake w = ''baseline''
        then (case wake_waiters_locked lc (wt_tunnel w) of (t', cs) \<Rightarrow>
                (w\<lparr>wt_tunnel := t', wt_notifications := wt_notifications w + n,
                   wt_resolutions := wt_resolutions w + n\<rparr>, map Baseline_callback cs))
        else let groups = wake_groups waiters in
          (w\<lparr>wt_tunnel := (wt_tunnel w)\<lparr>tun_async_waiters := []\<rparr>,
             wt_notifications := wt_notifications w + int (length groups),
             wt_resolutions := wt_resolutions w + sum_list (map (\<lambda>g. int (length (snd g))) groups)\<rparr>,
           concat (map (wake_group lc (wt_wake w) current) groups)))"

text \<open>Futures: \<open>set_result\<close> behind \<open>done()\<close>, and \<open>cancel\<close>, change a pending future only.\<close>

datatype future_state = Fut_pending | Fut_resolved | Fut_cancelled

definition settle_future :: "future_ref \<times> future_state \<Rightarrow> (future_ref \<Rightarrow> future_state) \<Rightarrow> future_ref \<Rightarrow> future_state" where
  "settle_future p fs = (if fs (fst p) = Fut_pending then fs(fst p := snd p) else fs)"

definition resolve_many :: "async_waiter list \<Rightarrow> (future_ref \<Rightarrow> future_state) \<Rightarrow> future_ref \<Rightarrow> future_state" where
  "resolve_many ws fs = fold (\<lambda>w. settle_future (w_future w, Fut_resolved)) ws fs"

fun run_wake_effect :: "wake_effect \<Rightarrow> (future_ref \<Rightarrow> future_state) \<Rightarrow> future_ref \<Rightarrow> future_state" where
  "run_wake_effect (Baseline_callback c) fs = fold (\<lambda>f. settle_future (f, Fut_resolved)) (callback_futures c) fs"
| "run_wake_effect (Call_soon l ws) fs = resolve_many ws fs"
| "run_wake_effect (Call_soon_threadsafe l ws) fs = resolve_many ws fs"
| "run_wake_effect (Cancel_future f) fs = settle_future (f, Fut_cancelled) fs"

subsection \<open>Groups\<close>

lemma wake_groups_add_props:
  "distinct (map fst gs) \<Longrightarrow> distinct (map fst (wake_groups_add gs w))
     \<and> set (map fst (wake_groups_add gs w)) = insert (w_loop w) (set (map fst gs))
     \<and> sum_list (map (\<lambda>g. int (length (snd g))) (wake_groups_add gs w))
         = sum_list (map (\<lambda>g. int (length (snd g))) gs) + 1"
  by (induction gs w rule: wake_groups_add.induct) auto

lemma wake_groups_add_mem:
  "(\<forall>(l, ws) \<in> set gs. \<forall>v \<in> set ws. w_loop v = l) \<Longrightarrow>
   (\<forall>(l, ws) \<in> set (wake_groups_add gs w). \<forall>v \<in> set ws. w_loop v = l)
   \<and> (\<Union>g \<in> set (wake_groups_add gs w). set (snd g)) = insert w (\<Union>g \<in> set gs. set (snd g))"
  by (induction gs w rule: wake_groups_add.induct) auto

lemma wake_groups_props:
  "distinct (map fst (wake_groups ws)) \<and> set (map fst (wake_groups ws)) = w_loop ` set ws
   \<and> sum_list (map (\<lambda>g. int (length (snd g))) (wake_groups ws)) = int (length ws)
   \<and> (\<forall>(l, vs) \<in> set (wake_groups ws). \<forall>v \<in> set vs. w_loop v = l)
   \<and> (\<Union>g \<in> set (wake_groups ws). set (snd g)) = set ws"
proof (induction ws rule: rev_induct)
  case (snoc w ws)
  have "wake_groups (ws @ [w]) = wake_groups_add (wake_groups ws) w" by (simp add: wake_groups_def)
  with snoc wake_groups_add_props [of "wake_groups ws" w] wake_groups_add_mem [of "wake_groups ws" w]
  show ?case by simp
qed (simp add: wake_groups_def)

lemma wake_groups_count: "length (wake_groups ws) = card (w_loop ` set ws)"
  using wake_groups_props [of ws] by (metis distinct_card length_map)

section \<open>What a wake-up does to the futures\<close>

fun effect_targets :: "wake_effect \<Rightarrow> (future_ref \<times> future_state) list" where
  "effect_targets (Baseline_callback c) = map (\<lambda>f. (f, Fut_resolved)) (callback_futures c)"
| "effect_targets (Call_soon l ws) = map (\<lambda>w. (w_future w, Fut_resolved)) ws"
| "effect_targets (Call_soon_threadsafe l ws) = map (\<lambda>w. (w_future w, Fut_resolved)) ws"
| "effect_targets (Cancel_future f) = [(f, Fut_cancelled)]"

lemma run_wake_effect_targets: "run_wake_effect e fs = fold settle_future (effect_targets e) fs"
  by (cases e) (auto simp: resolve_many_def fold_map o_def)

lemma run_wake_effects_targets:
  "fold run_wake_effect es fs = fold settle_future (concat (map effect_targets es)) fs"
  by (induction es arbitrary: fs) (simp_all add: run_wake_effect_targets)

lemma settle_futures:
  "\<forall>p \<in> set ps. snd p \<noteq> Fut_pending \<Longrightarrow>
   fold settle_future ps fs f =
     (if fs f \<noteq> Fut_pending then fs f else case map_of ps f of None \<Rightarrow> Fut_pending | Some v \<Rightarrow> v)"
  by (induction ps arbitrary: fs) (auto simp: settle_future_def split: option.splits)

text \<open>When every entry for a future names the same outcome, the order of the entries does not matter.\<close>

lemma settle_futures_unique:
  assumes "\<forall>p \<in> set ps. snd p \<noteq> Fut_pending" "(f, v) \<in> set ps" "\<And>u. (f, u) \<in> set ps \<Longrightarrow> u = v"
  shows "fold settle_future ps fs f = (if fs f = Fut_pending then v else fs f)"
proof -
  obtain u where "map_of ps f = Some u" using assms(2) by (metis weak_map_of_SomeI)
  then have "map_of ps f = Some v" using assms(3) map_of_SomeD by fast
  then show ?thesis using settle_futures [OF assms(1)] by simp
qed

definition wake_outcome :: "(loop_ref \<Rightarrow> bool) \<Rightarrow> string \<Rightarrow> async_waiter \<Rightarrow> future_state" where
  "wake_outcome lc wake w =
     (if \<not> lc (w_loop w) then Fut_resolved else if wake = ''baseline'' then Fut_pending else Fut_cancelled)"

lemma wake_group_targets:
  "\<forall>w \<in> set ws. w_loop w = l \<Longrightarrow> wake \<noteq> ''baseline'' \<Longrightarrow>
   set (concat (map effect_targets (wake_group lc wake current (l, ws)))) = (\<lambda>w. (w_future w, wake_outcome lc wake w)) ` set ws"
  by (auto simp: wake_group_def wake_outcome_def)

lemma candidate_targets:
  assumes "wake \<noteq> ''baseline''"
  shows "set (concat (map effect_targets (concat (map (wake_group lc wake current) (wake_groups ws)))))
    = (\<lambda>w. (w_future w, wake_outcome lc wake w)) ` set ws"
proof -
  let ?o = "\<lambda>w. (w_future w, wake_outcome lc wake w)"
  have "set (concat (map effect_targets (wake_group lc wake current g))) = ?o ` set (snd g)"
    if "g \<in> set (wake_groups ws)" for g
  proof -
    have "\<forall>w \<in> set (snd g). w_loop w = fst g" using wake_groups_props [of ws] that by fastforce
    from wake_group_targets [OF this assms] show ?thesis by simp
  qed
  then have "(\<Union>g \<in> set (wake_groups ws). set (concat (map effect_targets (wake_group lc wake current g))))
      = ?o ` (\<Union>g \<in> set (wake_groups ws). set (snd g))" by auto
  then show ?thesis using wake_groups_props [of ws] by simp
qed

lemma baseline_targets:
  "set (concat (map effect_targets (map Baseline_callback (snd (wake_waiters_locked lc t)))))
   = {(w_future w, Fut_resolved) | w. w \<in> set (tun_async_waiters t) \<and> \<not> lc (w_loop w)}"
proof -
  let ?cs = "snd (wake_waiters_locked lc t)"
  have "(\<exists>c \<in> set ?cs. f \<in> set (callback_futures c)) \<longleftrightarrow>
      (\<exists>w \<in> set (tun_async_waiters t). w_future w = f \<and> \<not> lc (w_loop w))" for f
    using wake_resolves [of lc t "\<lambda>_. False"] by (auto simp: fold_run_wake_callback fun_eq_iff)
  then have "{f. \<exists>c \<in> set ?cs. f \<in> set (callback_futures c)}
      = {w_future w | w. w \<in> set (tun_async_waiters t) \<and> \<not> lc (w_loop w)}"
    by (auto simp only: set_eq_iff mem_Collect_eq)
  moreover have "set (concat (map effect_targets (map Baseline_callback ?cs)))
      = (\<lambda>f. (f, Fut_resolved)) ` {f. \<exists>c \<in> set ?cs. f \<in> set (callback_futures c)}" by auto
  ultimately show ?thesis by auto
qed

lemma settle_non_target: "f \<notin> fst ` set ps \<Longrightarrow> fold settle_future ps fs f = fs f"
  by (induction ps arbitrary: fs) (auto simp: settle_future_def)

lemma wake_tunnel_wake_targets:
  assumes "wake_tunnel_wake lc current w = (w', es)"
  shows "set (concat (map effect_targets es)) = (\<lambda>v. (w_future v, wake_outcome lc (wt_wake w) v)) `
     (if wt_wake w = ''baseline'' then {v \<in> set (tun_async_waiters (wt_tunnel w)). \<not> lc (w_loop v)}
      else set (tun_async_waiters (wt_tunnel w)))"
proof (cases "wt_wake w = ''baseline''")
  case True
  obtain t' cs where r: "wake_waiters_locked lc (wt_tunnel w) = (t', cs)" by fastforce
  then have "es = map Baseline_callback cs" using assms True by (simp add: wake_tunnel_wake_def Let_def)
  then show ?thesis using baseline_targets [of lc "wt_tunnel w"] r True
    by (auto simp: wake_outcome_def)
next
  case False
  then have "es = concat (map (wake_group lc (wt_wake w) current) (wake_groups (tun_async_waiters (wt_tunnel w))))"
    using assms by (simp add: wake_tunnel_wake_def Let_def)
  then show ?thesis using candidate_targets [OF False] False by simp
qed

lemma wake_tunnel_wake_counts:
  assumes "wake_tunnel_wake lc current w = (w', es)"
  shows "tun_async_waiters (wt_tunnel w') = []
    \<and> wt_resolutions w' = wt_resolutions w + int (length (tun_async_waiters (wt_tunnel w)))
    \<and> wt_notifications w' = wt_notifications w +
        int (if wt_wake w = ''baseline'' then length (tun_async_waiters (wt_tunnel w))
             else card (w_loop ` set (tun_async_waiters (wt_tunnel w))))"
  using assms wake_groups_props [of "tun_async_waiters (wt_tunnel w)"]
  by (auto simp: wake_tunnel_wake_def Let_def wake_groups_count wake_waiters_locked_def split: if_splits)

lemma wake_outcome_settles:
  assumes run: "wake_tunnel_wake lc current w = (w', es)"
    and d: "distinct (map w_future (tun_async_waiters (wt_tunnel w)))"
    and v: "v \<in> set (tun_async_waiters (wt_tunnel w))"
  shows "fold run_wake_effect es fs (w_future v)
    = (if fs (w_future v) = Fut_pending then wake_outcome lc (wt_wake w) v else fs (w_future v))"
proof -
  let ?ps = "concat (map effect_targets es)"
  note t = wake_tunnel_wake_targets [OF run]
  have only: "u = wake_outcome lc (wt_wake w) v" if "(w_future v, u) \<in> set ?ps" for u
    using that d v unfolding t by (auto simp: distinct_map inj_on_def split: if_splits)
  have settled: "\<forall>p \<in> set ?ps. snd p \<noteq> Fut_pending"
    unfolding t by (auto simp: wake_outcome_def)
  show ?thesis
  proof (cases "wt_wake w = ''baseline'' \<and> lc (w_loop v)")
    case True
    then have "wake_outcome lc (wt_wake w) v = Fut_pending" by (simp add: wake_outcome_def)
    moreover have "w_future v \<notin> fst ` set ?ps"
      using True only settled calculation by fastforce
    ultimately show ?thesis by (simp add: run_wake_effects_targets settle_non_target)
  next
    case False
    then have "(w_future v, wake_outcome lc (wt_wake w) v) \<in> set ?ps" unfolding t using v by auto
    from settle_futures_unique [OF settled this only] show ?thesis by (simp add: run_wake_effects_targets)
  qed
qed

section \<open>Properties\<close>



end
