(* ===== verification/Bench_Kernels.thy ===== *)
theory Bench_Kernels
  imports Complex_Main "HOL-Library.Word"
begin

unbundle bit_operations_syntax

text \<open>
  \<open>docs/performance-strategy/bench.py\<close>: the arithmetic kernel in Python's unbounded integers, the native
  kernels it is compared with (\<open>native.rs\<close>, 64-bit machine words), the benchmark cases that check one
  against the other, and the latency quantiles.
\<close>

section \<open>The kernel in Python and in Rust\<close>

definition MASK :: int where
  "MASK = push_bit 64 1 - 1"

primrec kernel_loop :: "nat \<Rightarrow> int \<Rightarrow> int" where
  "kernel_loop 0 x = x"
| "kernel_loop (Suc n) x = kernel_loop n (((x XOR drop_bit 7 x) * 6364136223846793005 + 1) AND MASK)"

definition kernel :: "int \<Rightarrow> int \<Rightarrow> int" where
  "kernel seed iterations = kernel_loop (nat iterations) (seed + 1)"

text \<open>\<open>native.rs\<close>: wrapping arithmetic on \<open>u64\<close>. \<open>native_callbacks\<close> joins one sum per worker.\<close>

primrec native_kernel_loop :: "nat \<Rightarrow> 64 word \<Rightarrow> 64 word" where
  "native_kernel_loop 0 x = x"
| "native_kernel_loop (Suc n) x = native_kernel_loop n ((x XOR drop_bit 7 x) * 6364136223846793005 + 1)"

definition native_kernel :: "64 word \<Rightarrow> 64 word \<Rightarrow> 64 word" where
  "native_kernel seed iterations = native_kernel_loop (unat iterations) (seed + 1)"

definition native_batch :: "64 word \<Rightarrow> 64 word \<Rightarrow> 64 word" where
  "native_batch count iterations =
     foldl (\<lambda>sum i. sum + native_kernel (word_of_nat i) iterations) 0 [0..<unat count]"

text \<open>\<open>(worker..count).step_by(workers)\<close>, for a positive number of workers.\<close>

definition step_by :: "nat \<Rightarrow> nat \<Rightarrow> nat \<Rightarrow> nat list" where
  "step_by worker count workers = filter (\<lambda>i. (i - worker) mod workers = 0) [worker..<count]"

definition native_callbacks :: "(64 word \<Rightarrow> 64 word) \<Rightarrow> 64 word \<Rightarrow> 64 word \<Rightarrow> 64 word" where
  "native_callbacks callback count workers =
     foldl (\<lambda>sum h. sum + h) 0
       (map (\<lambda>worker. foldl (\<lambda>sum i. sum + callback (word_of_nat i)) 0 (step_by worker (unat count) (unat workers)))
         [0..<unat workers])"

section \<open>The cases that compare them\<close>

text \<open>
  An argument of a \<open>ctypes\<close> function of type \<open>c_uint64\<close> is taken modulo 2 ^ 64, a result is read back as
  a Python integer. \<open>None\<close> stands for the \<open>AssertionError\<close> of \<open>assert value == expected\<close>.
\<close>

definition checked :: "int \<Rightarrow> int \<Rightarrow> int option" where
  "checked expected value = (if value = expected then Some value else None)"

definition expected_sum :: "nat \<Rightarrow> int \<Rightarrow> int" where
  "expected_sum n iterations = sum_list (map (\<lambda>i. kernel (int i) iterations) [0..<n]) AND MASK"

definition boundary :: "bool \<Rightarrow> nat \<Rightarrow> int \<Rightarrow> int option" where
  "boundary batch n iterations =
     checked (expected_sum n iterations)
       (if batch then uint (native_batch (word_of_nat n) (word_of_int iterations))
        else sum_list (map (\<lambda>i. uint (native_kernel (word_of_nat i) (word_of_int iterations))) [0..<n]) AND MASK)"

definition callbacks :: "nat \<Rightarrow> int \<Rightarrow> nat \<Rightarrow> int option" where
  "callbacks n iterations workers =
     checked (expected_sum n iterations)
       (uint (native_callbacks (\<lambda>i. word_of_int (kernel (uint i) iterations)) (word_of_nat n) (word_of_nat workers)))"

section \<open>Machine words compute the unbounded kernel\<close>

lemma and_MASK: "x AND MASK = x mod 2 ^ 64"
proof -
  have "MASK = mask 64" by (simp add: MASK_def mask_eq_exp_minus_1 push_bit_eq_mult)
  then show ?thesis by (metis take_bit_eq_mask take_bit_eq_mod)
qed

lemma kernel_step_word:
  fixes w :: "64 word"
  shows "((uint w XOR drop_bit 7 (uint w)) * 6364136223846793005 + 1) AND MASK
    = uint ((w XOR drop_bit 7 w) * 6364136223846793005 + 1)"
proof -
  have "take_bit 64 (uint w) = uint w" using uint_bounded [of w] by (intro take_bit_int_eq_self) simp_all
  then have "uint (w XOR drop_bit 7 w) = uint w XOR drop_bit 7 (uint w)"
    by (simp add: unsigned_xor_eq unsigned_drop_bit_eq)
  then show ?thesis
    by (simp add: and_MASK uint_word_ariths mod_simps)
qed

lemma kernel_loop_word: "kernel_loop n (uint w) = uint (native_kernel_loop n w)"
  by (induction n arbitrary: w) (simp_all add: kernel_step_word)

lemma kernel_word:
  assumes "0 \<le> seed" "seed + 1 < 2 ^ 64"
  shows "kernel seed iterations = uint (native_kernel_loop (nat iterations) (word_of_int (seed + 1)))"
proof -
  have "uint (word_of_int (seed + 1) :: 64 word) = seed + 1"
    using assms by (simp only: uint_word_of_int) (simp add: mod_pos_pos_trivial)
  then show ?thesis by (metis kernel_def kernel_loop_word)
qed

lemma native_kernel_eq:
  assumes "0 \<le> seed" "seed + 1 < 2 ^ 64" "0 \<le> iterations" "iterations < 2 ^ 64"
  shows "uint (native_kernel (word_of_int seed) (word_of_int iterations)) = kernel seed iterations"
proof -
  have "unat (word_of_int iterations :: 64 word) = nat iterations"
    using assms(3,4) by (simp add: unat_eq_nat_uint uint_word_of_int)
  then show ?thesis using assms(1,2) by (simp add: kernel_word native_kernel_def)
qed

section \<open>The kernel loses nothing\<close>

lemma xor_shift_zero:
  fixes z :: "64 word"
  assumes "z = drop_bit 7 z"
  shows "z = 0"
proof -
  have "unat z = unat (drop_bit 7 z)" using assms by (rule arg_cong)
  also have "\<dots> = drop_bit 7 (unat z)" by (simp only: unat_drop_bit_eq)
  finally have "unat z = unat z div 128" by (simp add: drop_bit_eq_div)
  then have "unat z = 0" by linarith
  then show ?thesis by (rule iffD1 [OF unat_eq_zero])
qed

lemma cancel_unit:
  fixes a b c d :: "64 word"
  assumes "a * c = b * c" "c * d = 1"
  shows "a = b"
proof -
  have "a * (c * d) = b * (c * d)" using assms(1) by (simp only: mult.assoc [symmetric])
  then show ?thesis by (simp only: assms(2) mult_1_right)
qed

lemma xor_swap:
  fixes a b c d :: "64 word"
  assumes "a XOR b = c XOR d"
  shows "a XOR c = b XOR d"
proof (rule bit_word_eqI)
  fix n
  have "bit (a XOR b) n = bit (c XOR d) n" by (simp only: assms)
  then show "bit (a XOR c) n = bit (b XOR d) n" by (auto simp only: bit_xor_iff)
qed

lemma xor_zeroD: "a = b" if "a XOR b = 0" for a b :: "64 word"
proof (rule bit_word_eqI)
  fix n
  have "bit (a XOR b) n = bit (0 :: 64 word) n" by (simp only: that)
  then show "bit a n = bit b n" by (auto simp only: bit_xor_iff bit_0_eq bot_apply bot_bool_def)
qed

definition native_step :: "64 word \<Rightarrow> 64 word" where
  "native_step x = (x XOR drop_bit 7 x) * 6364136223846793005 + 1"

lemma native_step_inj: "inj native_step"
proof (rule injI)
  fix x y :: "64 word"
  assume "native_step x = native_step y"
  then have "(x XOR drop_bit 7 x) * 6364136223846793005 = (y XOR drop_bit 7 y) * 6364136223846793005"
    by (simp only: native_step_def add_right_cancel)
  then have "x XOR drop_bit 7 x = y XOR drop_bit 7 y" by (rule cancel_unit [where d = 13877824140714322085]) simp
  then have "x XOR y = drop_bit 7 (x XOR y)" unfolding drop_bit_xor by (rule xor_swap)
  then have "x XOR y = 0" by (rule xor_shift_zero)
  then show "x = y" by (rule xor_zeroD)
qed

lemma native_loop_inj: "inj (native_kernel_loop n)"
proof (induction n)
  case (Suc n)
  have "native_kernel_loop (Suc n) = native_kernel_loop n \<circ> native_step" by (simp add: fun_eq_iff native_step_def)
  with inj_compose [OF Suc native_step_inj] show ?case by (simp only:)
qed (simp add: inj_def)

section \<open>Sums\<close>

lemma foldl_add: "foldl (\<lambda>s i. s + f i) a xs = (a::'a::monoid_add) + sum_list (map f xs)"
  by (induction xs arbitrary: a) (simp_all add: add.assoc)

lemma word_of_sum: "word_of_int (sum_list (map f xs)) = sum_list (map (\<lambda>i. word_of_int (f i)) xs)"
  by (induction xs) simp_all

lemma and_MASK_word: "x AND MASK = uint (word_of_int x :: 64 word)"
  by (simp add: and_MASK uint_word_of_int)

lemma kernel_native:
  assumes "int i + 1 < 2 ^ 64" "0 \<le> iterations" "iterations < 2 ^ 64"
  shows "word_of_int (kernel (int i) iterations) = native_kernel (word_of_nat i) (word_of_int iterations)"
proof -
  have "uint (native_kernel (word_of_nat i) (word_of_int iterations)) = kernel (int i) iterations"
    using native_kernel_eq [of "int i" iterations] assms by simp
  then show ?thesis by (metis word_of_int_uint)
qed

lemma set_step_by: "worker < workers \<Longrightarrow> set (step_by worker n workers) = {i \<in> {..<n}. i mod workers = worker}"
proof (rule set_eqI)
  fix i
  assume w: "worker < workers"
  have "i \<in> set (step_by worker n workers) \<longleftrightarrow> worker \<le> i \<and> i < n \<and> workers dvd i - worker"
    by (auto simp: step_by_def)
  also have "\<dots> \<longleftrightarrow> i < n \<and> i mod workers = worker"
    using w by (metis mod_eq_dvd_iff_nat mod_less mod_less_eq_dividend)
  finally show "i \<in> set (step_by worker n workers) \<longleftrightarrow> i \<in> {i \<in> {..<n}. i mod workers = worker}" by simp
qed

lemma sum_by_workers:
  fixes f :: "nat \<Rightarrow> 'a::comm_monoid_add"
  assumes "0 < workers"
  shows "sum_list (map (\<lambda>worker. sum_list (map f (step_by worker n workers))) [0..<workers]) = sum_list (map f [0..<n])"
proof -
  have "sum_list (map f (step_by worker n workers)) = sum f {i \<in> {..<n}. i mod workers = worker}"
    if "worker < workers" for worker
    using set_step_by [OF that, of n] by (simp add: sum_list_distinct_conv_sum_set step_by_def)
  then have "sum_list (map (\<lambda>worker. sum_list (map f (step_by worker n workers))) [0..<workers])
      = (\<Sum>worker<workers. sum f {i \<in> {..<n}. i mod workers = worker})"
    by (simp add: interv_sum_list_conv_sum_set_nat atLeast0LessThan)
  also have "\<dots> = sum f {..<n}" by (rule sum.group) (use assms in auto)
  finally show ?thesis by (simp add: interv_sum_list_conv_sum_set_nat atLeast0LessThan)
qed

section \<open>Properties\<close>

text \<open>C40. The checks of the boundary and callback cases hold: calling the native kernel once per item, in one batch, or
  back into Python from any positive number of worker threads, the checksum is that of the unbounded Python
  kernel, for every count and (in the boundary cases) number of iterations that a 64-bit argument can hold.\<close>

theorem native_checks_pass:
  assumes "n < 2 ^ 64" "0 \<le> iterations" "iterations < 2 ^ 64" "0 < workers" "workers < 2 ^ 64"
  shows "boundary batch n iterations = Some (expected_sum n iterations)
    \<and> callbacks n iterations workers = Some (expected_sum n iterations)"
proof -
  let ?s = "sum_list (map (\<lambda>i. word_of_int (kernel (int i) iterations)) [0..<n]) :: 64 word"
  have e: "expected_sum n iterations = uint ?s"
    by (simp only: expected_sum_def and_MASK_word word_of_sum)
  have k: "native_kernel (word_of_nat i) (word_of_int iterations) = word_of_int (kernel (int i) iterations)" if "i < n" for i
    using kernel_native [of i iterations] assms that by simp
  have m: "map (\<lambda>i. native_kernel (word_of_nat i) (word_of_int iterations)) [0..<n]
      = map (\<lambda>i. word_of_int (kernel (int i) iterations)) [0..<n]" using k by simp
  have b: "native_batch (word_of_nat n) (word_of_int iterations) = ?s"
    using assms(1) by (simp add: native_batch_def foldl_add unat_of_nat m)
  have c: "sum_list (map (\<lambda>i. uint (native_kernel (word_of_nat i) (word_of_int iterations))) [0..<n]) AND MASK = uint ?s"
    by (simp only: and_MASK_word word_of_sum word_of_int_uint m)
  have "boundary batch n iterations = Some (expected_sum n iterations)"
    by (simp add: boundary_def checked_def e b c)
  moreover have "native_callbacks (\<lambda>i. word_of_int (kernel (uint i) iterations)) (word_of_nat n) (word_of_nat workers)
      = sum_list (map (\<lambda>i. word_of_int (kernel (uint (word_of_nat i :: 64 word)) iterations)) [0..<n])"
    using assms(1,4,5) by (simp add: native_callbacks_def foldl_add unat_of_nat sum_by_workers [where f = "\<lambda>i. word_of_int (kernel (uint (word_of_nat i :: 64 word)) iterations)"])
  moreover have "\<dots> = ?s"
    using assms(1) by (intro arg_cong [where f = sum_list] map_cong) (simp_all add: uint_nat unat_of_nat)
  ultimately show ?thesis by (simp add: callbacks_def checked_def e)
qed

theorem native_checks_pass_witness:
  "boundary True 3 2 = Some (expected_sum 3 2) \<and> callbacks 3 2 2 = Some (expected_sum 3 2)"
  using native_checks_pass [of 3 2 2 True] by simp

text \<open>The kernel loses nothing: different seeds never give the same checksum, whatever the number of iterations,
  and every checksum is a 64-bit value, so a benchmark that compares checksums item by item detects any
  item computed from the wrong seed.\<close>

theorem kernel_injective:
  assumes "0 \<le> s" "s + 1 < 2 ^ 64" "0 \<le> t" "t + 1 < 2 ^ 64"
  shows "0 \<le> kernel s iterations \<and> kernel s iterations < 2 ^ 64
    \<and> (kernel s iterations = kernel t iterations \<longleftrightarrow> s = t)"
proof -
  have "kernel s iterations = kernel t iterations \<longleftrightarrow> (word_of_int (s + 1) :: 64 word) = word_of_int (t + 1)"
    using native_loop_inj [of "nat iterations"] assms by (simp add: kernel_word inj_eq)
  also have "\<dots> \<longleftrightarrow> s = t"
    using assms uint_word_of_int [of "s + 1", where 'a = 64] uint_word_of_int [of "t + 1", where 'a = 64]
    by (auto simp: word_uint_eq_iff)
  finally show ?thesis
    using assms(1,2) uint_bounded [of "native_kernel_loop (nat iterations) (word_of_int (s + 1))"] by (simp add: kernel_word)
qed

theorem kernel_injective_witness: "kernel 0 3 \<noteq> kernel 7 3"
  using kernel_injective [of 0 7 3] by simp

section \<open>Latency quantiles\<close>

text \<open>\<open>quantiles\<close>, on exact numbers; \<open>int ((len - 1) * p / 100)\<close> is the integer quotient as long as the number of
  samples is below 2 ^ 45, where the quotient of doubles rounds to the right side.\<close>

definition quantile :: "nat \<Rightarrow> rat list \<Rightarrow> rat" where
  "quantile p ordered = ordered ! min (length ordered - 1) ((length ordered - 1) * p div 100) * 1000"

definition quantiles :: "rat list \<Rightarrow> (nat \<times> rat) list" where
  "quantiles samples =
     (let ordered = sort samples
      in if ordered = [] then [] else map (\<lambda>p. (p, quantile p ordered)) [50, 95, 99])"

lemma quantile_sample:
  assumes "samples \<noteq> []" "p \<le> 100"
  defines "k \<equiv> (length samples - 1) * p div 100"
  shows "k < length samples" "quantile p (sort samples) = sort samples ! k * 1000"
proof -
  have "(length samples - 1) * p div 100 \<le> (length samples - 1) * 100 div 100"
    using assms(2) by (intro div_le_mono mult_le_mono) simp_all
  then have k: "k \<le> length samples - 1" by (simp add: k_def)
  with assms(1) show "k < length samples" by (cases samples) simp_all
  have "quantile p (sort samples) = sort samples ! min (length samples - 1) k * 1000"
    by (simp only: quantile_def k_def length_sort)
  with k show "quantile p (sort samples) = sort samples ! k * 1000" by (simp only: min_absorb2)
qed

lemma below_order_statistic:
  assumes "k < length xs"
  shows "Suc k \<le> length (filter (\<lambda>x. x \<le> sort xs ! k) xs)" "length xs - k \<le> length (filter (\<lambda>x. sort xs ! k \<le> x) xs)"
proof -
  let ?s = "sort xs"
  have "length (filter P xs) = length (filter P ?s)" for P
    by (simp add: filter_sort)
  moreover have "filter (\<lambda>x. x \<le> ?s ! k) (take (Suc k) ?s) = take (Suc k) ?s" "filter (\<lambda>x. ?s ! k \<le> x) (drop k ?s) = drop k ?s"
    using assms by (auto simp: filter_id_conv in_set_conv_nth intro!: sorted_nth_mono)
  then have "Suc k \<le> length (filter (\<lambda>x. x \<le> ?s ! k) (take (Suc k) ?s @ drop (Suc k) ?s))"
    "length xs - k \<le> length (filter (\<lambda>x. ?s ! k \<le> x) (take k ?s @ drop k ?s))"
    using assms by (simp_all only: filter_append length_append) simp_all
  ultimately show "Suc k \<le> length (filter (\<lambda>x. x \<le> ?s ! k) xs)" "length xs - k \<le> length (filter (\<lambda>x. ?s ! k \<le> x) xs)"
    by simp_all
qed

text \<open>The quantiles are order statistics: each is one of the samples (in milliseconds), the requested share of the
  samples (less one) lies at or below it and the rest at or above it, and they never decrease.\<close>

theorem quantiles_are_order_statistics:
  assumes "samples \<noteq> []"
  shows "map fst (quantiles samples) = [50, 95, 99] \<and> sorted (map snd (quantiles samples))
    \<and> (\<forall>(p, q)\<in>set (quantiles samples). \<exists>x\<in>set samples. q = x * 1000
         \<and> p * (length samples - 1) < 100 * length (filter (\<lambda>y. y \<le> x) samples)
         \<and> (100 - p) * (length samples - 1) < 100 * length (filter (\<lambda>y. x \<le> y) samples))"
proof -
  let ?s = "sort samples" and ?k = "\<lambda>p. (length samples - 1) * p div 100"
  have ne: "?s \<noteq> []" using assms by (metis length_0_conv length_sort)
  have q: "quantiles samples = map (\<lambda>p. (p, ?s ! ?k p * 1000)) [50, 95, 99]"
    using quantile_sample(2) [OF assms] ne by (simp add: quantiles_def Let_def)
  have le: "?s ! ?k p \<le> ?s ! ?k p'" if "p \<le> p'" "p' \<le> 100" for p p'
    by (rule sorted_nth_mono) (use quantile_sample(1) [OF assms that(2)] that(1) in \<open>simp_all add: div_le_mono\<close>)
  have "\<exists>x\<in>set samples. ?s ! ?k p * 1000 = x * 1000 \<and> p * (length samples - 1) < 100 * length (filter (\<lambda>y. y \<le> x) samples)
      \<and> (100 - p) * (length samples - 1) < 100 * length (filter (\<lambda>y. x \<le> y) samples)" if p: "p \<le> 100" for p
  proof (intro bexI conjI)
    note k = quantile_sample(1) [OF assms p]
    from k show "?s ! ?k p \<in> set samples" by (metis length_sort nth_mem set_sort)
    have d: "(length samples - 1) * p < 100 * Suc (?k p)" "100 * ?k p \<le> (length samples - 1) * p" by simp_all
    from d(1) below_order_statistic(1) [OF k] show "p * (length samples - 1) < 100 * length (filter (\<lambda>y. y \<le> ?s ! ?k p) samples)"
      by (simp add: mult.commute)
    have "(100 - p) * (length samples - 1) = 100 * (length samples - 1) - (length samples - 1) * p"
      by (simp only: diff_mult_distrib mult.commute [of p])
    also have "\<dots> \<le> 100 * (length samples - 1) - 100 * ?k p" using d(2) by (rule diff_le_mono2)
    also have "\<dots> < 100 * (length samples - ?k p)" using k by simp
    also have "\<dots> \<le> 100 * length (filter (\<lambda>y. ?s ! ?k p \<le> y) samples)" using below_order_statistic(2) [OF k] by simp
    finally show "(100 - p) * (length samples - 1) < 100 * length (filter (\<lambda>y. ?s ! ?k p \<le> y) samples)" .
  qed simp
  from this [of 50] this [of 95] this [of 99] le [of 50 95] le [of 50 99] le [of 95 99] show ?thesis
    unfolding q by (simp only: list.map fst_conv snd_conv list.set sorted_wrt.simps) auto
qed

theorem quantiles_are_order_statistics_witness: "map fst (quantiles [3, 1, 2]) = [50, 95, 99]"
  using quantiles_are_order_statistics [of "[3, 1, 2]"] by blast

end
