(* ===== verification/Bench_Replay.thy ===== *)
theory Bench_Replay
  imports Replay_Candidates Tunnel_Props
begin

text \<open>
  The replay and broadcast measurements of \<open>docs/performance-implementation/compare.py\<close> and
  \<open>docs/performance-strategy/bench.py\<close>, run on the models of the tunnels they measure: the values they
  assert are the values those tunnels deliver. Clocks and counters are left out.
\<close>

section \<open>The measurements\<close>

text \<open>\<open>for value in range(count): tunnel.put(value)\<close>.\<close>

fun put_all :: "(loop_ref \<Rightarrow> bool) \<Rightarrow> 'a list \<Rightarrow> ('a, 'e) tunnel \<Rightarrow> 'e exc + ('a, 'e) tunnel" where
  "put_all lc [] t = Inr t"
| "put_all lc (x # xs) t = (case put lc x t of Inl e \<Rightarrow> Inl e | Inr r \<Rightarrow> put_all lc xs (fst r))"

text \<open>\<open>[value async for value in tunnel]\<close> in one task of loop \<open>l\<close>, while no producer acts: \<open>None\<close> when it
  would wait. \<open>f\<close> is the future of the next wait.\<close>

function anext_all :: "loop_ref \<Rightarrow> future_ref \<Rightarrow> ('a, 'e) tunnel \<Rightarrow> subscription \<Rightarrow> ('e exc + 'a list) option" where
  "anext_all l f t s =
     (case anext_enter l f t s of
        (Item x, t', s') \<Rightarrow> map_option (map_sum id ((#) x)) (anext_all l f t' s')
      | (Raises StopAsyncIteration, t', s') \<Rightarrow> Some (Inr [])
      | (Raises e, t', s') \<Rightarrow> Some (Inl e)
      | (Must_wait, t', s') \<Rightarrow> None)"
  by pat_completeness auto
termination
  by (relation "measure (\<lambda>(l, f, t, s). nat (int (length (tun_items t)) + tun_base_sequence t - sub_cursor s))")
     (auto simp: anext_enter_def read_pass_def Let_def split: if_splits option.splits prod.splits pass.splits)

declare anext_all.simps [simp del]

datatype ('a, 'e) check =
    Passed "'a list" | Assertion_failed | Crashed "'e exc" | Store_failed store_error | Waits

definition check_values :: "'a list \<Rightarrow> ('e exc + 'a list) option \<Rightarrow> ('a, 'e) check" where
  "check_values expected values_read =
     (case values_read of
        None \<Rightarrow> Waits
      | Some (Inl e) \<Rightarrow> Crashed e
      | Some (Inr vs) \<Rightarrow> (if vs = expected then Passed vs else Assertion_failed))"

text \<open>\<open>measure\<close> of \<open>compare.py\<close> for the kind \<open>replay\<close>; \<open>limit or count\<close> is the count when the limit is
  absent or zero.\<close>

definition py_range :: "int \<Rightarrow> int \<Rightarrow> int list" where
  "py_range a b = [a..b - 1]"

definition measure_replay :: "clock \<Rightarrow> bool \<Rightarrow> bool \<Rightarrow> nat \<Rightarrow> int option \<Rightarrow> (int, 'e) check" where
  "measure_replay wait_interval grouped async count limit =
     (case tunnel_init wait_interval None False limit (if grouped then ''grouped'' else ''individual'') of
        Inl e \<Rightarrow> Crashed e
      | Inr t \<Rightarrow>
          (case put_all (\<lambda>_. False) (py_range 0 (int count)) t of
             Inl e \<Rightarrow> Crashed e
           | Inr t1 \<Rightarrow>
               (let t2 = fst (tunnel_close (\<lambda>_. False) t1);
                    limit_or_count = (if limit = None \<or> limit = Some 0 then int count else the limit);
                    expected = py_range (max 0 (int count - limit_or_count)) (int count)
                in case tunnel_iter t2 of
                     Inl e \<Rightarrow> Crashed e
                   | Inr s \<Rightarrow> check_values expected (if async then anext_all 0 0 t2 s else read_all t2 s))))"

text \<open>\<open>replay\<close> of \<open>bench.py\<close>, on the stores of \<open>candidates.py\<close>.\<close>

definition bench_replay :: "clock \<Rightarrow> string \<Rightarrow> nat \<Rightarrow> (int, 'e) check" where
  "bench_replay wait_interval storage n =
     (case replay_tunnel_init storage wait_interval None False None ''individual'' of
        Inl e \<Rightarrow> Crashed e
      | Inr (t, it) \<Rightarrow>
          (case replay_retain_all None (py_range 0 (int n)) (it, tun_base_sequence t, tun_next_sequence t) of
             Inl e \<Rightarrow> Store_failed e
           | Inr (it', _) \<Rightarrow>
               (case replay_read it' of
                  Inl e \<Rightarrow> Store_failed e
                | Inr vs \<Rightarrow> (if vs = map Some (py_range 0 (int n)) then Passed (py_range 0 (int n)) else Assertion_failed))))"

section \<open>What a tunnel retains of one batch\<close>

definition newest :: "int option \<Rightarrow> 'a list \<Rightarrow> 'a list" where
  "newest mh xs = (case mh of None \<Rightarrow> xs | Some m \<Rightarrow> drop (length xs - nat m) xs)"

lemma newest_append: "newest mh (newest mh xs @ ys) = newest mh (xs @ ys)"
proof (cases mh)
  case (Some m)
  then show ?thesis by (cases "length xs \<le> nat m") (simp_all add: newest_def add.commute)
qed (simp add: newest_def)

lemma append_item_newest:
  assumes "newest (tun_max_history t) (tun_items t) = tun_items t" "\<forall>m. tun_max_history t = Some m \<longrightarrow> 0 < m"
  shows "tun_items (append_item x t) = newest (tun_max_history t) (tun_items t @ [x])"
proof (cases "tun_max_history t")
  case (Some m)
  then have "length (drop (length (tun_items t) - nat m) (tun_items t)) = length (tun_items t)"
    using assms(1) by (simp only: newest_def option.case)
  then have "length (tun_items t) \<le> nat m" using Some assms(2) by auto
  moreover have "length (tun_items t @ [x]) - nat m = 1" if "int (Suc (length (tun_items t))) > m"
    using that calculation Some assms(2) by simp
  ultimately show ?thesis
    using Some assms(2) by (cases "tun_items t") (auto simp: append_item_def newest_def Let_def drop_Suc)
qed (simp add: append_item_def newest_def)

lemma append_item_unbounded: "tun_max_history t = None \<Longrightarrow> tun_items (append_item x t) = tun_items t @ [x]"
  by (simp add: append_item_def)

lemma put_all_newest:
  assumes "\<not> tun_terminal t" "newest (tun_max_history t) (tun_items t) = tun_items t"
    "\<forall>m. tun_max_history t = Some m \<longrightarrow> 0 < m"
  shows "\<exists>t'. put_all lc xs t = Inr t' \<and> tun_items t' = newest (tun_max_history t) (tun_items t @ xs)
     \<and> \<not> tun_terminal t' \<and> tun_timeout t' = tun_timeout t"
  using assms
proof (induction xs arbitrary: t)
  case (Cons x xs)
  let ?t = "fst (wake_waiters_locked lc (append_item x t))"
  have p: "put lc x t = Inr (wake_waiters_locked lc (append_item x t))" using Cons.prems(1) by (simp add: put_Inr_iff)
  have i: "tun_items ?t = newest (tun_max_history t) (tun_items t @ [x])"
    using append_item_newest [OF Cons.prems(2,3)] by simp
  have "newest (tun_max_history ?t) (tun_items ?t) = tun_items ?t"
    using newest_append [of "tun_max_history t" "tun_items t @ [x]" "[]"] by (simp add: i [simplified])
  moreover have "tun_timeout ?t = tun_timeout t" by (auto simp: append_item_def Let_def split: option.split)
  ultimately show ?case
    using Cons.IH [of ?t] Cons.prems newest_append [of "tun_max_history t" "tun_items t @ [x]" xs]
    by (simp add: p i [simplified] tun_terminal_def)
qed simp

lemma anext_all_closed:
  assumes "tun_closed t" "tun_failure t = None" "tun_base_sequence t \<le> sub_cursor s" "\<not> sub_terminated s"
  shows "anext_all l f t s = Some (Inr (drop (nat (sub_cursor s - tun_base_sequence t)) (tun_items t)))"
  using assms
proof (induction l f t s rule: anext_all.induct)
  case (1 l f t s)
  show ?case
  proof (cases "sub_cursor s - tun_base_sequence t < int (length (tun_items t))")
    case True
    let ?k = "nat (sub_cursor s - tun_base_sequence t)"
    have rp: "anext_enter l f t s = (Item (tun_items t ! ?k), t, s\<lparr>sub_cursor := sub_cursor s + 1\<rparr>)"
      using True "1.prems" by (simp add: anext_enter_def read_pass_def)
    have d: "drop ?k (tun_items t) = tun_items t ! ?k # drop (nat (sub_cursor s + 1 - tun_base_sequence t)) (tun_items t)"
      using True "1.prems" Cons_nth_drop_Suc [of ?k "tun_items t"]
      by (simp add: Suc_nat_eq_nat_zadd1 algebra_simps)
    show ?thesis
      using "1.IH" [OF rp [symmetric] refl refl] "1.prems" by (subst anext_all.simps) (simp add: rp d)
  next
    case False
    then show ?thesis using "1.prems" by (subst anext_all.simps) (simp add: anext_enter_def read_pass_def Let_def)
  qed
qed

lemma drop_py_range: "drop k (py_range 0 (int n)) = py_range (int k) (int n)"
  by (rule nth_equalityI) (auto simp: py_range_def)

lemma length_py_range [simp]: "length (py_range 0 (int n)) = n"
  by (simp add: py_range_def)

section \<open>Properties\<close>

text \<open>C37. The replay measurements measure what they claim: whatever the wake mode and the call shape (synchronous or
  asynchronous), a tunnel filled with \<open>count\<close> values and closed replays exactly the newest \<open>limit\<close> of them
  (all of them without a limit), so the assertion of the measurement holds; only a limit that is not
  positive ends it, with the \<open>ValueError\<close> of the constructor.\<close>

theorem measured_replay_is_exact:
  "(measure_replay wait_interval grouped async count limit :: (int, 'e) check) =
     (case limit of
        None \<Rightarrow> Passed (py_range 0 (int count))
      | Some m \<Rightarrow> (if m \<le> 0 then Crashed ValueError else Passed (py_range (max 0 (int count - m)) (int count))))"
proof (cases "limit \<noteq> None \<and> the limit \<le> 0")
  case True
  then show ?thesis by (auto simp: measure_replay_def tunnel_init_def)
next
  case False
  obtain t :: "(int, 'e) tunnel" where t: "tunnel_init wait_interval None False limit (if grouped then ''grouped'' else ''individual'') = Inr t"
    and f: "tun_items t = []" "tun_max_history t = limit" "\<not> tun_terminal t" "tun_timeout t = None" "tun_failure t = None"
    using False by (cases grouped; cases limit) (auto simp: tunnel_init_def tun_terminal_def)
  have "newest (tun_max_history t) (tun_items t) = tun_items t" "\<forall>m. tun_max_history t = Some m \<longrightarrow> 0 < m"
    using f False by (auto simp: newest_def split: option.splits)
  from put_all_newest [OF f(3) this, of "\<lambda>_. False" "py_range 0 (int count)"] f
  obtain t1 where t1: "put_all (\<lambda>_. False) (py_range 0 (int count)) t = Inr t1"
    "tun_items t1 = newest limit (py_range 0 (int count))" "\<not> tun_terminal t1" "tun_timeout t1 = None"
    by auto
  let ?t2 = "fst (tunnel_close (\<lambda>_. False) t1)"
  have t2: "tun_items ?t2 = tun_items t1" "tun_closed ?t2" "tun_failure ?t2 = None" "tun_timeout ?t2 = None"
    using t1(3,4) by (simp_all add: tunnel_close_def tun_terminal_def)
  then obtain s where s: "tunnel_iter ?t2 = Inr s" "sub_cursor s = tun_base_sequence ?t2" "\<not> sub_terminated s"
    by (simp add: tunnel_iter_def)
  have "newest limit (py_range 0 (int count)) = (case limit of None \<Rightarrow> py_range 0 (int count)
      | Some m \<Rightarrow> py_range (max 0 (int count - m)) (int count))"
  proof (cases limit)
    case (Some m)
    then have "int (count - nat m) = max 0 (int count - m)" using False by auto
    with Some show ?thesis by (simp add: newest_def drop_py_range)
  qed (simp add: newest_def)
  then show ?thesis
    using False t t1 read_all_items [of ?t2 s] anext_all_closed [of ?t2 s 0 0] s t2
    by (auto simp: measure_replay_def Let_def check_values_def split: option.split)
qed

text \<open>Every replay store of the performance study passes its replay measurement, for every number of items.\<close>

theorem bench_replay_passes:
  "(bench_replay wait_interval storage n :: (int, 'e) check) = Passed (py_range 0 (int n))"
proof -
  obtain t :: "(int, 'e) tunnel" and it where r: "replay_tunnel_init storage wait_interval None False None ''individual'' = Inr (t, it)"
    by (cases "storage = ''list''"; cases "storage = ''chunk''") (auto simp: replay_tunnel_init_def tunnel_init_def)
  let ?xs = "py_range 0 (int n)"
  have "tunnel_init wait_interval None False None ''individual'' = Inr t"
    using replay_tunnel_init_cases [OF r] by blast
  then have "tun_items t = []" "tun_max_history t = None" by (auto simp: tunnel_init_def)
  then have "tun_items (fold append_item xs t) = xs" for xs
  proof (induction xs rule: rev_induct)
    case (snoc x xs)
    have "tun_max_history (fold append_item xs t) = None"
      using \<open>tun_max_history t = None\<close> by (induction xs rule: rev_induct) simp_all
    with snoc show ?case by (simp add: append_item_unbounded)
  qed simp
  with replay_tunnel_retains_the_same [OF r, of ?xs] r show ?thesis
    by (auto simp: bench_replay_def split: sum.splits prod.splits)
qed

text \<open>The broadcast measurement: however the producer's puts and close interleave with one reader's reads, a
  reader that subscribed to the empty tunnel and whose iteration has come to its end has received every
  value the tunnel accepted, once and in order, when the tunnel keeps its whole history.\<close>

theorem broadcast_reader_receives_everything:
  assumes "tunnel_init wait_interval timeout tas None wake_mode = Inr t0" "subscribe Earliest a t0 = Inr s0"
    and "tunnel_run lc es t0 s0 = (t, s, received, accepted)"
    and "read_pass StopIteration t s = (Raises StopIteration, s')" "\<not> sub_terminated s"
  shows "received = accepted"
proof -
  have "log_view [] t0" using represents_log_view [OF represents_init [OF assms(1)]] by simp
  moreover have s0: "sub_cursor s0 = 0" using assms(1,2) by (auto simp: tunnel_init_def split: if_splits)
  ultimately have r: "log_view accepted t" "sub_cursor s = int (length received)"
    "received = take (length received) accepted"
    using tunnel_run_slice [OF _ assms(3), of "[]"] by auto
  have "int (length accepted) \<le> sub_cursor s"
    using assms(4,5) r(1,2)
    by (auto simp: read_pass_def tunnel_lag_error_def log_view_def Let_def split: if_splits option.splits)
  with r(2,3) show ?thesis by simp
qed

theorem broadcast_reader_receives_everything_witness:
  "\<exists>t s s'. tunnel_run (\<lambda>_. False) [Ev_put 7, Ev_read, Ev_put 8, Ev_close, Ev_read]
      (\<lparr>tun_items = [], tun_wake_mode = ''grouped'', tun_base_sequence = 0, tun_next_sequence = 0, tun_closed = False,
        tun_failure = None, tun_async_waiters = [], tun_timeout = None, tun_max_history = None, tun_wait_interval = 1,
        tun_timeout_after_start = False\<rparr> :: (nat, nat) tunnel)
      \<lparr>sub_timeout = None, sub_cursor = 0, sub_terminated = False\<rparr> = (t, s, [7, 8], [7, 8])
    \<and> read_pass StopIteration t s = (Raises StopIteration, s')"
proof -
  let ?t0 = "\<lparr>tun_items = [], tun_wake_mode = ''grouped'', tun_base_sequence = 0, tun_next_sequence = 0, tun_closed = False,
        tun_failure = None, tun_async_waiters = [], tun_timeout = None, tun_max_history = None, tun_wait_interval = 1,
        tun_timeout_after_start = False\<rparr> :: (nat, nat) tunnel"
  let ?s0 = "\<lparr>sub_timeout = None, sub_cursor = 0, sub_terminated = False\<rparr>"
  obtain t s ys where r: "tunnel_run (\<lambda>_. False) [Ev_put 7, Ev_read, Ev_put 8, Ev_close, Ev_read] ?t0 ?s0 = (t, s, ys, [7, 8])"
    and e: "\<not> sub_terminated s" "read_pass StopIteration t s = (Raises StopIteration, s\<lparr>sub_terminated := True\<rparr>)"
    by (simp add: run_eval read_pass_def tunnel_close_def)
  have "tunnel_init 1 None False None ''grouped'' = (Inr ?t0 :: nat exc + (nat, nat) tunnel)"
    "subscribe Earliest (Timeout_arg None) ?t0 = Inr ?s0"
    by (simp_all add: tunnel_init_def effective_timeout_def)
  from broadcast_reader_receives_everything [OF this r e(2,1)] r e show ?thesis by blast
qed

end
