(* ===== verification/Bench_Suite.thy ===== *)
theory Bench_Suite
  imports Complex_Main "HOL-Library.Multiset" "HOL-Library.List_Lexorder" "HOL-Library.Char_ord"
begin

text \<open>
  \<open>docs/performance-strategy/suite.py\<close>: the matrix of benchmark cases, their selection and their repeated,
  shuffled execution. What a case's process does, the shuffle and the digest of a case are arguments.
\<close>

section \<open>Cases\<close>

text \<open>A case is a dictionary whose keys depend on its group: a constructor per group, its fields in the order
  of the keyword arguments of \<open>add\<close>. Two cases are equal when their sorted JSON texts are.\<close>

datatype bench_case =
    C_dispatch (c_count: int) (c_delay: rat) (c_mode: string) (c_loop: "string option")
  | C_carrier (c_lanes: int) (c_scopes: int) (c_kind: string) (c_count: int)
  | C_compute (c_kind: string) (c_iterations: int) (c_count: int) (c_mode: string) (c_workers: int)
  | C_replay (c_count: int) (c_storage: string) (c_mode: string)
  | C_broadcast (c_count: int) (c_readers: int) (c_wake: string) (c_producer: string) (c_interval: rat)
  | C_mixed (c_mode: string)
  | C_boundary (c_language: string) (c_mode: string) (c_count: int) (c_iterations: int)
  | C_callbacks (c_workers: int) (c_iterations: int) (c_count: int)

fun case_group :: "bench_case \<Rightarrow> string" where
  "case_group (C_dispatch _ _ _ _) = ''dispatch''"
| "case_group (C_carrier _ _ _ _) = ''carrier''"
| "case_group (C_compute _ _ _ _ _) = ''compute''"
| "case_group (C_replay _ _ _) = ''replay''"
| "case_group (C_broadcast _ _ _ _ _) = ''broadcast''"
| "case_group (C_mixed _) = ''mixed''"
| "case_group (C_boundary _ _ _ _) = ''boundary''"
| "case_group (C_callbacks _ _ _) = ''callbacks''"

definition dispatch_cases :: "bench_case list" where
  "dispatch_cases =
     [C_dispatch 2000 delay mode None.
        delay \<leftarrow> [0, 1 / 1000], mode \<leftarrow> [''asyncio'', ''caller'', ''carrier_each'', ''carrier_batch'']]
     @ [C_dispatch 2000 0 mode (Some ''uvloop''). mode \<leftarrow> [''asyncio'', ''caller'']]"

definition carrier_cases :: "bench_case list" where
  "carrier_cases =
     [C_carrier lanes scopes kind 1000. lanes \<leftarrow> [1, 2, 4], scopes \<leftarrow> [1, 16], kind \<leftarrow> [''io'', ''cpu'']]"

definition compute_cases :: "bench_case list" where
  "compute_cases =
     [C_compute kind iterations items mode workers.
        (kind, iterations, items) \<leftarrow> [(''python'', 64, 256), (''python'', 100000, 32), (''hash'', 50000, 32)],
        mode \<leftarrow> [''thread'', ''stage'', ''process''], workers \<leftarrow> [1, 2, 4, 8]]"

definition replay_cases :: "bench_case list" where
  "replay_cases =
     [C_replay n storage mode.
        n \<leftarrow> [1000, 10000, 100000], storage \<leftarrow> [''deque'', ''list'', ''chunk''], mode \<leftarrow> [''sync'', ''async'']]"

definition broadcast_cases :: "bench_case list" where
  "broadcast_cases =
     [C_broadcast (if interval \<noteq> 0 then 300 else 1500) readers wake producer interval.
        readers \<leftarrow> [1, 8, 32], wake \<leftarrow> [''baseline'', ''grouped'', ''local''],
        producer \<leftarrow> [''loop'', ''thread''], interval \<leftarrow> [0, 1 / 1000]]"

definition native_cases :: "bench_case list" where
  "native_cases =
     concat (map (\<lambda>language.
       [C_boundary language mode 50000 1. mode \<leftarrow> [''each'', ''batch'']]
       @ [C_compute language 5000000 32 mode workers. mode \<leftarrow> [''thread'', ''stage''], workers \<leftarrow> [1, 4]])
       [''rust'', ''go''])"

definition suite_cases :: "bench_case list" where
  "suite_cases =
     dispatch_cases @ carrier_cases @ compute_cases @ replay_cases @ broadcast_cases
     @ [C_mixed mode. mode \<leftarrow> [''shared'', ''split'']] @ native_cases
     @ [C_callbacks workers 20000 64. workers \<leftarrow> [1, 4]]"

lemmas group_cases_def = dispatch_cases_def carrier_cases_def compute_cases_def replay_cases_def broadcast_cases_def
  native_cases_def

section \<open>Selection\<close>

text \<open>\<open>a.groups.split(",")\<close>.\<close>

fun split_commas :: "string \<Rightarrow> string list" where
  "split_commas [] = [[]]"
| "split_commas (c # cs) =
     (if c = CHR '','' then [] # split_commas cs
      else case split_commas cs of [] \<Rightarrow> [[c]] | w # ws \<Rightarrow> (c # w) # ws)"

text \<open>\<open>c.get("kind") in ("rust", "go") or c["group"] in ("boundary", "callbacks")\<close>.\<close>

fun case_kind :: "bench_case \<Rightarrow> string option" where
  "case_kind (C_carrier _ _ kind _) = Some kind"
| "case_kind (C_compute kind _ _ _ _) = Some kind"
| "case_kind _ = None"

definition is_native :: "bench_case \<Rightarrow> bool" where
  "is_native c \<longleftrightarrow> case_kind c \<in> {Some ''rust'', Some ''go''} \<or> case_group c \<in> {''boundary'', ''callbacks''}"

text \<open>\<open>first.setdefault(c["group"], c)\<close>, then the values in insertion order.\<close>

fun smoke :: "bench_case list \<Rightarrow> bench_case list \<Rightarrow> bench_case list" where
  "smoke first [] = first"
| "smoke first (c # cs) = smoke (if case_group c \<in> case_group ` set first then first else first @ [c]) cs"

definition select_cases :: "string \<Rightarrow> bool \<Rightarrow> bool \<Rightarrow> bench_case list" where
  "select_cases groups native_only smoke_only =
     (let selected = filter (\<lambda>c. groups = '''' \<or> case_group c \<in> set (split_commas groups)) suite_cases;
          selected = (if native_only then filter is_native selected else selected)
      in if smoke_only then smoke [] selected else selected)"

lemma suite_cases_distinct: "distinct suite_cases" "length suite_cases = 128"
  by (simp_all add: suite_cases_def group_cases_def)

section \<open>Running the study\<close>

text \<open>What a case's process does: it exits with a code and a result (\<open>None\<close>: its output is not JSON), or runs
  into the time limit. A result says whether the case checked its values and maps metrics to numbers.\<close>

record bench_result =
  br_correct :: bool
  br_metrics :: "(string \<times> rat) list"

datatype run_outcome = Exited int "bench_result option" | Timed_out

record row =
  row_id :: string
  row_repeat :: nat
  row_case :: bench_case
  row_result :: "bench_result option"

text \<open>The \<open>status\<close> of a record is \<open>valid\<close> when it has a result, else \<open>failed\<close>.\<close>

fun run_case :: "(bench_case \<Rightarrow> string) \<Rightarrow> (bench_case \<Rightarrow> nat \<Rightarrow> run_outcome) \<Rightarrow> nat \<Rightarrow> bench_case \<Rightarrow> row" where
  "run_case digest outcome repeat c =
     \<lparr>row_id = case_group c @ ''-'' @ digest c, row_repeat = repeat, row_case = c,
      row_result = (case outcome c repeat of
         Timed_out \<Rightarrow> None
       | Exited code result \<Rightarrow> (if code \<noteq> 0 then None else result))\<rparr>"

definition suite_run ::
  "(nat \<Rightarrow> bench_case list \<Rightarrow> bench_case list) \<Rightarrow> (bench_case \<Rightarrow> string) \<Rightarrow> (bench_case \<Rightarrow> nat \<Rightarrow> run_outcome)
   \<Rightarrow> nat \<Rightarrow> bench_case list \<Rightarrow> row list \<times> nat" where
  "suite_run shuffle digest outcome repeats selected =
     (let rows = concat (map (\<lambda>repeat. map (run_case digest outcome repeat) (shuffle repeat selected)) [0..<repeats])
      in (rows, length (filter (\<lambda>r. row_result r = None) rows)))"

end
