(* ===== verification/Bench_Analysis.thy ===== *)
theory Bench_Analysis
  imports Bench_Suite
begin

text \<open>
  \<open>docs/performance-strategy/analyze.py\<close>: the summary of the recorded runs of \<open>suite.py\<close> and the paired
  comparisons of its configurations. Measured numbers are exact rationals.
\<close>

section \<open>Summaries\<close>

datatype analysis_error = Assertion_error | Metric_missing string | Zero_division_error | Statistics_error

definition METRICS :: "string list" where
  "METRICS = [''wall_s'', ''throughput'', ''cpu_s'', ''cpu_per_op_us'', ''average_cores'', ''rss_endpoint_bytes'',
     ''p50_ms'', ''p95_ms'', ''p99_ms'', ''notifications'', ''resolutions'', ''fill_s'', ''pool_setup_s'', ''loops_observed'',
     ''subprocess_wall_s'']"

text \<open>\<open>statistics.median\<close>.\<close>

definition median :: "rat list \<Rightarrow> analysis_error + rat" where
  "median xs =
     (let s = sort xs; n = length xs
      in if n = 0 then Inl Statistics_error
         else if odd n then Inr (s ! (n div 2)) else Inr ((s ! (n div 2 - 1) + s ! (n div 2)) / 2))"

record spread =
  sp_median :: rat
  sp_min :: rat
  sp_max :: rat

record config =
  cf_id :: string
  cf_case :: bench_case
  cf_repeats :: nat
  cf_metrics :: "(string \<times> spread) list"
  cf_runs :: "(nat \<times> (string \<times> rat) list) list"

record summary =
  sm_complete :: bool
  sm_failures :: "(bench_case \<times> nat) list"
  sm_configs :: "config list"

definition row_metrics :: "row \<Rightarrow> (string \<times> rat) list" where
  "row_metrics r = (case row_result r of None \<Rightarrow> [] | Some x \<Rightarrow> br_metrics x)"

definition metric_values :: "row list \<Rightarrow> string \<Rightarrow> rat list" where
  "metric_values rows name = List.map_filter (\<lambda>r. map_of (row_metrics r) name) rows"

definition metric_spread :: "row list \<Rightarrow> string \<Rightarrow> (string \<times> spread) option" where
  "metric_spread rows name =
     (case median (metric_values rows name) of
        Inl _ \<Rightarrow> None
      | Inr m \<Rightarrow> Some (name, \<lparr>sp_median = m, sp_min = Min (set (metric_values rows name)),
          sp_max = Max (set (metric_values rows name))\<rparr>))"

definition summarize_config :: "string \<Rightarrow> row list \<Rightarrow> analysis_error + config" where
  "summarize_config identifier rows =
     (if card (set (map row_repeat rows)) \<noteq> length rows then Inl Assertion_error
      else Inr \<lparr>cf_id = identifier, cf_case = row_case (hd rows), cf_repeats = length rows,
        cf_metrics = List.map_filter (metric_spread rows) METRICS,
        cf_runs = map (\<lambda>r. (row_repeat r, List.map_filter (\<lambda>name. map_option (Pair name) (map_of (row_metrics r) name)) METRICS))
          rows\<rparr>)"

fun collect :: "('a \<Rightarrow> 'e + 'b) \<Rightarrow> 'a list \<Rightarrow> 'e + 'b list" where
  "collect f [] = Inr []"
| "collect f (x # xs) =
     (case f x of Inl e \<Rightarrow> Inl e | Inr y \<Rightarrow> (case collect f xs of Inl e \<Rightarrow> Inl e | Inr ys \<Rightarrow> Inr (y # ys)))"

text \<open>The rows are those of the files, in the order of their names; \<open>expected\<close> and \<open>repetitions\<close> are the
  manifest's.\<close>

definition summarize :: "row list \<Rightarrow> bench_case list \<Rightarrow> nat \<Rightarrow> analysis_error + summary" where
  "summarize rows expected repetitions =
     (let valid = filter (\<lambda>r. row_result r \<noteq> None) rows;
          group = (\<lambda>i. filter (\<lambda>r. row_id r = i) valid);
          ids = sort (remdups (map row_id valid))
      in if \<exists>r\<in>set valid. \<not> br_correct (the (row_result r)) then Inl Assertion_error
         else case collect (\<lambda>i. summarize_config i (group i)) ids of
                Inl e \<Rightarrow> Inl e
              | Inr configs \<Rightarrow>
                  Inr \<lparr>sm_complete = (length ids = length expected \<and> (\<forall>i\<in>set ids. length (group i) = repetitions)),
                    sm_failures = map (\<lambda>r. (row_case r, row_repeat r)) (filter (\<lambda>r. row_result r = None) rows),
                    sm_configs = configs\<rparr>)"

section \<open>Paired comparisons\<close>

text \<open>The case a case is compared with, the metric, and the change it measures; \<open>None\<close> leaves it out.\<close>

fun baseline_of :: "bench_case \<Rightarrow> (bench_case \<times> string \<times> string) option" where
  "baseline_of (C_dispatch n delay mode loop) =
     (if loop \<noteq> None then Some (C_dispatch n delay mode None, ''wall_s'', ''uvloop'')
      else if mode = ''carrier_batch'' then Some (C_dispatch n delay ''carrier_each'' loop, ''wall_s'', ''batch'')
      else if mode = ''caller'' then Some (C_dispatch n delay ''asyncio'' loop, ''wall_s'', ''lifecycle-overhead'')
      else None)"
| "baseline_of (C_carrier lanes scopes kind n) =
     (if lanes \<noteq> 1 then Some (C_carrier 1 scopes kind n, ''wall_s'', ''lanes'') else None)"
| "baseline_of (C_compute kind iterations n mode workers) =
     (if workers \<noteq> 1 then Some (C_compute kind iterations n mode 1, ''wall_s'', ''workers'')
      else if mode = ''stage'' then Some (C_compute kind iterations n ''thread'' workers, ''wall_s'', ''stage-overhead'')
      else if mode = ''process'' then Some (C_compute kind iterations n ''thread'' workers, ''wall_s'', ''process'')
      else None)"
| "baseline_of (C_replay n storage mode) =
     (if storage \<noteq> ''deque'' then Some (C_replay n ''deque'' mode, ''wall_s'', ''storage'') else None)"
| "baseline_of (C_broadcast n readers wake producer interval) =
     (if wake \<noteq> ''baseline''
      then Some (C_broadcast n readers ''baseline'' producer interval, if interval \<noteq> 0 then ''p99_ms'' else ''wall_s'', ''wake'')
      else None)"
| "baseline_of (C_mixed mode) =
     (if mode = ''split'' then Some (C_mixed ''shared'', ''p99_ms'', ''pool-allocation'') else None)"
| "baseline_of (C_boundary language mode n iterations) =
     (if mode = ''batch'' then Some (C_boundary language ''each'' n iterations, ''wall_s'', ''ffi-batch'') else None)"
| "baseline_of (C_callbacks workers iterations n) =
     (if workers \<noteq> 1 then Some (C_callbacks 1 iterations n, ''wall_s'', ''native-python-callback-workers'') else None)"

record comparison =
  cp_candidate :: string
  cp_baseline :: string
  cp_change :: string
  cp_metric :: string
  cp_paired :: "rat list"
  cp_median :: rat
  cp_improved :: nat
  cp_rounds :: nat

definition improvement_pct :: "rat \<Rightarrow> rat \<Rightarrow> analysis_error + rat" where
  "improvement_pct b c = (if b = 0 then Inl Zero_division_error else Inr ((1 - c / b) * 100))"

definition pair_gain :: "config \<Rightarrow> config \<Rightarrow> string \<Rightarrow> nat \<Rightarrow> analysis_error + rat" where
  "pair_gain candidate baseline metric r =
     (case map_of (the (map_of (cf_runs candidate) r)) metric of
        None \<Rightarrow> Inl (Metric_missing metric)
      | Some c \<Rightarrow>
          (case map_of (the (map_of (cf_runs baseline) r)) metric of
             None \<Rightarrow> Inl (Metric_missing metric)
           | Some b \<Rightarrow> improvement_pct b c))"

definition common_repeats :: "config \<Rightarrow> config \<Rightarrow> nat list" where
  "common_repeats candidate baseline =
     filter (\<lambda>r. r \<in> set (map fst (cf_runs baseline))) (map fst (cf_runs candidate))"

definition compare_config :: "config list \<Rightarrow> config \<Rightarrow> analysis_error + comparison option" where
  "compare_config entries candidate =
     (case baseline_of (cf_case candidate) of
        None \<Rightarrow> Inr None
      | Some (base, metric, changed) \<Rightarrow>
          (case map_of (rev (map (\<lambda>e. (cf_case e, e)) entries)) base of
             None \<Rightarrow> Inr None
           | Some baseline \<Rightarrow>
               (case collect (pair_gain candidate baseline metric) (common_repeats candidate baseline) of
                  Inl e \<Rightarrow> Inl e
                | Inr paired \<Rightarrow>
                    (case median paired of
                       Inl e \<Rightarrow> Inl e
                     | Inr m \<Rightarrow>
                         Inr (Some \<lparr>cp_candidate = cf_id candidate, cp_baseline = cf_id baseline, cp_change = changed,
                           cp_metric = metric, cp_paired = paired, cp_median = m,
                           cp_improved = length (filter (\<lambda>x. 0 < x) paired), cp_rounds = length paired\<rparr>)))))"

definition compare_configs :: "config list \<Rightarrow> analysis_error + comparison list" where
  "compare_configs entries =
     (case collect (compare_config entries) entries of
        Inl e \<Rightarrow> Inl e | Inr cs \<Rightarrow> Inr (List.map_filter id cs))"

section \<open>Facts about the matrix\<close>

definition has_baseline_in :: "bench_case list \<Rightarrow> bench_case \<Rightarrow> bool" where
  "has_baseline_in cs c = (case baseline_of c of None \<Rightarrow> True | Some (b, _) \<Rightarrow> b \<in> set cs \<and> b \<noteq> c)"

lemma group_baselines:
  "list_all (has_baseline_in dispatch_cases) dispatch_cases"
  "list_all (has_baseline_in carrier_cases) carrier_cases"
  "list_all (has_baseline_in replay_cases) replay_cases"
  by code_simp+

lemma group_baselines2:
  "list_all (has_baseline_in compute_cases) compute_cases"
  by code_simp

lemma group_baselines3:
  "list_all (has_baseline_in native_cases) native_cases"
  by code_simp

lemma group_baselines4:
  "list_all (has_baseline_in broadcast_cases) broadcast_cases"
  by code_simp

lemma has_baseline_mono:
  "list_all (has_baseline_in cs) cs \<Longrightarrow> c \<in> set cs \<Longrightarrow> set cs \<subseteq> set ds \<Longrightarrow> has_baseline_in ds c"
  by (auto simp: has_baseline_in_def list_all_iff split: option.splits)

lemma suite_baselines: "c \<in> set suite_cases \<Longrightarrow> has_baseline_in suite_cases c"
proof -
  assume c: "c \<in> set suite_cases"
  have "list_all (has_baseline_in [C_mixed mode. mode \<leftarrow> [''shared'', ''split'']]) [C_mixed mode. mode \<leftarrow> [''shared'', ''split'']]"
    "list_all (has_baseline_in [C_callbacks workers 20000 64. workers \<leftarrow> [1, 4]]) [C_callbacks workers 20000 64. workers \<leftarrow> [1, 4]]"
    by code_simp+
  note groups = this group_baselines group_baselines2 group_baselines3 group_baselines4
  from c obtain cs where "list_all (has_baseline_in cs) cs" "c \<in> set cs" "set cs \<subseteq> set suite_cases"
    unfolding suite_cases_def set_append Un_iff
    by (elim disjE) (use groups in blast)+
  then show ?thesis by (rule has_baseline_mono)
qed

lemma baseline_metric: "baseline_of c = Some (b, metric, ch) \<Longrightarrow>
   metric = ''wall_s'' \<or> metric = ''p99_ms'' \<and> case_group c \<in> {''broadcast'', ''mixed''} \<and> case_group b = case_group c"
  by (cases c) (auto split: if_splits)

section \<open>Facts about the analysis\<close>

lemma collect_Inr: "\<forall>x\<in>set xs. f x = Inr (g x) \<Longrightarrow> collect f xs = Inr (map g xs)"
  by (induction xs) simp_all

lemma collect_cong: "(\<And>x. x \<in> set xs \<Longrightarrow> f x = g x) \<Longrightarrow> collect f xs = collect g xs"
  by (induction xs) (simp_all split: sum.split)

lemma median_Inl [simp]: "median xs = Inl e \<longleftrightarrow> xs = [] \<and> e = Statistics_error"
  by (auto simp: median_def Let_def)

lemma median_between:
  assumes "median xs = Inr m"
  shows "Min (set xs) \<le> m" "m \<le> Max (set xs)"
proof -
  have ne: "xs \<noteq> []" using assms by (auto simp: median_def)
  let ?s = "sort xs" and ?h = "length xs div 2"
  have lt: "?h < length ?s" "?h - 1 < length ?s" using ne by (cases xs; simp)+
  have b: "Min (set xs) \<le> ?s ! k \<and> ?s ! k \<le> Max (set xs)" if "k < length ?s" for k
    using nth_mem [OF that] by simp
  have "m = ?s ! ?h \<or> m = (?s ! (?h - 1) + ?s ! ?h) / 2"
    using assms ne by (auto simp: median_def Let_def split: if_splits)
  then show "Min (set xs) \<le> m" "m \<le> Max (set xs)"
    using b [OF lt(1)] b [OF lt(2)] by (auto simp: field_simps)
qed

text \<open>
  Both analyses of paired rounds reduce an old and a new measurement to a gain in percent, each with its own
  formula. The contract they share: with a positive old value there is a gain, positive exactly when the
  new value is smaller; the rounds that improved are then those in which it is.
\<close>

locale paired_gain =
  fixes gain :: "rat \<Rightarrow> rat \<Rightarrow> analysis_error + rat"
  assumes gain_sign: "0 < old \<Longrightarrow> \<exists>g. gain old new = Inr g \<and> (0 < g \<longleftrightarrow> new < old)"
begin

lemma gains_of_rounds:
  assumes "distinct rs" "rs \<noteq> []" "\<forall>r\<in>set rs. 0 < old r"
  shows "\<exists>gains m. collect (\<lambda>r. gain (old r) (new r)) rs = Inr gains \<and> length gains = length rs
    \<and> length (filter (\<lambda>x. 0 < x) gains) = card {r \<in> set rs. new r < old r}
    \<and> median gains = Inr m \<and> Min (set gains) \<le> m \<and> m \<le> Max (set gains)"
proof -
  let ?g = "\<lambda>r. projr (gain (old r) (new r))" and ?P = "\<lambda>r. new r < old r"
  have g: "gain (old r) (new r) = Inr (?g r) \<and> (0 < ?g r \<longleftrightarrow> ?P r)" if "r \<in> set rs" for r
    using gain_sign [of "old r" "new r"] assms(3) that by auto
  then have c: "collect (\<lambda>r. gain (old r) (new r)) rs = Inr (map ?g rs)" by (intro collect_Inr) blast
  obtain m where m: "median (map ?g rs) = Inr m" using assms(2) by (cases "median (map ?g rs)") auto
  have "length (filter (\<lambda>x. 0 < x) (map ?g rs)) = length (filter (\<lambda>r. 0 < ?g r) rs)" by (simp only: filter_map o_def length_map)
  also have "\<dots> = length (filter ?P rs)" using g by (intro arg_cong [where f = length] filter_cong refl) blast
  also have "\<dots> = card {r \<in> set rs. ?P r}"
    using distinct_length_filter [OF assms(1), of ?P] by (simp only: Collect_conj_eq Collect_mem_eq inf_commute)
  finally show ?thesis using c m median_between [OF m] by auto
qed

end

interpretation improvements: paired_gain improvement_pct
  by unfold_locales (simp add: improvement_pct_def, simp add: field_simps)

text \<open>The value of a metric in a repeat, and results in which every comparison can be computed.\<close>

definition metric_at :: "config \<Rightarrow> string \<Rightarrow> nat \<Rightarrow> rat option" where
  "metric_at e metric r = map_of (the (map_of (cf_runs e) r)) metric"

definition measured :: "nat set \<Rightarrow> config \<Rightarrow> bool" where
  "measured R e \<longleftrightarrow> distinct (map fst (cf_runs e)) \<and> set (map fst (cf_runs e)) = R
     \<and> (\<forall>r\<in>R. (\<exists>v>0. metric_at e ''wall_s'' r = Some v)
          \<and> (case_group (cf_case e) \<in> {''broadcast'', ''mixed''} \<longrightarrow> (\<exists>v>0. metric_at e ''p99_ms'' r = Some v)))"

text \<open>What a comparison must say about the two configurations.\<close>

definition comparison_ok :: "nat set \<Rightarrow> config list \<Rightarrow> config \<Rightarrow> comparison \<Rightarrow> bool" where
  "comparison_ok R entries e cp \<longleftrightarrow> (\<exists>b\<in>set entries. \<exists>metric change.
       baseline_of (cf_case e) = Some (cf_case b, metric, change)
     \<and> cp_candidate cp = cf_id e \<and> cp_baseline cp = cf_id b \<and> cp_metric cp = metric \<and> cp_change cp = change
     \<and> cp_rounds cp = card R
     \<and> cp_improved cp = card {r \<in> R. the (metric_at e metric r) < the (metric_at b metric r)}
     \<and> Min (set (cp_paired cp)) \<le> cp_median cp \<and> cp_median cp \<le> Max (set (cp_paired cp)))"

lemma case_lookup:
  assumes "distinct (map cf_case entries)" "b \<in> set entries"
  shows "map_of (rev (map (\<lambda>e. (cf_case e, e)) entries)) (cf_case b) = Some b"
proof -
  have "distinct (map fst (rev (map (\<lambda>e. (cf_case e, e)) entries)))"
    using assms(1) distinct_rev [of "map cf_case entries"] by (simp only: rev_map [symmetric] map_map o_def fst_conv)
  then show ?thesis by (rule map_of_is_SomeI) (use assms(2) in auto)
qed

lemma compare_config_measured:
  assumes d: "distinct (map cf_case entries)" and m: "\<forall>e\<in>set entries. measured R e" and R: "R \<noteq> {}"
    and e: "e \<in> set entries" and b: "b \<in> set entries" "baseline_of (cf_case e) = Some (cf_case b, metric, change)"
  shows "\<exists>cp. compare_config entries e = Inr (Some cp) \<and> comparison_ok R entries e cp"
proof -
  let ?rs = "map fst (cf_runs e)"
  let ?old = "\<lambda>r. the (metric_at b metric r)" and ?new = "\<lambda>r. the (metric_at e metric r)"
  have runs: "distinct ?rs" "set ?rs = R" "set (map fst (cf_runs b)) = R" using m e b(1) by (simp_all add: measured_def)
  have vals: "\<exists>v>0. metric_at e metric r = Some v" "\<exists>v>0. metric_at b metric r = Some v" if "r \<in> R" for r
    using baseline_metric [OF b(2)] m e b(1) that by (auto simp: measured_def)
  have common: "common_repeats e b = ?rs" using runs by (simp add: common_repeats_def filter_id_conv)
  have "?rs \<noteq> []" "\<forall>r\<in>set ?rs. 0 < ?old r" using runs(2) R vals(2) by fastforce+
  from improvements.gains_of_rounds [OF runs(1) this, of ?new] obtain gains md
    where g: "collect (\<lambda>r. improvement_pct (?old r) (?new r)) ?rs = Inr gains" "length gains = length ?rs"
      "length (filter (\<lambda>x. 0 < x) gains) = card {r \<in> set ?rs. ?new r < ?old r}" "median gains = Inr md"
      "Min (set gains) \<le> md" "md \<le> Max (set gains)"
    by blast
  have "collect (pair_gain e b metric) ?rs = collect (\<lambda>r. improvement_pct (?old r) (?new r)) ?rs"
    using vals runs(2) by (intro collect_cong) (fastforce simp: pair_gain_def metric_at_def)
  moreover have "length ?rs = card R" using runs(1,2) distinct_card by fastforce
  ultimately show ?thesis
    using b g case_lookup [OF d b(1)] unfolding runs(2)
    by (auto simp: compare_config_def comparison_ok_def common)
qed

lemma kept_in_order:
  "\<forall>e\<in>set xs. if p e then (\<exists>y. g e = Some y \<and> q e y) else g e = None \<Longrightarrow>
   list_all2 q (filter p xs) (List.map_filter id (map g xs))"
  by (induction xs) (auto simp: List.map_filter_def split: if_splits)

lemma compared_cases: "length (filter (\<lambda>c. baseline_of c \<noteq> None) suite_cases) = 93"
  by (simp add: suite_cases_def group_cases_def)

section \<open>Properties\<close>

text \<open>C39. No comparison of the study is lost. When every case of the matrix has been measured in the same repeats, with
  positive times, the analysis ends without an error and compares exactly the configurations whose case
  has a baseline (93 of the 128), in order: each with the configuration of its baseline case, over
  all the repeats, its improved rounds being those in which the candidate's metric is smaller, and its
  median gain lying between the smallest and the largest gain.\<close>

theorem every_comparison_is_made:
  assumes "set (map cf_case entries) = set suite_cases" "distinct (map cf_case entries)" "R \<noteq> {}"
    and "\<forall>e\<in>set entries. measured R e"
  shows "\<exists>cs. compare_configs entries = Inr cs \<and> length cs = 93
    \<and> list_all2 (comparison_ok R entries) (filter (\<lambda>e. baseline_of (cf_case e) \<noteq> None) entries) cs"
proof -
  let ?p = "\<lambda>e. baseline_of (cf_case e) \<noteq> None" and ?g = "\<lambda>e. projr (compare_config entries e)"
  have "if ?p e then \<exists>cp. compare_config entries e = Inr (Some cp) \<and> comparison_ok R entries e cp
      else compare_config entries e = Inr None" if e: "e \<in> set entries" for e
  proof (cases "baseline_of (cf_case e)")
    case (Some x)
    obtain b metric ch where x: "x = (b, metric, ch)" by (cases x)
    have "cf_case e \<in> set suite_cases" using e assms(1) by auto
    then have "b \<in> set suite_cases" using suite_baselines [of "cf_case e"] Some x by (simp add: has_baseline_in_def)
    then obtain b' where "b' \<in> set entries" "cf_case b' = b" using assms(1) by (auto simp flip: assms(1))
    with compare_config_measured [OF assms(2,4,3) e] Some x show ?thesis by simp
  qed (simp add: compare_config_def)
  then have g: "\<forall>e\<in>set entries. compare_config entries e = Inr (?g e)
      \<and> (if ?p e then \<exists>cp. ?g e = Some cp \<and> comparison_ok R entries e cp else ?g e = None)"
    by (metis sum.sel(2))
  let ?cs = "List.map_filter id (map ?g entries)"
  have l: "list_all2 (comparison_ok R entries) (filter ?p entries) ?cs" by (rule kept_in_order) (use g in blast)
  have "mset (map cf_case entries) = mset suite_cases"
    using assms(1,2) suite_cases_distinct(1) set_eq_iff_mset_eq_distinct by blast
  then have "length (filter (\<lambda>c. baseline_of c \<noteq> None) (map cf_case entries)) = 93"
    by (metis compared_cases mset_filter size_mset)
  then have "length (filter ?p entries) = 93" by (simp only: filter_map length_map o_def)
  then have "length ?cs = 93" using list_all2_lengthD [OF l] by simp
  moreover have "compare_configs entries = Inr ?cs"
    using collect_Inr [of entries "compare_config entries" ?g] g by (simp add: compare_configs_def)
  ultimately show ?thesis using l by blast
qed

definition measured_once :: "bench_case \<Rightarrow> config" where
  "measured_once c = \<lparr>cf_id = case_group c, cf_case = c, cf_repeats = 1, cf_metrics = [],
     cf_runs = [(0, [(''wall_s'', 1), (''p99_ms'', 1)])]\<rparr>"

theorem every_comparison_is_made_witness:
  "\<exists>cs. compare_configs (map measured_once suite_cases) = Inr cs \<and> length cs = 93"
proof -
  have "map cf_case (map measured_once suite_cases) = suite_cases"
    by (simp add: o_def measured_once_def)
  moreover have "\<forall>e\<in>set (map measured_once suite_cases). measured {0} e"
    by (auto simp: measured_def measured_once_def metric_at_def)
  ultimately show ?thesis
    using every_comparison_is_made [of "map measured_once suite_cases" "{0}"] suite_cases_distinct(1) by auto
qed

section \<open>A run of the suite, summarized\<close>

lemma summarize_config_distinct:
  assumes "distinct (map row_repeat rows)"
  shows "summarize_config i rows = Inr (projr (summarize_config i rows))"
  using distinct_card [OF assms] by (simp add: summarize_config_def)

lemma filter_swap: "filter p (filter q xs) = filter q (filter p xs)"
  by (induction xs) auto

lemma filter_eq_single: "distinct xs \<Longrightarrow> c \<in> set xs \<Longrightarrow> filter (\<lambda>x. x = c) xs = [c]"
  by (induction xs) (auto simp: filter_empty_conv)

lemma length_by_key: "finite S \<Longrightarrow> f ` set xs \<subseteq> S \<Longrightarrow> length xs = (\<Sum>i\<in>S. length (filter (\<lambda>x. f x = i) xs))"
proof (induction xs)
  case (Cons x xs)
  have "(\<Sum>i\<in>S. length (filter (\<lambda>x. f x = i) (x # xs))) = (\<Sum>i\<in>S. (if f x = i then 1 else 0) + length (filter (\<lambda>x. f x = i) xs))"
    by (rule sum.cong) simp_all
  with Cons show ?case by (simp add: sum.distrib)
qed simp

lemma complete_groups:
  fixes p :: "'x \<Rightarrow> bool"
  assumes "finite S" "key ` set xs \<subseteq> S" "\<forall>i\<in>S. length (filter (\<lambda>x. key x = i) xs) = n" "0 < n"
  defines "kept \<equiv> filter p xs"
  shows "card (key ` set kept) = card S \<and> (\<forall>i\<in>key ` set kept. length (filter (\<lambda>x. key x = i) kept) = n)
    \<longleftrightarrow> filter (\<lambda>x. \<not> p x) xs = []"
proof
  assume c: "card (key ` set kept) = card S \<and> (\<forall>i\<in>key ` set kept. length (filter (\<lambda>x. key x = i) kept) = n)"
  have "length kept = (\<Sum>i\<in>key ` set kept. length (filter (\<lambda>x. key x = i) kept))" by (rule length_by_key) auto
  also have "\<dots> = (\<Sum>i\<in>key ` set kept. n)" by (rule sum.cong) (use c in auto)
  also have "\<dots> = (\<Sum>i\<in>S. n)" using c by simp
  also have "\<dots> = (\<Sum>i\<in>S. length (filter (\<lambda>x. key x = i) xs))" by (rule sum.cong) (use assms(3) in auto)
  also have "\<dots> = length xs" using length_by_key [OF assms(1,2)] by simp
  finally show "filter (\<lambda>x. \<not> p x) xs = []" using sum_length_filter_compl [of p xs] by (simp add: kept_def)
next
  assume "filter (\<lambda>x. \<not> p x) xs = []"
  then have k: "kept = xs" by (auto simp: kept_def filter_empty_conv filter_id_conv)
  have "filter (\<lambda>x. key x = i) xs \<noteq> []" if "i \<in> S" for i using assms(3,4) that by force
  then have "S \<subseteq> key ` set xs" by (fastforce simp: filter_empty_conv)
  then have "key ` set xs = S" using assms(2) by blast
  then show "card (key ` set kept) = card S \<and> (\<forall>i\<in>key ` set kept. length (filter (\<lambda>x. key x = i) kept) = n)"
    using assms(3) by (simp only: k)
qed

definition suite_digest_ok :: "(bench_case \<Rightarrow> string) \<Rightarrow> bench_case list \<Rightarrow> bool" where
  "suite_digest_ok digest selected \<longleftrightarrow> inj_on (\<lambda>c. case_group c @ ''-'' @ digest c) (set selected)"

lemma count_rows:
  assumes shuffle: "\<And>repeat. mset (shuffle repeat selected) = mset selected" and "distinct selected"
    and d: "suite_digest_ok digest selected" and c: "c \<in> set selected"
  shows "map row_repeat (filter (\<lambda>r. row_id r = row_id (run_case digest outcome 0 c))
    (fst (suite_run shuffle digest outcome repeats selected))) = [0..<repeats]"
proof -
  let ?i = "row_id (run_case digest outcome 0 c)"
  have one: "map row_repeat (filter (\<lambda>r. row_id r = ?i) (map (run_case digest outcome repeat) (shuffle repeat selected))) = [repeat]"
    for repeat
  proof -
    have "set (shuffle repeat selected) = set selected" "distinct (shuffle repeat selected)"
      using shuffle [of repeat] assms(2) mset_eq_setD mset_eq_imp_distinct_iff by blast+
    then have "filter (\<lambda>c'. row_id (run_case digest outcome repeat c') = ?i) (shuffle repeat selected)
        = filter (\<lambda>c'. c' = c) (shuffle repeat selected)"
      using d c by (intro filter_cong) (auto simp: suite_digest_ok_def inj_on_def)
    also have "\<dots> = [c]"
      using \<open>distinct (shuffle repeat selected)\<close> \<open>set (shuffle repeat selected) = set selected\<close> c
      by (simp add: filter_eq_single)
    finally show ?thesis by (simp add: filter_map o_def)
  qed
  show ?thesis by (induction repeats) (simp_all add: suite_run_def Let_def one del: run_case.simps)
qed

lemma suite_run_rows:
  assumes "\<And>repeat. mset (shuffle repeat selected) = mset selected"
  shows "length (fst (suite_run shuffle digest outcome repeats selected)) = repeats * length selected"
    "row_id ` set (fst (suite_run shuffle digest outcome repeats selected))
      \<subseteq> (\<lambda>c. row_id (run_case digest outcome 0 c)) ` set selected"
    "r \<in> set (fst (suite_run shuffle digest outcome repeats selected)) \<Longrightarrow> \<exists>c repeat. r = run_case digest outcome repeat c"
proof -
  have "length (shuffle repeat selected) = length selected" "set (shuffle repeat selected) = set selected" for repeat
    using assms [of repeat] mset_eq_length mset_eq_setD by blast+
  then show "length (fst (suite_run shuffle digest outcome repeats selected)) = repeats * length selected"
    "row_id ` set (fst (suite_run shuffle digest outcome repeats selected))
      \<subseteq> (\<lambda>c. row_id (run_case digest outcome 0 c)) ` set selected"
    by (auto simp: suite_run_def Let_def length_concat o_def sum_list_triv)
qed (auto simp: suite_run_def Let_def)


text \<open>Two cases, run twice in alternating order; the last run of one of them times out.\<close>

definition demo_cases :: "bench_case list" where
  "demo_cases = [C_mixed ''shared'', C_mixed ''split'']"

definition demo_shuffle :: "nat \<Rightarrow> bench_case list \<Rightarrow> bench_case list" where
  "demo_shuffle repeat cs = (if even repeat then cs else rev cs)"

definition demo_outcome :: "bench_case \<Rightarrow> nat \<Rightarrow> run_outcome" where
  "demo_outcome c repeat =
     (if c = C_mixed ''split'' \<and> repeat = 1 then Timed_out
      else Exited 0 (Some \<lparr>br_correct = True, br_metrics = [(''wall_s'', 2)]\<rparr>))"


end
