(* ===== verification/Bench_Pairs.thy ===== *)
theory Bench_Pairs
  imports Bench_Analysis
begin

text \<open>
  \<open>compare\<close> of \<open>docs/performance-implementation/compare.py\<close>: five repeats of every case, each repeat running the
  variants of the library one after the other, in alternating order, and the paired gains computed from
  their results. What a worker process reports is an argument.
\<close>

section \<open>Cases and schedule\<close>

datatype pair_case =
    P_replay (p_count: int) (p_mode: string) (p_limit: "int option")
  | P_broadcast (p_count: int) (p_readers: int) (p_producer: string) (p_interval: rat)

definition pair_cases :: "pair_case list" where
  "pair_cases =
     [P_replay n mode None. n \<leftarrow> [1000, 10000, 100000], mode \<leftarrow> [''sync'', ''async'']]
     @ [P_replay 100000 ''sync'' (Some limit). limit \<leftarrow> [128, 10000]]
     @ [P_broadcast 400 readers producer interval.
          readers \<leftarrow> [1, 8, 32], (producer, interval) \<leftarrow> [(''loop'', 0), (''loop'', 1 / 1000), (''thread'', 1 / 1000)]]"

fun variants :: "pair_case \<Rightarrow> string list" where
  "variants (P_replay _ _ _) = [''baseline'', ''default'']"
| "variants (P_broadcast _ _ _ _) = [''baseline'', ''default'', ''grouped'']"

fun pair_metrics :: "pair_case \<Rightarrow> string list" where
  "pair_metrics (P_replay _ _ _) = [''wall_s'', ''fill_s'', ''cpu_s'']"
| "pair_metrics (P_broadcast _ _ _ _) = [''wall_s'', ''cpu_s'', ''p99_s'']"

definition variant_order :: "pair_case \<Rightarrow> nat \<Rightarrow> string list" where
  "variant_order c repeat = (if repeat mod 2 = 0 then variants c else rev (variants c))"

definition pair_schedule :: "pair_case \<Rightarrow> (string \<times> nat) list" where
  "pair_schedule c = concat (map (\<lambda>repeat. map (\<lambda>variant. (variant, repeat)) (variant_order c repeat)) [0..<5])"

section \<open>Runs\<close>

text \<open>A worker fails or reports its metrics; the first failure ends the comparison with \<open>RuntimeError\<close>.\<close>

type_synonym worker = "string \<Rightarrow> nat \<Rightarrow> (string \<times> rat) list option"

datatype pair_error = Failed_run string nat | Analysis_failed analysis_error

fun run_schedule ::
  "worker \<Rightarrow> (string \<times> nat) list \<Rightarrow> (string \<Rightarrow> (string \<times> rat) list list) \<Rightarrow> pair_error + (string \<Rightarrow> (string \<times> rat) list list)" where
  "run_schedule worker [] runs = Inr runs"
| "run_schedule worker ((variant, repeat) # schedule) runs =
     (case worker variant repeat of
        None \<Rightarrow> Inl (Failed_run variant repeat)
      | Some result \<Rightarrow> run_schedule worker schedule (runs(variant := runs variant @ [result])))"

section \<open>Summaries\<close>

record pair_entry =
  pe_values :: "rat list"
  pe_median :: rat
  pe_min :: rat
  pe_max :: rat
  pe_gain :: "(string \<times> rat \<times> nat) option"

definition reference_of :: "string \<Rightarrow> string" where
  "reference_of variant = (if variant = ''grouped'' then ''default'' else ''baseline'')"

definition run_value :: "string \<Rightarrow> (string \<times> rat) list \<Rightarrow> analysis_error + rat" where
  "run_value metric result = (case map_of result metric of None \<Rightarrow> Inl (Metric_missing metric) | Some x \<Rightarrow> Inr x)"

definition pair_gain_pct :: "rat \<Rightarrow> rat \<Rightarrow> analysis_error + rat" where
  "pair_gain_pct old new = (if old = 0 then Inl Zero_division_error else Inr ((old - new) / old * 100))"

interpretation gains: paired_gain pair_gain_pct
  by unfold_locales (simp add: pair_gain_pct_def, simp add: field_simps)

text \<open>The entry of one variant; \<open>reference\<close> holds the values it is compared with, if it is.\<close>

definition pair_entry_of :: "string \<Rightarrow> rat list option \<Rightarrow> rat list \<Rightarrow> analysis_error + pair_entry" where
  "pair_entry_of variant reference vs =
     (case median vs of
        Inl e \<Rightarrow> Inl e
      | Inr m \<Rightarrow>
          (let entry = \<lparr>pe_values = vs, pe_median = m, pe_min = Min (set vs), pe_max = Max (set vs), pe_gain = None\<rparr>
           in case reference of
                None \<Rightarrow> Inr entry
              | Some olds \<Rightarrow>
                  (case collect (\<lambda>(old, new). pair_gain_pct old new) (zip olds vs) of
                     Inl e \<Rightarrow> Inl e
                   | Inr gains \<Rightarrow>
                       (case median gains of
                          Inl e \<Rightarrow> Inl e
                        | Inr g \<Rightarrow> Inr (entry\<lparr>pe_gain :=
                            Some (reference_of variant, g, length (filter (\<lambda>x. 0 < x) gains))\<rparr>)))))"

definition metric_entry ::
  "(string \<Rightarrow> rat list) \<Rightarrow> string \<Rightarrow> analysis_error + (string \<times> pair_entry)" where
  "metric_entry vals variant =
     map_sum id (Pair variant)
       (pair_entry_of variant (if variant = ''baseline'' then None else Some (vals (reference_of variant))) (vals variant))"

definition metric_summary ::
  "pair_case \<Rightarrow> (string \<Rightarrow> (string \<times> rat) list list) \<Rightarrow> string \<Rightarrow> analysis_error + (string \<times> (string \<times> pair_entry) list)" where
  "metric_summary c runs metric =
     (case collect (\<lambda>v. collect (run_value metric) (runs v)) (variants c) of
        Inl e \<Rightarrow> Inl e
      | Inr _ \<Rightarrow>
          map_sum id (Pair metric)
            (collect (metric_entry (\<lambda>v. projr (collect (run_value metric) (runs v)))) (variants c)))"

definition compare_case ::
  "worker \<Rightarrow> pair_case \<Rightarrow> pair_error + (string \<times> (string \<times> pair_entry) list) list" where
  "compare_case worker c =
     (case run_schedule worker (pair_schedule c) (\<lambda>_. []) of
        Inl e \<Rightarrow> Inl e
      | Inr runs \<Rightarrow> map_sum Analysis_failed id (collect (metric_summary c runs) (pair_metrics c)))"

section \<open>Facts\<close>

lemma run_schedule_ok:
  "\<forall>(v, r)\<in>set s. worker v r = Some (f v r) \<Longrightarrow>
   run_schedule worker s runs = Inr (\<lambda>v. runs v @ map (f v) (map snd (filter (\<lambda>p. fst p = v) s)))"
proof (induction s arbitrary: runs)
  case (Cons p s)
  obtain v r where p: "p = (v, r)" by fastforce
  have "run_schedule worker (p # s) runs = run_schedule worker s (runs(v := runs v @ [f v r]))" using Cons.prems p by simp
  with Cons show ?case by (auto simp: p fun_eq_iff)
qed simp

lemma variant_repeats: "v \<in> set (variants c) \<Longrightarrow> map snd (filter (\<lambda>p. fst p = v) (pair_schedule c)) = [0..<5]"
  by (cases c) (auto simp: pair_schedule_def variant_order_def upt_rec [of _ 5])

lemma scheduled: "(v, r) \<in> set (pair_schedule c) \<Longrightarrow> v \<in> set (variants c) \<and> r < 5"
  by (auto simp: pair_schedule_def variant_order_def split: if_splits)

lemma reference_variant: "v \<in> set (variants c) \<Longrightarrow> v \<noteq> ''baseline'' \<Longrightarrow> reference_of v \<in> set (variants c)"
  by (cases c) (auto simp: reference_of_def)

lemma collect_map: "collect f (map g xs) = collect (\<lambda>x. f (g x)) xs"
  by (induction xs) (simp_all split: sum.split)

lemma pair_entry_ok:
  fixes old new :: "nat \<Rightarrow> rat"
  assumes "0 < n" "\<forall>r<n. 0 < old r"
  shows "\<exists>e. pair_entry_of v (Some (map old [0..<n])) (map new [0..<n]) = Inr e \<and> pe_values e = map new [0..<n]
     \<and> (\<exists>g. pe_gain e = Some (reference_of v, g, card {r. r < n \<and> new r < old r}))"
    "\<exists>e. pair_entry_of v None (map new [0..<n]) = Inr e \<and> pe_values e = map new [0..<n] \<and> pe_gain e = None"
proof -
  obtain m where m: "median (map new [0..<n]) = Inr m" using assms(1) by (cases "median (map new [0..<n])") auto
  from gains.gains_of_rounds [of "[0..<n]" old new] assms obtain gs g
    where g: "collect (\<lambda>r. pair_gain_pct (old r) (new r)) [0..<n] = Inr gs" "median gs = Inr g"
      "length (filter (\<lambda>x. 0 < x) gs) = card {r. r < n \<and> new r < old r}" by auto
  have "collect (\<lambda>(old, new). pair_gain_pct old new) (zip (map old [0..<n]) (map new [0..<n])) = Inr gs"
    using g(1) by (simp add: zip_map_map zip_same_conv_map collect_map)
  then show "\<exists>e. pair_entry_of v (Some (map old [0..<n])) (map new [0..<n]) = Inr e \<and> pe_values e = map new [0..<n]
     \<and> (\<exists>g. pe_gain e = Some (reference_of v, g, card {r. r < n \<and> new r < old r}))"
    "\<exists>e. pair_entry_of v None (map new [0..<n]) = Inr e \<and> pe_values e = map new [0..<n] \<and> pe_gain e = None"
    using m g by (simp_all add: pair_entry_of_def Let_def)
qed

lemma collect_keyed:
  "\<forall>k\<in>set ks. \<exists>y. f k = Inr (k, y) \<and> q k y \<Longrightarrow>
   \<exists>ys. collect f ks = Inr ys \<and> map fst ys = ks \<and> (\<forall>(k, y)\<in>set ys. q k y)"
  by (induction ks) fastforce+

section \<open>Properties\<close>

text \<open>Paired rounds are pairs. When every worker of a case succeeds with positive metrics, the comparison succeeds and
  has an entry for every metric and variant; although the order of the variants alternates, the values of
  an entry are those of the repeats in order, so the gain of a variant compares it with its
  reference in the same repeat, and the improvements count the repeats in which it was faster.\<close>

theorem paired_rounds_compare_equal_repeats:
  assumes "\<forall>v\<in>set (variants c). \<forall>r<5. \<exists>result. worker v r = Some result
    \<and> (\<forall>metric\<in>set (pair_metrics c). \<exists>x>0. map_of result metric = Some x)"
  defines "val \<equiv> \<lambda>metric v r. the (map_of (the (worker v r)) metric)"
  shows "\<exists>s. compare_case worker c = Inr s \<and> map fst s = pair_metrics c
    \<and> (\<forall>(metric, entries)\<in>set s. map fst entries = variants c
        \<and> (\<forall>(v, e)\<in>set entries. pe_values e = map (val metric v) [0..<5]
            \<and> (if v = ''baseline'' then pe_gain e = None
               else \<exists>g. pe_gain e = Some (reference_of v, g,
                      card {r. r < 5 \<and> val metric v r < val metric (reference_of v) r}))))"
proof -
  let ?runs = "\<lambda>v. map (\<lambda>r. the (worker v r)) (map snd (filter (\<lambda>p. fst p = v) (pair_schedule c)))"
  have "\<forall>(v, r)\<in>set (pair_schedule c). worker v r = Some (the (worker v r))" using assms(1) scheduled by fastforce
  from run_schedule_ok [OF this] have r: "run_schedule worker (pair_schedule c) (\<lambda>_. []) = Inr ?runs" by simp
  have v: "collect (run_value metric) (?runs v) = Inr (map (val metric v) [0..<5])" if "v \<in> set (variants c)" "metric \<in> set (pair_metrics c)"
    for v metric
  proof -
    have "collect (run_value metric) (map (\<lambda>r. the (worker v r)) [0..<5])
        = Inr (map (\<lambda>result. the (map_of result metric)) (map (\<lambda>r. the (worker v r)) [0..<5]))"
      by (rule collect_Inr) (use assms(1) that in \<open>fastforce simp: run_value_def\<close>)
    then show ?thesis by (simp only: variant_repeats [OF that(1)] map_map o_def val_def)
  qed
  let ?ok = "\<lambda>metric v e. pe_values e = map (val metric v) [0..<5] \<and> (if v = ''baseline'' then pe_gain e = None
      else \<exists>g. pe_gain e = Some (reference_of v, g, card {r. r < 5 \<and> val metric v r < val metric (reference_of v) r}))"
  have "\<exists>es. metric_summary c ?runs metric = Inr (metric, es) \<and> map fst es = variants c \<and> (\<forall>(v, e)\<in>set es. ?ok metric v e)"
    if m: "metric \<in> set (pair_metrics c)" for metric
  proof -
    let ?vals = "\<lambda>v. projr (collect (run_value metric) (?runs v))"
    have "\<exists>e. metric_entry ?vals u = Inr (u, e) \<and> ?ok metric u e" if u: "u \<in> set (variants c)" for u
    proof (cases "u = ''baseline''")
      case True
      with pair_entry_ok(2) [of 5 "\<lambda>_. 1" u "val metric u"] v [OF u m] show ?thesis by (auto simp: metric_entry_def)
    next
      case False
      note r = reference_variant [OF u False]
      have "\<forall>r<5. 0 < val metric (reference_of u) r" using assms(1) r m by (fastforce simp: val_def)
      with pair_entry_ok(1) [of 5 "val metric (reference_of u)" u "val metric u"] v [OF u m] v [OF r m] False show ?thesis
        by (auto simp: metric_entry_def)
    qed
    with collect_keyed [of "variants c" "metric_entry ?vals" "?ok metric"]
    obtain es where "collect (metric_entry ?vals) (variants c) = Inr es" "map fst es = variants c" "\<forall>(v, e)\<in>set es. ?ok metric v e"
      by blast
    moreover have "collect (\<lambda>v. collect (run_value metric) (?runs v)) (variants c) = Inr (map ?vals (variants c))"
      by (rule collect_Inr) (use v [OF _ m] in simp)
    ultimately show ?thesis by (simp add: metric_summary_def)
  qed
  with collect_keyed [of "pair_metrics c" "metric_summary c ?runs"
      "\<lambda>metric es. map fst es = variants c \<and> (\<forall>(v, e)\<in>set es. ?ok metric v e)"]
  obtain s where "collect (metric_summary c ?runs) (pair_metrics c) = Inr s" "map fst s = pair_metrics c"
    "\<forall>(metric, es)\<in>set s. map fst es = variants c \<and> (\<forall>(v, e)\<in>set es. ?ok metric v e)"
    by blast
  with r show ?thesis by (simp add: compare_case_def)
qed

definition demo_worker :: worker where
  "demo_worker v r = Some [(''wall_s'', if v = ''default'' then 1 else 2), (''fill_s'', 1), (''cpu_s'', 1)]"

theorem paired_rounds_compare_equal_repeats_witness:
  "\<exists>s. compare_case demo_worker (P_replay 10 ''sync'' None) = Inr s \<and> map fst s = [''wall_s'', ''fill_s'', ''cpu_s'']
     \<and> (\<forall>(metric, entries)\<in>set s. map fst entries = [''baseline'', ''default''])"
  using paired_rounds_compare_equal_repeats [of "P_replay 10 ''sync'' None" demo_worker]
  by (fastforce simp: demo_worker_def)

end
