(* ===== verification/Bench_Audit.thy ===== *)
theory Bench_Audit
  imports Bench_Analysis
begin

text \<open>
  \<open>docs/performance-strategy/audit.py\<close>: the coverage and the selection of the archived runs. The digests of
  the archived files are left out; \<open>None\<close> stands for the \<open>AssertionError\<close> of a check.
\<close>

section \<open>The audit\<close>

definition case_id :: "(bench_case \<Rightarrow> string) \<Rightarrow> bench_case \<Rightarrow> string" where
  "case_id digest c = case_group c @ ''-'' @ digest c"

definition row_key :: "row \<Rightarrow> string \<times> nat" where
  "row_key r = (row_id r, row_repeat r)"

definition expected_keys :: "(bench_case \<Rightarrow> string) \<Rightarrow> bench_case list \<Rightarrow> nat \<Rightarrow> (string \<times> nat) list" where
  "expected_keys digest cases repetitions = [(case_id digest c, repeat). c \<leftarrow> cases, repeat \<leftarrow> [0..<repetitions]]"

definition audit_run :: "(bench_case \<Rightarrow> string) \<Rightarrow> bench_case list \<Rightarrow> nat \<Rightarrow> (string \<times> nat) list \<Rightarrow> row list \<Rightarrow> bool" where
  "audit_run digest cases repetitions schedule runs \<longleftrightarrow>
     length runs = length cases * repetitions
     \<and> card (set (map row_key runs)) = length runs
     \<and> set (map row_key runs) = set (expected_keys digest cases repetitions)
     \<and> list_all (\<lambda>r. case_id digest (row_case r) = row_id r) runs
     \<and> set schedule = set (expected_keys digest cases repetitions)
     \<and> list_all (\<lambda>r. case row_result r of None \<Rightarrow> True | Some x \<Rightarrow> br_correct x) runs"

definition audit_select :: "row list \<Rightarrow> row list \<Rightarrow> row list" where
  "audit_select main native = filter (\<lambda>r. \<not> is_native (row_case r)) main @ native"

text \<open>The arguments of a run: the cases of its manifest, its schedule and its records.\<close>

definition audit ::
  "(bench_case \<Rightarrow> string) \<Rightarrow> nat \<Rightarrow> bench_case list \<times> (string \<times> nat) list \<times> row list
   \<Rightarrow> bench_case list \<times> (string \<times> nat) list \<times> row list \<Rightarrow> (string \<times> nat) list option" where
  "audit digest repetitions main native =
     (let selected = audit_select (snd (snd main)) (snd (snd native)); keys = map row_key selected
      in if audit_run digest (fst main) repetitions (fst (snd main)) (snd (snd main))
            \<and> audit_run digest (fst native) repetitions (fst (snd native)) (snd (snd native))
            \<and> list_all (\<lambda>r. row_result r \<noteq> None) selected
            \<and> length selected = 640 \<and> card (set keys) = 640 \<and> card (set (map fst keys)) = 128
         then Some keys else None)"

text \<open>What \<open>suite.py\<close> leaves of a run: its cases, the schedule it wrote while it ran, and the records.\<close>

definition archived ::
  "(nat \<Rightarrow> bench_case list \<Rightarrow> bench_case list) \<Rightarrow> (bench_case \<Rightarrow> string) \<Rightarrow> (bench_case \<Rightarrow> nat \<Rightarrow> run_outcome)
   \<Rightarrow> nat \<Rightarrow> bench_case list \<Rightarrow> bench_case list \<times> (string \<times> nat) list \<times> row list" where
  "archived shuffle digest outcome repeats selected =
     (let rows = fst (suite_run shuffle digest outcome repeats selected) in (selected, map row_key rows, rows))"

section \<open>What a run of the suite leaves\<close>

lemma run_case_fields [simp]:
  "row_id (run_case digest outcome repeat c) = case_id digest c"
  "row_repeat (run_case digest outcome repeat c) = repeat" "row_case (run_case digest outcome repeat c) = c"
  "row_key (run_case digest outcome repeat c) = (case_id digest c, repeat)"
  by (simp_all add: case_id_def row_key_def)

lemma recorded_rows:
  assumes shuffle: "\<And>repeat. mset (shuffle repeat selected) = mset selected"
    and kept: "kept = filter (\<lambda>r. p (row_case r)) (fst (suite_run shuffle digest outcome repeats selected))"
  shows "length kept = length (filter p selected) * repeats"
    "set (map row_key kept) = (case_id digest ` set (filter p selected)) \<times> {..<repeats}"
    "r \<in> set kept \<Longrightarrow> \<exists>c repeat. c \<in> set selected \<and> p c \<and> repeat < repeats \<and> r = run_case digest outcome repeat c"
proof -
  have s: "set (shuffle repeat selected) = set selected" "length (filter p (shuffle repeat selected)) = length (filter p selected)"
    for repeat
    using mset_eq_setD [OF shuffle] shuffle [of repeat] by (simp_all add: mset_filter flip: size_mset)
  have k: "kept = concat (map (\<lambda>repeat. map (run_case digest outcome repeat) (filter p (shuffle repeat selected))) [0..<repeats])"
    by (simp add: kept suite_run_def Let_def filter_concat filter_map o_def del: run_case.simps)
  show "length kept = length (filter p selected) * repeats" by (simp add: k length_concat o_def s sum_list_triv)
  show "set (map row_key kept) = (case_id digest ` set (filter p selected)) \<times> {..<repeats}"
  proof -
    have "map row_key kept = concat (map (\<lambda>repeat. map (\<lambda>c. (case_id digest c, repeat)) (filter p (shuffle repeat selected))) [0..<repeats])"
      by (simp add: k map_concat o_def del: run_case.simps)
    then have "set (map row_key kept) = (\<Union>repeat<repeats. (\<lambda>c. (case_id digest c, repeat)) ` set (filter p (shuffle repeat selected)))"
      by (simp only: set_concat set_map set_upt image_image atLeast0LessThan)
    then show ?thesis by (auto simp: s)
  qed
  show "\<exists>c repeat. c \<in> set selected \<and> p c \<and> repeat < repeats \<and> r = run_case digest outcome repeat c" if "r \<in> set kept"
    using that by (fastforce simp: k s simp del: run_case.simps)
qed

lemma recorded_run_passes:
  assumes shuffle: "\<And>repeat. mset (shuffle repeat selected) = mset selected" and "distinct selected"
    and inj: "inj_on (case_id digest) (set selected)"
    and correct: "\<And>c repeat x. outcome c repeat = Exited 0 (Some x) \<Longrightarrow> br_correct x"
  shows "audit_run digest selected repeats (map row_key (fst (suite_run shuffle digest outcome repeats selected)))
    (fst (suite_run shuffle digest outcome repeats selected))"
proof -
  let ?rows = "fst (suite_run shuffle digest outcome repeats selected)"
  have t: "?rows = filter (\<lambda>r. True) ?rows" by simp
  note f = recorded_rows [where shuffle = shuffle, OF shuffle t]
  have k: "set (map row_key ?rows) = (case_id digest ` set selected) \<times> {..<repeats}" using f(2) by simp
  have "card (case_id digest ` set selected) = length selected"
    using card_image [OF inj] distinct_card [OF assms(2)] by (simp only:)
  then have "card (set (map row_key ?rows)) = length ?rows"
    using f(1) by (simp only: k card_cartesian_product card_lessThan) simp
  moreover have "set (map row_key ?rows) = set (expected_keys digest selected repeats)"
    unfolding k by (auto simp: expected_keys_def)
  moreover have "\<forall>r\<in>set ?rows. case_id digest (row_case r) = row_id r
      \<and> (case row_result r of None \<Rightarrow> True | Some x \<Rightarrow> br_correct x)"
  proof
    fix r assume "r \<in> set ?rows"
    then obtain c repeat where r: "r = run_case digest outcome repeat c" using f(3) by blast
    show "case_id digest (row_case r) = row_id r \<and> (case row_result r of None \<Rightarrow> True | Some x \<Rightarrow> br_correct x)"
      using correct by (auto simp: r case_id_def split: run_outcome.splits option.splits)
  qed
  moreover have "length ?rows = length selected * repeats" using f(1) by simp
  ultimately show ?thesis by (simp only: audit_run_def list_all_iff) blast
qed

section \<open>Properties\<close>

lemma native_split:
  "length (filter (\<lambda>c. \<not> is_native c) suite_cases) = 114" "length (filter is_native suite_cases) = 14"
  by (simp_all add: suite_cases_def group_cases_def is_native_def)

text \<open>The audit accepts what the suite records: for a full run and a native-only run with five repeats each,
  whatever their shuffles, in which the runs that the audit selects did not fail, every assertion holds,
  and the audit selects every case of the matrix in every repeat exactly once: 640 runs of 128 cases. The
  runs of the full run that are native may have failed.\<close>

theorem audit_selects_every_run_once:
  assumes "\<And>repeat cs. mset (shuffle repeat cs) = mset cs" "\<And>repeat cs. mset (shuffle' repeat cs) = mset cs"
    and inj: "inj_on (case_id digest) (set suite_cases)"
    and "\<And>c repeat x. outcome c repeat = Exited 0 (Some x) \<Longrightarrow> br_correct x"
    and "\<And>c repeat x. outcome' c repeat = Exited 0 (Some x) \<Longrightarrow> br_correct x"
    and valid: "\<And>c repeat. \<not> is_native c \<Longrightarrow> \<exists>x. outcome c repeat = Exited 0 (Some x)"
      "\<And>c repeat. is_native c \<Longrightarrow> \<exists>x. outcome' c repeat = Exited 0 (Some x)"
  shows "\<exists>keys. audit digest 5 (archived shuffle digest outcome 5 (select_cases '''' False False))
       (archived shuffle' digest outcome' 5 (select_cases '''' True False)) = Some keys
    \<and> distinct keys \<and> set keys = (case_id digest ` set suite_cases) \<times> {..<5}"
proof -
  have sel: "select_cases '''' False False = suite_cases" "select_cases '''' True False = filter is_native suite_cases"
    by (simp_all add: select_cases_def)
  let ?main = "fst (suite_run shuffle digest outcome 5 suite_cases)"
  let ?native = "fst (suite_run shuffle' digest outcome' 5 (filter is_native suite_cases))"
  let ?keys = "map row_key (audit_select ?main ?native)"
  have t: "?native = filter (\<lambda>r. True) ?native" by simp
  note m = recorded_rows [where shuffle = shuffle and p = "\<lambda>c. \<not> is_native c" and selected = suite_cases
      and digest = digest and outcome = outcome and repeats = 5, OF assms(1) refl]
  note n = recorded_rows [where shuffle = shuffle' and p = "\<lambda>_. True", OF assms(2) t]
  have len: "length (audit_select ?main ?native) = 640" using m(1) n(1) by (simp add: audit_select_def native_split)
  have "set ?keys = set (map row_key (filter (\<lambda>r. \<not> is_native (row_case r)) ?main)) \<union> set (map row_key ?native)"
    by (simp only: audit_select_def map_append set_append)
  also have "\<dots> = (case_id digest ` set suite_cases) \<times> {..<5}" unfolding m(2) n(2) by auto
  finally have keys: "set ?keys = (case_id digest ` set suite_cases) \<times> {..<5}" .
  have "card (case_id digest ` set suite_cases) = 128"
    using card_image [OF inj] distinct_card [OF suite_cases_distinct(1)] suite_cases_distinct(2) by (simp only:)
  moreover have "set (map fst ?keys) = case_id digest ` set suite_cases" unfolding set_map [of fst] keys by (auto simp: lessThan_empty_iff fst_image_times)
  ultimately have card: "card (set ?keys) = 640" "card (set (map fst ?keys)) = 128"
    by (simp_all only: keys card_cartesian_product card_lessThan)
  have good: "row_result r \<noteq> None" if r: "r \<in> set (audit_select ?main ?native)" for r
  proof -
    from r consider "r \<in> set (filter (\<lambda>r. \<not> is_native (row_case r)) ?main)" | "r \<in> set ?native"
      by (auto simp: audit_select_def)
    then show ?thesis
    proof cases
      case 1
      then obtain c repeat where "\<not> is_native c" "r = run_case digest outcome repeat c" using m(3) by blast
      then show ?thesis using valid(1) [of c repeat] by auto
    next
      case 2
      then obtain c repeat where "c \<in> set (filter is_native suite_cases)" "r = run_case digest outcome' repeat c"
        using n(3) by blast
      then show ?thesis using valid(2) [of c repeat] by auto
    qed
  qed
  have inj': "inj_on (case_id digest) (set (filter is_native suite_cases))" using inj by (rule inj_on_subset) auto
  note runs = recorded_run_passes [where shuffle = shuffle, OF assms(1) suite_cases_distinct(1) inj assms(4)]
    recorded_run_passes [where shuffle = shuffle', OF assms(2) distinct_filter [OF suite_cases_distinct(1)] inj' assms(5)]
  have "audit digest 5 (archived shuffle digest outcome 5 suite_cases)
      (archived shuffle' digest outcome' 5 (filter is_native suite_cases)) = Some ?keys"
    using runs len card good by (simp only: audit_def archived_def Let_def list_all_iff fst_conv snd_conv if_True) simp
  moreover have "distinct ?keys" by (rule card_distinct) (simp only: card length_map len)
  ultimately show ?thesis using keys by (simp only: sel) blast
qed

text \<open>A digest that numbers the cases, and processes that all succeed.\<close>

definition demo_digest :: "bench_case \<Rightarrow> string" where
  "demo_digest c = replicate (length (takeWhile (\<lambda>d. d \<noteq> c) suite_cases)) (CHR ''0'')"

lemma demo_digest_inj: "inj_on (case_id demo_digest) (set suite_cases)"
proof (rule inj_onI)
  fix c d assume c: "c \<in> set suite_cases" and d: "d \<in> set suite_cases" and e: "case_id demo_digest c = case_id demo_digest d"
  have "length (filter (\<lambda>x. x = CHR ''0'') (case_id demo_digest a)) = length (takeWhile (\<lambda>d. d \<noteq> a) suite_cases)" for a
    by (cases a) (simp_all add: case_id_def demo_digest_def)
  then have l: "length (takeWhile (\<lambda>x. x \<noteq> c) suite_cases) = length (takeWhile (\<lambda>x. x \<noteq> d) suite_cases)" using e by metis
  have "suite_cases ! length (takeWhile (\<lambda>x. x \<noteq> a) suite_cases) = a" if "a \<in> set suite_cases" for a
  proof -
    have "takeWhile (\<lambda>x. x \<noteq> a) suite_cases @ dropWhile (\<lambda>x. x \<noteq> a) suite_cases = suite_cases" by simp
    moreover have "dropWhile (\<lambda>x. x \<noteq> a) suite_cases \<noteq> []" using that by (simp add: dropWhile_eq_Nil_conv)
    ultimately have "length (takeWhile (\<lambda>x. x \<noteq> a) suite_cases) < length suite_cases"
      by (metis length_append less_add_same_cancel1 length_greater_0_conv)
    then show ?thesis using nth_length_takeWhile [of "\<lambda>x. x \<noteq> a" suite_cases] by simp
  qed
  then show "c = d" using c d l by metis
qed

theorem audit_selects_every_run_once_witness:
  "\<exists>keys. audit demo_digest 5
       (archived demo_shuffle demo_digest (\<lambda>c r. if is_native c then Timed_out else Exited 0 (Some \<lparr>br_correct = True, br_metrics = []\<rparr>)) 5
         (select_cases '''' False False))
       (archived (\<lambda>_ cs. cs) demo_digest (\<lambda>c r. Exited 0 (Some \<lparr>br_correct = True, br_metrics = []\<rparr>)) 5 (select_cases '''' True False))
     = Some keys
     \<and> distinct keys \<and> set keys = (case_id demo_digest ` set suite_cases) \<times> {..<5}"
  by (rule audit_selects_every_run_once) (auto simp: demo_shuffle_def demo_digest_inj split: if_splits)

end
