(* ===== verification/Spec2Isabelle.thy ===== *)
theory Spec2Isabelle
  imports Tunnel_Props Handle_Props Stream_Props Emitter_Props Stage_Function Events_Model Call_Bridge Scope_System
    Scope_History Bridge_Streams Replay_Candidates Wake_Candidates Bench_Kernels Bench_Replay Bench_Pairs Bench_Audit
begin

text \<open>
  A verification development for Agently-Stage, the structured-concurrency runtime under
  \<open>src/agently_stage\<close>.

  \<^bold>\<open>The program.\<close> A \<open>Stage\<close> (\<open>Stage.py\<close>) is a scope that owns work: roots submitted
  with \<open>go\<close>, the callbacks of their handles, and native tasks it adopts. Each root has a
  \<open>StageHandle\<close> (\<open>StageHandle.py\<close>) with a write-once body outcome, an ordered callback queue
  and a settlement barrier. A scope runs its work either on a caller's event loop or on a
  carrier loop leased from the process-wide pool (\<open>_runtime.py\<close>), whose slots run one
  generation (an event loop with counted reservations) at a time. Generators become
  \<open>StageStream\<close>s: a source consumer feeding a \<open>Tunnel\<close> (\<open>Tunnel.py\<close>), the replayable channel.
  Around the scope stand its clients: \<open>EventEmitter\<close> and \<open>StageFunction\<close> submit through \<open>go\<close>,
  \<open>StageTask\<close> runs legacy callbacks, \<open>Events\<close> is a registry of named events, \<open>LocalTaskScope\<close>,
  \<open>StageDispatch\<close> and \<open>StageCallBridge\<close> are facades that own or route to scopes.

  \<^bold>\<open>Modelling conventions.\<close> Objects compared by identity are references; locks make a method
  body (or a lock section of it) one atomic function; exceptions are values of type \<open>exc\<close> in a
  sum; an operation that raises after changing state returns the changed state with the error.
  What user code and the interpreter decide (which loops are closed or running, the clock, the
  outcome of a body, whether \<open>create_task\<close> raises, \<open>str\<close> of an exception, whether an exception
  is a \<open>TimeoutError\<close>) is an argument. Interleavings are \<open>inductive\<close> step relations over these
  functions; \<open>reachable\<close> (\<open>Stage_Prelude\<close>) is their closure and the locale
  \<open>inductive_invariant\<close> the proof rule they share.

  \<^bold>\<open>Theories.\<close>
  \<^item> \<open>Stage_Prelude\<close>: references, collections, reachability, the contracts \<open>inductive_invariant\<close>,
    \<open>monotone_system\<close> and \<open>counted_reservation\<close>, list lemmas. \<open>Stage_Errors\<close>: \<open>StageException.py\<close>.
  \<^item> \<open>Tunnel_Model\<close>: all of \<open>Tunnel.py\<close>. \<open>Tunnel_Facts\<close>: its representation invariant, the log it
    implements, runs of operations. \<open>Tunnel_Wakeup\<close>: async readers, producers and dying loops
    interleaved. \<open>Tunnel_Props\<close>: refinement, slices, retention bounds, no lost wake-up.
  \<^item> \<open>Handle_Model\<close>, \<open>Handle_Facts\<close>, \<open>Handle_Props\<close>: \<open>StageHandle.py\<close>; the outcome latch, the
    callback queue under concurrent registration, counted work and the settlement barrier.
  \<^item> \<open>Carrier_Model\<close>, \<open>Carrier_Facts\<close>, \<open>Carrier_Lifecycle\<close>, \<open>Carrier_Props\<close>: \<open>_runtime.py\<close>;
    generations, slots and the pool, with the invariant that reserved generations stay open, the
    one-way life of a generation, and leases that avoid loops that would deadlock.
  \<^item> \<open>Scope_Model\<close>: the sections of \<open>Stage.py\<close> on the scope alone (construction, admission, idle
    timing, waiting, closing). \<open>Scope_World\<close>: the operations that cross scope, handles, pool and
    caller loops. \<open>Admission_Facts\<close>, \<open>Idle_Facts\<close>: the step relations of root admission and of the
    idle timer with their invariants. \<open>Scope_Props\<close>, \<open>Callback_Props\<close>: the properties of scopes.
  \<^item> \<open>Stream_Model\<close>, \<open>Stream_Props\<close>: \<open>_go_stream\<close> and \<open>StageStream.py\<close> over the channel contract
    \<open>replay_channel\<close>.
  \<^item> \<open>Go_Model\<close>: \<open>Stage.go\<close> as its clients see it (dispatch on the class of the task, origins, the
    responses) and the contract \<open>fresh_submission\<close>. \<open>Scope_Calls\<close>: the asynchronous waits, leaving
    a scope with \<open>with\<close>, \<open>as_sync\<close> and \<open>as_async\<close>, the execution of bodies and callbacks, and the
    cancellation of a timed-out scope.
  \<^item> \<open>Scope_System\<close>: a whole scope, all its operations with handles, admissions, adopted tasks, timers
    and the pool interleaved; its books follow the work its handles hold, so a wait that returns
    means that all work is done. \<open>Scope_History\<close>: what a scope never takes back, on every path of
    every operation.
  \<^item> \<open>Emitter\<close>, \<open>Emitter_Props\<close>: \<open>EventEmitter.py\<close>; once listeners, fan-out, closing.
    \<open>Stage_Function\<close>: \<open>StageFunction.py\<close>. \<open>Task_Proxy\<close>: \<open>StageTask.py\<close>. \<open>Events_Model\<close>: \<open>Events.py\<close>.
  \<^item> \<open>Local_Scope\<close>: \<open>LocalTaskScope.py\<close>, \<open>StageDispatch.py\<close>. \<open>Call_Bridge\<close>: \<open>StageCallBridge.py\<close>;
    routing between call shapes and the closing of every scope it routed through. \<open>Bridge_Streams\<close>: its
    stream generators (\<open>iter_sync\<close>, \<open>iter_async\<close>) as a state machine that always closes what it opened.
  \<^item> \<open>Replay_Candidates\<close>, \<open>Wake_Candidates\<close>: \<open>docs/performance-strategy/candidates.py\<close>, the replay stores
    and wake-up modes measured against the tunnel's; a chunked store answers like a deque, and every
    mode wakes the same readers.
  \<^item> The performance studies under \<open>docs\<close>. \<open>Bench_Kernels\<close>: the arithmetic of \<open>bench.py\<close> in unbounded integers
    against \<open>native.rs\<close> in 64-bit words, and the quantiles. \<open>Bench_Replay\<close>: the replay and broadcast
    measurements on the models of the tunnels they measure. \<open>Bench_Suite\<close>: \<open>suite.py\<close>, the
    matrix of cases and its repeated execution. \<open>Bench_Analysis\<close>: \<open>analyze.py\<close>, what the analysis concludes.
    \<open>Bench_Pairs\<close>: \<open>compare.py\<close>. \<open>Bench_Audit\<close>: \<open>audit.py\<close>, which selects every run exactly once.

  \<^bold>\<open>Interfaces.\<close> \<open>inductive_invariant\<close> is interpreted by the tunnel readers (\<open>wakeups\<close>), the
  callback drain (\<open>drains\<close>), the pool (\<open>pool\<close>), root admission (\<open>roots\<close>), the idle timer
  (\<open>idling\<close>), the whole scope (\<open>scopes\<close>) and the stream generators (\<open>generators\<close>); its extension
  \<open>monotone_system\<close>, for histories that only move forward, by the pool
  (\<open>lifecycle\<close>), the callback drain (\<open>history\<close>), the idle timer (\<open>aging\<close>) and
  the whole scope (\<open>past\<close>);
  \<open>counted_reservation\<close> by handle work (\<open>work\<close>) and generation reservations (\<open>reservations\<close>);
  \<open>replay_channel\<close> by the tunnel (\<open>channel\<close>); \<open>replay_store\<close>, the operations of a replay history,
  by the deque (\<open>deque\<close>) and by \<open>ChunkStore\<close> (\<open>chunks\<close>); \<open>fresh_submission\<close>, that
  accepted submissions get pairwise distinct handles, by the scalar route of \<open>go\<close>
  (\<open>scalar_submissions\<close>) and by its whole dispatch (\<open>submissions\<close>);
  \<open>paired_gain\<close>, the change between two measurements, by the formulas of \<open>analyze.py\<close> (\<open>improvements\<close>)
  and of \<open>compare.py\<close> (\<open>gains\<close>).

  \<^bold>\<open>Bounds.\<close> Recursion that follows the interpreter's stack (\<open>classify_task\<close>) takes the remaining
  depth; every other loop is structural or has a termination measure, and waits take the list
  of states they observe, \<open>None\<close> meaning that they are still waiting.

  \<^bold>\<open>Not modelled.\<close> Message texts (except the report of \<open>StageException\<close>), deprecation warnings,
  logging, thread creation, executors and the asyncio loop itself, which are the interpreter's;
  the package's alias modules, which only re-export; the examples and the scripts that archive
  evidence, check its digests or probe versions, which only call the library. Of the performance studies, clocks, processes,
  files and printed tables are left out: what a measured process reports is an argument, and measured
  numbers are exact rationals, so the rounding of floating-point numbers is not modelled.
\<close>

end
